(* ===== verification/Prelude.thy ===== *)
theory Prelude
  imports Main "HOL-Library.Word"
begin

text \<open>
  Shared vocabulary of the development.

  \<^item> the machine types of the Rust code (\<open>u8\<close>, \<open>u16\<close>, \<open>u32\<close> as words; \<open>usize\<close>
    lengths of buffers as \<open>nat\<close>, with the 64-bit wrap-around written out where the code
    can overflow);
  \<^item> byte strings: a \<open>Bytes\<close>, \<open>BytesMut\<close> or \<open>&[u8]\<close> is the list of the bytes it holds;
  \<^item> panics as values: an operation that can panic returns \<open>panic + 'a\<close>;
  \<^item> the big-endian accessors of \<open>bytes::Buf\<close> and \<open>bytes::BufMut\<close> (\<open>get_u8\<close>, \<open>get_u16\<close>,
    \<open>get_u32\<close>, \<open>advance\<close>, \<open>slice\<close>, \<open>put_u16\<close>, \<open>put_u32\<close>), read on the contents of the
    buffer as documented: reads and slices out of range panic.
\<close>

section \<open>Machine types\<close>

type_synonym u8 = "8 word"
type_synonym u16 = "16 word"
type_synonym u32 = "32 word"
type_synonym usize = "64 word"
type_synonym bytes = "u8 list"

definition bstr :: "string \<Rightarrow> bytes" where
  "bstr s = map of_char s"

text \<open>For evaluation: a character by its two hexadecimal digits.\<close>

definition nibble :: "bool \<Rightarrow> bool \<Rightarrow> bool \<Rightarrow> bool \<Rightarrow> u8" where
  "nibble d c b a =
     (if d then (if c then (if b then (if a then 15 else 14) else (if a then 13 else 12))
                 else (if b then (if a then 11 else 10) else (if a then 9 else 8)))
      else (if c then (if b then (if a then 7 else 6) else (if a then 5 else 4))
            else (if b then (if a then 3 else 2) else (if a then 1 else 0))))"

lemma bstr_code [code]:
  "bstr [] = []"
  "bstr (Char b0 b1 b2 b3 b4 b5 b6 b7 # s) = (16 * nibble b7 b6 b5 b4 + nibble b3 b2 b1 b0) # bstr s"
proof -
  have "(of_char (Char b0 b1 b2 b3 b4 b5 b6 b7) :: u8) = 16 * nibble b7 b6 b5 b4 + nibble b3 b2 b1 b0"
    by (cases b0; cases b1; cases b2; cases b3; cases b4; cases b5; cases b6; cases b7) (simp_all add: nibble_def)
  then show "bstr (Char b0 b1 b2 b3 b4 b5 b6 b7 # s) = (16 * nibble b7 b6 b5 b4 + nibble b3 b2 b1 b0) # bstr s"
    by (simp add: bstr_def del: of_char_Char)
qed (simp add: bstr_def)

section \<open>Panics and results\<close>

text \<open>
  One constructor per way the code can panic. \<open>BufContractBroken\<close> is no panic of its own: it is
  the result of a \<open>bytes::Buf\<close> default method on a buffer that breaks the documented contract of
  the trait, where the documentation promises nothing.
\<close>

datatype panic =
    BufUnderflow
  | SliceOutOfRange
  | NotFcgiType u8
  | NotFcgiStatus u8
  | NotImplemented
  | NoValidType
  | PairTooBig
  | LengthTooBig
  | DebugAssert
  | SubOverflow
  | UnwrapNone
  | InvalidSlabKey
  | InvalidHeaderName
  | BufContractBroken

fun rbind :: "'e + 'a \<Rightarrow> ('a \<Rightarrow> 'e + 'b) \<Rightarrow> 'e + 'b" where
  "rbind (Inl e) f = Inl e"
| "rbind (Inr x) f = f x"

lemma rbind_Inr_iff: "rbind m f = Inr y \<longleftrightarrow> (\<exists>x. m = Inr x \<and> f x = Inr y)"
  by (cases m) auto

lemma rbind_Inl_iff: "rbind m f = Inl e \<longleftrightarrow> m = Inl e \<or> (\<exists>x. m = Inr x \<and> f x = Inl e)"
  by (cases m) auto

lemma case_sum_Inr_iff:
  "(case s of Inl e \<Rightarrow> Inl (g e) | Inr x \<Rightarrow> f x) = Inr y \<longleftrightarrow> (\<exists>x. s = Inr x \<and> f x = Inr y)"
  by (cases s) auto

lemma rbind_assoc: "rbind (rbind m f) g = rbind m (\<lambda>x. rbind (f x) g)"
  by (cases m) auto

lemma rbind_cong [fundef_cong]:
  "m = m' \<Longrightarrow> (\<And>x. m' = Inr x \<Longrightarrow> f x = f' x) \<Longrightarrow> rbind m f = rbind m' f'"
  by (cases m') auto

section \<open>Reading from a buffer\<close>

definition be16 :: "u8 \<Rightarrow> u8 \<Rightarrow> u16" where
  "be16 a b = of_nat (unat a * 256 + unat b)"

definition be32 :: "u8 \<Rightarrow> u8 \<Rightarrow> u8 \<Rightarrow> u8 \<Rightarrow> u32" where
  "be32 a b c d = of_nat (((unat a * 256 + unat b) * 256 + unat c) * 256 + unat d)"

fun get_u8 :: "bytes \<Rightarrow> panic + u8 \<times> bytes" where
  "get_u8 (a # r) = Inr (a, r)"
| "get_u8 [] = Inl BufUnderflow"

fun get_u16 :: "bytes \<Rightarrow> panic + u16 \<times> bytes" where
  "get_u16 (a # b # r) = Inr (be16 a b, r)"
| "get_u16 _ = Inl BufUnderflow"

fun get_u32 :: "bytes \<Rightarrow> panic + u32 \<times> bytes" where
  "get_u32 (a # b # c # d # r) = Inr (be32 a b c d, r)"
| "get_u32 _ = Inl BufUnderflow"

definition advance :: "nat \<Rightarrow> bytes \<Rightarrow> panic + bytes" where
  "advance n bs = (if n \<le> length bs then Inr (drop n bs) else Inl BufUnderflow)"

text \<open>\<open>data.slice(a..b)\<close> and \<open>data[i]\<close>: a range or an index outside of the buffer panics.\<close>

definition slice :: "nat \<Rightarrow> nat \<Rightarrow> bytes \<Rightarrow> panic + bytes" where
  "slice a b bs = (if a \<le> b \<and> b \<le> length bs then Inr (take (b - a) (drop a bs)) else Inl SliceOutOfRange)"

definition index :: "bytes \<Rightarrow> nat \<Rightarrow> panic + u8" where
  "index bs i = (if i < length bs then Inr (bs ! i) else Inl SliceOutOfRange)"

section \<open>Writing to a buffer\<close>

definition put_u16 :: "u16 \<Rightarrow> bytes" where
  "put_u16 w = [of_nat (unat w div 256), of_nat (unat w mod 256)]"

definition put_u32 :: "u32 \<Rightarrow> bytes" where
  "put_u32 w = [of_nat (unat w div 256 ^ 3), of_nat (unat w div 256 ^ 2 mod 256),
     of_nat (unat w div 256 mod 256), of_nat (unat w mod 256)]"

lemma length_put_u16 [simp]: "length (put_u16 w) = 2"
  by (simp add: put_u16_def)

lemma length_put_u32 [simp]: "length (put_u32 w) = 4"
  by (simp add: put_u32_def)

lemma put_u32_nonempty [simp]: "put_u32 w \<noteq> []"
  by (simp add: put_u32_def)

section \<open>Round trips of the accessors\<close>

lemma unat_u8_lt [simp]: "unat (b :: u8) < 256"
  using unsigned_less [of b, where 'a = nat] by simp

lemma unat_u16_lt [simp]: "unat (w :: u16) < 65536"
  using unsigned_less [of w, where 'a = nat] by simp

lemma unat_u32_lt [simp]: "unat (w :: u32) < 4294967296"
  using unsigned_less [of w, where 'a = nat] by simp

lemma unat_of_nat_u8 [simp]: "n < 256 \<Longrightarrow> unat (of_nat n :: u8) = n"
  by (simp add: unat_of_nat take_bit_nat_eq_self)

lemma unat_of_nat_u16 [simp]: "n < 65536 \<Longrightarrow> unat (of_nat n :: u16) = n"
  by (simp add: unat_of_nat take_bit_nat_eq_self)

lemma unat_of_nat_u32 [simp]: "n < 4294967296 \<Longrightarrow> unat (of_nat n :: u32) = n"
  by (simp add: unat_of_nat take_bit_nat_eq_self)

lemma unat_be16: "unat (be16 a b) = unat a * 256 + unat b"
proof -
  have "unat a * 256 + unat b < 65536"
    using unat_u8_lt [of a] unat_u8_lt [of b] by linarith
  then show ?thesis unfolding be16_def by (rule unat_of_nat_u16)
qed

lemma digit_256: "x < m \<Longrightarrow> unat (b :: u8) < 256 \<Longrightarrow> x * 256 + unat b < m * 256"
  by linarith

lemma unat_be32:
  "unat (be32 a b c d) = ((unat a * 256 + unat b) * 256 + unat c) * 256 + unat d"
proof -
  have "unat a * 256 + unat b < 65536"
    using unat_u8_lt [of a] unat_u8_lt [of b] by linarith
  from digit_256 [OF this unat_u8_lt [of c]]
  have "(unat a * 256 + unat b) * 256 + unat c < 16777216" by simp
  from digit_256 [OF this unat_u8_lt [of d]]
  have "((unat a * 256 + unat b) * 256 + unat c) * 256 + unat d < 4294967296" by simp
  then show ?thesis unfolding be32_def by (rule unat_of_nat_u32)
qed

lemma get_u16_put_u16 [simp]: "get_u16 (put_u16 w @ r) = Inr (w, r)"
proof -
  have "unat w div 256 < 256" using unat_u16_lt [of w] by linarith
  then have "unat w div 256 * 256 + unat w mod 256 = unat w" by simp
  with \<open>unat w div 256 < 256\<close> show ?thesis
    by (simp add: put_u16_def be16_def)
qed

lemma digits_256: "((n div 256 ^ 3 * 256 + n div 256 ^ 2 mod 256) * 256 + n div 256 mod 256) * 256
    + n mod 256 = (n :: nat)"
proof -
  have 3: "n div 256 ^ 3 = n div 256 ^ 2 div 256" and 2: "n div 256 ^ 2 = n div 256 div 256"
    by (simp_all add: div_mult2_eq [symmetric] power3_eq_cube power2_eq_square)
  show ?thesis
    unfolding 3 div_mult_mod_eq unfolding 2 div_mult_mod_eq by (rule refl)
qed

lemma of_nat_unat_u32: "of_nat (unat (w :: u32)) = w"
  by simp

lemma get_u32_put_u32 [simp]: "get_u32 (put_u32 w @ r) = Inr (w, r)"
proof -
  have "unat w div 256 ^ 3 < 256"
    using unat_u32_lt [of w] by (simp add: less_mult_imp_div_less)
  then have "be32 (of_nat (unat w div 256 ^ 3)) (of_nat (unat w div 256 ^ 2 mod 256))
      (of_nat (unat w div 256 mod 256)) (of_nat (unat w mod 256)) = w"
    unfolding be32_def by (simp only: unat_of_nat_u8 digits_256 mod_less_divisor zero_less_numeral
      of_nat_unat_u32)
  then show ?thesis by (simp only: put_u32_def append_Cons append_Nil get_u32.simps)
qed

lemma put_u16_be16 [simp]: "put_u16 (be16 a b) = [a, b]"
  by (simp add: put_u16_def unat_be16)

lemma advance_app [simp]: "n = length xs \<Longrightarrow> advance n (xs @ ys) = Inr ys"
  by (simp add: advance_def)

lemma advance_Inr: "n \<le> length bs \<Longrightarrow> advance n bs = Inr (drop n bs)"
  by (simp add: advance_def)

lemma slice_Inr: "a \<le> b \<Longrightarrow> b \<le> length bs \<Longrightarrow> slice a b bs = Inr (take (b - a) (drop a bs))"
  by (simp add: slice_def)

lemma index_Inr: "i < length bs \<Longrightarrow> index bs i = Inr (bs ! i)"
  by (simp add: index_def)

end
