(* ===== verification/Io.thy ===== *)
theory Io
  imports Prelude "HOL-Library.Sublist"
begin

text \<open>
  The transport under the writer of \<open>src/codec.rs\<close>: any \<open>AsyncWrite\<close>.

  What the transport does is a script, one entry per call of \<open>write_buf\<close>: an error, or a number
  of bytes that it takes (it takes at most what is offered, and may take none). A script that has
  run out stands for a write that is still pending: the computation is \<open>Stalled\<close> there. A
  computation passes the state of the transport on; a failure keeps what was sent before it.
\<close>

datatype ErrorKind = WouldBlock | InvalidData | ConnectionAborted | NotConnected | OtherKind nat

datatype IoError = IoError ErrorKind string

datatype fail = Io IoError | Stalled | Panicked panic

record io =
  sent :: bytes
  script :: "(IoError + nat) list"

type_synonym 'a iom = "io \<Rightarrow> (fail + 'a) \<times> io"

definition io_return :: "'a \<Rightarrow> 'a iom" where
  "io_return x s = (Inr x, s)"

definition io_fail :: "fail \<Rightarrow> 'a iom" where
  "io_fail e s = (Inl e, s)"

definition io_bind :: "'a iom \<Rightarrow> ('a \<Rightarrow> 'b iom) \<Rightarrow> 'b iom" where
  "io_bind m f s = (case m s of (Inl e, s') \<Rightarrow> (Inl e, s') | (Inr x, s') \<Rightarrow> f x s')"

fun io_fold :: "('a \<Rightarrow> 'st \<Rightarrow> 'st iom) \<Rightarrow> 'a list \<Rightarrow> 'st \<Rightarrow> 'st iom" where
  "io_fold f [] st = io_return st"
| "io_fold f (x # xs) st = io_bind (f x st) (\<lambda>st. io_fold f xs st)"

section \<open>Computations that send a known byte string\<close>

text \<open>
  \<open>ample n sc\<close>: the script has at least \<open>n\<close> entries and every entry takes at least one byte.
  \<open>tx_failed sc e\<close>: the failure \<open>e\<close> is the transport's, one of the errors of its script or a write that
  never completes.

  \<open>sends m bs x\<close> is total correctness of a writing computation: if it succeeds it returns \<open>x\<close>
  and has sent exactly \<open>bs\<close>; if it fails, only the transport is to blame and what was sent is a
  prefix of \<open>bs\<close>; and it does succeed when the transport takes at least one byte per call, with
  no more calls than bytes.
\<close>

definition ample :: "nat \<Rightarrow> (IoError + nat) list \<Rightarrow> bool" where
  "ample n sc \<longleftrightarrow> n \<le> length sc \<and> (\<forall>x \<in> set sc. \<exists>k. x = Inr (Suc k))"

definition tx_failed :: "(IoError + nat) list \<Rightarrow> fail \<Rightarrow> bool" where
  "tx_failed sc e \<longleftrightarrow> (case e of Stalled \<Rightarrow> True | Io i \<Rightarrow> Inl i \<in> set sc | Panicked p \<Rightarrow> False)"

lemma tx_failed_mono: "set sc \<subseteq> set sc' \<Longrightarrow> tx_failed sc e \<Longrightarrow> tx_failed sc' e"
  by (auto simp: tx_failed_def split: fail.splits)

definition sends :: "'a iom \<Rightarrow> bytes \<Rightarrow> 'a \<Rightarrow> bool" where
  "sends m bs x \<longleftrightarrow>
     (\<forall>s. set (script (snd (m s))) \<subseteq> set (script s) \<and>
       (case m s of
          (Inr y, s') \<Rightarrow> y = x \<and> sent s' = sent s @ bs
        | (Inl e, s') \<Rightarrow> (\<exists>p. prefix p bs \<and> sent s' = sent s @ p) \<and> tx_failed (script s) e)) \<and>
     (\<forall>s n. ample (length bs + n) (script s) \<longrightarrow>
        (\<exists>s'. m s = (Inr x, s') \<and> ample n (script s')))"

lemma sends_successD: "sends m bs x \<Longrightarrow> m s = (Inr y, s') \<Longrightarrow> y = x \<and> sent s' = sent s @ bs"
  unfolding sends_def by (auto dest!: spec [of _ s])

lemma sends_failureD:
  "sends m bs x \<Longrightarrow> m s = (Inl e, s') \<Longrightarrow>
     (\<exists>p. prefix p bs \<and> sent s' = sent s @ p) \<and> tx_failed (script s) e"
  unfolding sends_def by (auto dest!: spec [of _ s])

lemma sends_script: "sends m bs x \<Longrightarrow> m s = (r, s') \<Longrightarrow> set (script s') \<subseteq> set (script s)"
  unfolding sends_def by (metis snd_conv)

lemma sends_ample:
  "sends m bs x \<Longrightarrow> ample (length bs + n) (script s) \<Longrightarrow> \<exists>s'. m s = (Inr x, s') \<and> ample n (script s')"
  unfolding sends_def by blast

lemma sendsI:
  assumes "\<And>s r s'. m s = (r, s') \<Longrightarrow> set (script s') \<subseteq> set (script s)"
    and "\<And>s y s'. m s = (Inr y, s') \<Longrightarrow> y = x \<and> sent s' = sent s @ bs"
    and "\<And>s e s'. m s = (Inl e, s') \<Longrightarrow>
      (\<exists>p. prefix p bs \<and> sent s' = sent s @ p) \<and> tx_failed (script s) e"
    and "\<And>s n. ample (length bs + n) (script s) \<Longrightarrow> \<exists>s'. m s = (Inr x, s') \<and> ample n (script s')"
  shows "sends m bs x"
proof -
  have "set (script (snd (m s))) \<subseteq> set (script s)" for s using assms(1) [of s] by (cases "m s") simp
  then show ?thesis unfolding sends_def using assms(2-4) by (auto split: prod.split sum.split)
qed

lemma sends_return [intro!, simp]: "sends (io_return x) [] x"
  by (rule sendsI) (auto simp: io_return_def)

lemma sends_bind:
  assumes m: "sends m bs x" and f: "sends (f x) cs y"
  shows "sends (io_bind m f) (bs @ cs) y"
proof (rule sendsI)
  fix s r s'
  assume b: "io_bind m f s = (r, s')"
  obtain r1 s1 where 1: "m s = (r1, s1)" by (cases "m s")
  note sc = sends_script [OF m 1]
  show "set (script s') \<subseteq> set (script s)"
  proof (cases r1)
    case (Inl e)
    with b 1 sc show ?thesis by (simp add: io_bind_def)
  next
    case (Inr x')
    with sends_successD [OF m, of s x' s1] 1 b have "f x s1 = (r, s')" by (simp add: io_bind_def)
    from sends_script [OF f this] sc show ?thesis by simp
  qed
next
  fix s z s'
  assume "io_bind m f s = (Inr z, s')"
  then obtain x' s1 where 1: "m s = (Inr x', s1)" and 2: "f x' s1 = (Inr z, s')"
    by (auto simp: io_bind_def split: prod.splits sum.splits)
  from sends_successD [OF m 1] sends_successD [OF f] 2 show "z = y \<and> sent s' = sent s @ bs @ cs"
    by auto
next
  fix s e s'
  assume *: "io_bind m f s = (Inl e, s')"
  show "(\<exists>p. prefix p (bs @ cs) \<and> sent s' = sent s @ p) \<and> tx_failed (script s) e"
  proof (cases "m s")
    case (Pair r s1)
    show ?thesis
    proof (cases r)
      case (Inl e1)
      with * Pair have "m s = (Inl e, s')" by (simp add: io_bind_def)
      from sends_failureD [OF m this] show ?thesis by (auto intro: prefix_prefix)
    next
      case (Inr x1)
      with * Pair sends_successD [OF m, of s x1 s1] have "f x s1 = (Inl e, s')"
        and s1: "sent s1 = sent s @ bs" by (auto simp: io_bind_def)
      from sends_failureD [OF f this(1)] obtain p where p: "prefix p cs" "sent s' = sent s @ bs @ p"
        "tx_failed (script s1) e" by (auto simp: s1)
      from tx_failed_mono [OF sends_script [OF m Pair] p(3)] p(1,2) show ?thesis
        by (auto intro!: exI [of _ "bs @ p"])
    qed
  qed
next
  fix s :: io and n
  assume "ample (length (bs @ cs) + n) (script s)"
  then have "ample (length bs + (length cs + n)) (script s)" by (simp add: add.assoc)
  from sends_ample [OF m this] obtain s1 where 1: "m s = (Inr x, s1)" "ample (length cs + n) (script s1)"
    by blast
  from sends_ample [OF f 1(2)] obtain s2 where "f x s1 = (Inr y, s2)" "ample n (script s2)" by blast
  with 1 show "\<exists>s'. io_bind m f s = (Inr y, s') \<and> ample n (script s')" by (simp add: io_bind_def)
qed

lemma sends_then: "sends m bs x \<Longrightarrow> sends k cs y \<Longrightarrow> sends (io_bind m (\<lambda>_. k)) (bs @ cs) y"
  by (rule sends_bind)

lemma sends_bind_return: "sends m bs x \<Longrightarrow> sends (io_bind m (\<lambda>x. io_return (g x))) bs (g x)"
  using sends_bind [of m bs x "\<lambda>x. io_return (g x)" "[]"] by simp

text \<open>
  \<open>fails_after m bs e\<close>: the computation never succeeds; when the transport does not fail first, it
  sends \<open>bs\<close> and then fails with \<open>e\<close>.
\<close>

definition fails_after :: "'a iom \<Rightarrow> bytes \<Rightarrow> fail \<Rightarrow> bool" where
  "fails_after m bs e \<longleftrightarrow>
     (\<forall>s. \<exists>e' s'. m s = (Inl e', s') \<and>
       ((e' = e \<and> sent s' = sent s @ bs) \<or>
        (\<exists>p. prefix p bs \<and> sent s' = sent s @ p) \<and> tx_failed (script s) e')) \<and>
     (\<forall>s. ample (length bs) (script s) \<longrightarrow> (\<exists>s'. m s = (Inl e, s') \<and> sent s' = sent s @ bs))"

lemma fails_io_fail: "fails_after (io_fail e) [] e"
  by (simp add: fails_after_def io_fail_def)

lemma fails_afterD:
  assumes "fails_after m bs e"
  obtains e' s' where "m s = (Inl e', s')"
    "(e' = e \<and> sent s' = sent s @ bs) \<or>
     (\<exists>p. prefix p bs \<and> sent s' = sent s @ p) \<and> tx_failed (script s) e'"
  using assms unfolding fails_after_def by blast

lemma sends_fails:
  assumes m: "sends m bs x" and f: "fails_after (f x) cs e"
  shows "fails_after (io_bind m f) (bs @ cs) e"
  unfolding fails_after_def
proof (rule conjI; rule allI)
  fix s :: io
  show "\<exists>e' s'. io_bind m f s = (Inl e', s') \<and>
      ((e' = e \<and> sent s' = sent s @ bs @ cs) \<or>
       (\<exists>p. prefix p (bs @ cs) \<and> sent s' = sent s @ p) \<and> tx_failed (script s) e')"
  proof (cases "m s")
    case (Pair r s1)
    show ?thesis
    proof (cases r)
      case (Inl e1)
      with sends_failureD [OF m, of s e1 s1] Pair show ?thesis
        by (auto simp: io_bind_def intro: prefix_prefix)
    next
      case (Inr x1)
      with sends_successD [OF m, of s x1 s1] Pair have x: "x1 = x" "sent s1 = sent s @ bs" by auto
      from fails_afterD [OF f, of s1] obtain e2 s2 where 2: "f x s1 = (Inl e2, s2)"
        "(e2 = e \<and> sent s2 = sent s1 @ cs) \<or>
         (\<exists>p. prefix p cs \<and> sent s2 = sent s1 @ p) \<and> tx_failed (script s1) e2" .
      have b: "io_bind m f s = (Inl e2, s2)" using Pair Inr x 2(1) by (simp add: io_bind_def)
      from 2(2) show ?thesis
      proof
        assume "(\<exists>p. prefix p cs \<and> sent s2 = sent s1 @ p) \<and> tx_failed (script s1) e2"
        then obtain p where "prefix p cs" "sent s2 = sent s @ bs @ p" "tx_failed (script s) e2"
          using tx_failed_mono [OF sends_script [OF m Pair]] by (auto simp: x)
        with b show ?thesis by (auto intro!: exI [of _ "bs @ p"])
      qed (use b x in auto)
    qed
  qed
next
  fix s :: io
  show "ample (length (bs @ cs)) (script s) \<longrightarrow> (\<exists>s'. io_bind m f s = (Inl e, s') \<and> sent s' = sent s @ bs @ cs)"
  proof
    assume "ample (length (bs @ cs)) (script s)"
    then have "ample (length bs + length cs) (script s)" by simp
    from sends_ample [OF m this] obtain s1 where 1: "m s = (Inr x, s1)" "ample (length cs) (script s1)" by blast
    from f 1(2) obtain s2 where "f x s1 = (Inl e, s2)" "sent s2 = sent s1 @ cs"
      unfolding fails_after_def by blast
    with 1 sends_successD [OF m 1(1)] show "\<exists>s'. io_bind m f s = (Inl e, s') \<and> sent s' = sent s @ bs @ cs"
      by (simp add: io_bind_def)
  qed
qed

lemma fails_bind:
  assumes "fails_after m bs e"
  shows "fails_after (io_bind m f) bs e"
proof -
  have b: "m s = (Inl e', s') \<Longrightarrow> io_bind m f s = (Inl e', s')" for s e' s' by (simp add: io_bind_def)
  with assms show ?thesis unfolding fails_after_def by fast
qed

section \<open>\<open>write_whole_buf\<close>\<close>

fun write_loop :: "bytes \<Rightarrow> bytes \<Rightarrow> (IoError + nat) list \<Rightarrow> (fail + unit) \<times> io" where
  "write_loop [] out sc = (Inr (), \<lparr>sent = out, script = sc\<rparr>)"
| "write_loop (b # buf) out [] = (Inl Stalled, \<lparr>sent = out, script = []\<rparr>)"
| "write_loop (b # buf) out (Inl e # sc) = (Inl (Io e), \<lparr>sent = out, script = sc\<rparr>)"
| "write_loop (b # buf) out (Inr n # sc) =
     write_loop (drop n (b # buf)) (out @ take n (b # buf)) sc"

definition FCGIWriter_write_whole_buf :: "bytes \<Rightarrow> unit iom" where
  "FCGIWriter_write_whole_buf buf s = write_loop buf (sent s) (script s)"

lemma write_loop_success:
  "write_loop buf out sc = (Inr u, s') \<Longrightarrow> sent s' = out @ buf"
  by (induction buf out sc rule: write_loop.induct) auto

lemma write_loop_failure:
  "write_loop buf out sc = (Inl e, s') \<Longrightarrow>
     (\<exists>p. prefix p buf \<and> sent s' = out @ p) \<and> tx_failed sc e"
proof (induction buf out sc rule: write_loop.induct)
  case (4 b buf out n sc)
  then obtain p where p: "prefix p (drop n (b # buf))" "sent s' = out @ take n (b # buf) @ p"
    "tx_failed (Inr n # sc) e" using tx_failed_mono [of sc "Inr n # sc" e] by auto
  have "prefix (take n (b # buf) @ p) (b # buf)"
    using p(1) by (metis append_take_drop_id same_prefix_prefix)
  with p show ?case by blast
qed (auto simp: tx_failed_def)

lemma write_loop_script: "write_loop buf out sc = (r, s') \<Longrightarrow> set (script s') \<subseteq> set sc"
proof (induction buf out sc rule: write_loop.induct)
  case (4 b buf out n sc)
  from "4.IH" "4.prems" have "set (script s') \<subseteq> set sc" by simp
  then show ?case by auto
qed auto

lemma write_loop_ample:
  "ample (length buf + n) sc \<Longrightarrow> \<exists>s'. write_loop buf out sc = (Inr (), s') \<and> ample n (script s')"
proof (induction buf out sc rule: write_loop.induct)
  case (4 b buf out k sc)
  from "4.prems" obtain k' where k: "k = Suc k'" by (auto simp: ample_def)
  with "4.prems" have "ample (length (drop k (b # buf)) + n) sc" by (auto simp: ample_def)
  from "4.IH" [OF this] show ?case by simp
qed (auto simp: ample_def)

lemma sends_write: "sends (FCGIWriter_write_whole_buf buf) buf ()"
  by (rule sendsI)
    (auto simp: FCGIWriter_write_whole_buf_def dest: write_loop_script
      write_loop_success write_loop_failure write_loop_ample)

section \<open>Writers that put values into a stream and close it\<close>

text \<open>
  The contract between a stream of values and the wire: \<open>opened\<close> is the empty stream, \<open>put\<close> adds
  a value (possibly sending something), \<open>finish\<close> sends the rest and the end. \<open>inv st p out\<close>: the
  state \<open>st\<close> has taken the payload \<open>p\<close> and sent \<open>out\<close>. Whatever the order and the sizes of the
  values, what is sent depends on the whole payload only.
\<close>

locale stream_writer =
  fixes valid :: "'a \<Rightarrow> bool"
    and payload :: "'a \<Rightarrow> bytes"
    and opened :: 'st
    and put :: "'a \<Rightarrow> 'st \<Rightarrow> 'st iom"
    and finish :: "'st \<Rightarrow> unit iom"
    and inv :: "'st \<Rightarrow> bytes \<Rightarrow> bytes \<Rightarrow> bool"
    and wire :: "bytes \<Rightarrow> bytes"
  assumes inv_opened: "inv opened [] []"
    and put_sends: "inv st p out \<Longrightarrow> valid a \<Longrightarrow>
      \<exists>st' bs. sends (put a st) bs st' \<and> inv st' (p @ payload a) (out @ bs)"
    and finish_sends: "inv st p out \<Longrightarrow> \<exists>bs. sends (finish st) bs () \<and> out @ bs = wire p"
begin

lemma fold_sends:
  "inv st p out \<Longrightarrow> list_all valid xs \<Longrightarrow>
     \<exists>st' bs. sends (io_fold put xs st) bs st' \<and> inv st' (p @ concat (map payload xs)) (out @ bs)"
proof (induction xs arbitrary: st p out)
  case Nil
  then show ?case by (auto intro!: exI [of _ st] exI [of _ "[]"])
next
  case (Cons x xs)
  from put_sends [OF Cons.prems(1), of x] Cons.prems(2) obtain st1 bs1 where
    1: "sends (put x st) bs1 st1" "inv st1 (p @ payload x) (out @ bs1)" by auto
  from Cons.IH [OF 1(2)] Cons.prems(2) obtain st2 bs2 where
    2: "sends (io_fold put xs st1) bs2 st2" "inv st2 (p @ concat (map payload (x # xs))) (out @ bs1 @ bs2)"
    by auto
  from sends_bind [OF 1(1), of "\<lambda>st. io_fold put xs st"] 2 show ?case by fastforce
qed

lemma stream_sends:
  assumes "list_all valid xs"
  shows "sends (io_bind (io_fold put xs opened) finish) (wire (concat (map payload xs))) ()"
proof -
  from fold_sends [OF inv_opened assms] obtain st bs where
    1: "sends (io_fold put xs opened) bs st" "inv st (concat (map payload xs)) bs" by auto
  from finish_sends [OF 1(2)] obtain bs' where "sends (finish st) bs' ()"
    "bs @ bs' = wire (concat (map payload xs))" by blast
  with sends_bind [OF 1(1), of finish] show ?thesis by fastforce
qed

end

end
