(* ===== verification/BufVec.thy ===== *)
theory BufVec
  imports Prelude "HOL-Library.Sublist"
begin

text \<open>
  \<open>src/bufvec.rs\<close>: the list of buffers that \<open>NVBody\<close> and \<open>FCGIRequest\<close> collect data in.

  \<open>BufList<Bytes>\<close> is a list of byte strings, front first; \<open>dbg\<close> says whether the crate is
  built with debug assertions. The contract of the trait \<open>bytes::Buf\<close> is the locale \<open>buf_contract\<close>,
  interpreted on \<open>BufList\<close> below: it holds as long as no empty buffer is in the list.
\<close>

section \<open>The contract of \<open>bytes::Buf\<close>\<close>

text \<open>
  \<open>content\<close> is what is left to read. \<open>chunk\<close> returns a prefix of it, empty if and only if
  nothing is left; \<open>advance n\<close> drops \<open>n\<close> bytes.
\<close>

locale buf_contract =
  fixes invar :: "'b \<Rightarrow> bool"
    and content :: "'b \<Rightarrow> bytes"
    and remaining :: "'b \<Rightarrow> nat"
    and chunk :: "'b \<Rightarrow> bytes"
    and adv :: "nat \<Rightarrow> 'b \<Rightarrow> 'b"
  assumes remaining_content: "remaining b = length (content b)"
    and chunk_prefix: "prefix (chunk b) (content b)"
    and chunk_empty: "invar b \<Longrightarrow> chunk b = [] \<longleftrightarrow> remaining b = 0"
    and content_adv: "n \<le> remaining b \<Longrightarrow> content (adv n b) = drop n (content b)"
    and invar_adv: "invar b \<Longrightarrow> invar (adv n b)"
begin

lemma chunk_adv: "content b = chunk b @ content (adv (length (chunk b)) b)"
proof -
  from chunk_prefix obtain z where z: "content b = chunk b @ z" by (auto simp: prefix_def)
  then have "length (chunk b) \<le> remaining b" by (simp add: remaining_content)
  with z show ?thesis by (simp add: content_adv)
qed

lemma take_adv: "n \<le> remaining b \<Longrightarrow> take n (content b) @ content (adv n b) = content b"
  by (simp add: content_adv)

lemma remaining_adv: "n \<le> remaining b \<Longrightarrow> remaining (adv n b) = remaining b - n"
  by (simp add: content_adv remaining_content)

lemma adv_adv: "m + n \<le> remaining b \<Longrightarrow> content (adv n (adv m b)) = content (adv (m + n) b)"
  by (simp add: content_adv remaining_adv add.commute)

text \<open>Reading chunk by chunk makes progress: the loop \<open>while has_remaining\<close> of a copy ends.\<close>

lemma chunk_progress:
  "invar b \<Longrightarrow> 0 < remaining b \<Longrightarrow> remaining (adv (length (chunk b)) b) < remaining b"
proof -
  assume "invar b" "0 < remaining b"
  then have "chunk b \<noteq> []" by (simp add: chunk_empty)
  moreover have "length (chunk b) \<le> remaining b"
    using chunk_prefix [of b] by (simp add: remaining_content prefix_length_le)
  ultimately show ?thesis by (simp add: remaining_adv \<open>0 < remaining b\<close>)
qed

end

section \<open>BufList\<close>

type_synonym BufList = "bytes list"

definition BufList_new :: BufList where
  "BufList_new = []"

definition BufList_push :: "bool \<Rightarrow> BufList \<Rightarrow> bytes \<Rightarrow> panic + BufList" where
  "BufList_push dbg bufs b = (if dbg \<and> b = [] then Inl DebugAssert else Inr (bufs @ [b]))"

fun BufList_oldest :: "BufList \<Rightarrow> bytes option \<times> BufList" where
  "BufList_oldest [] = (None, [])"
| "BufList_oldest (b # bufs) = (Some b, bufs)"

definition BufList_remaining :: "BufList \<Rightarrow> nat" where
  "BufList_remaining bufs = sum_list (map length bufs)"

fun BufList_chunk :: "BufList \<Rightarrow> bytes" where
  "BufList_chunk [] = []"
| "BufList_chunk (b # bufs) = b"

fun BufList_advance :: "nat \<Rightarrow> BufList \<Rightarrow> BufList" where
  "BufList_advance cnt [] = []"
| "BufList_advance cnt (front # bufs) =
     (if cnt = 0 then front # bufs
      else if length front > cnt then drop cnt front # bufs
      else BufList_advance (cnt - length front) bufs)"

text \<open>What the list holds, and the invariant that makes it a lawful \<open>Buf\<close>.\<close>

definition BufList_wf :: "BufList \<Rightarrow> bool" where
  "BufList_wf bufs \<longleftrightarrow> [] \<notin> set bufs"

lemma BufList_remaining_concat: "BufList_remaining bufs = length (concat bufs)"
  by (simp add: BufList_remaining_def length_concat)

lemma concat_BufList_advance: "concat (BufList_advance n bufs) = drop n (concat bufs)"
  by (induction n bufs rule: BufList_advance.induct) auto

lemma BufList_wf_advance: "BufList_wf bufs \<Longrightarrow> BufList_wf (BufList_advance n bufs)"
  by (induction n bufs rule: BufList_advance.induct) (auto simp: BufList_wf_def)

interpretation bl: buf_contract BufList_wf concat BufList_remaining BufList_chunk BufList_advance
proof
  fix b :: BufList
  show "BufList_remaining b = length (concat b)" by (rule BufList_remaining_concat)
  show "prefix (BufList_chunk b) (concat b)" by (cases b) auto
  show "BufList_wf b \<Longrightarrow> BufList_chunk b = [] \<longleftrightarrow> BufList_remaining b = 0"
    by (cases b) (auto simp: BufList_wf_def BufList_remaining_def)
qed (auto simp: concat_BufList_advance BufList_wf_advance)

text \<open>
  \<open>Buf::copy_to_bytes\<close>, a default method of the trait that \<open>BufList\<close> does not override: it
  copies chunk by chunk, which is only specified on a lawful buffer.
\<close>

definition BufList_copy_to_bytes :: "nat \<Rightarrow> BufList \<Rightarrow> panic + bytes \<times> BufList" where
  "BufList_copy_to_bytes n bufs =
     (if BufList_remaining bufs < n then Inl BufUnderflow
      else if \<not> BufList_wf bufs then Inl BufContractBroken
      else Inr (take n (concat bufs), BufList_advance n bufs))"

lemma BufList_push_Inr [simp]: "b \<noteq> [] \<Longrightarrow> BufList_push dbg bufs b = Inr (bufs @ [b])"
  by (simp add: BufList_push_def)

lemma BufList_push_release [simp]: "BufList_push False bufs b = Inr (bufs @ [b])"
  by (simp add: BufList_push_def)

lemma BufList_wf_snoc [simp]: "BufList_wf (bufs @ [b]) \<longleftrightarrow> BufList_wf bufs \<and> b \<noteq> []"
  by (auto simp: BufList_wf_def)

lemma BufList_wf_Nil [simp]: "BufList_wf []"
  by (simp add: BufList_wf_def)

lemma BufList_wf_Cons [simp]: "BufList_wf (b # bufs) \<longleftrightarrow> b \<noteq> [] \<and> BufList_wf bufs"
  by (auto simp: BufList_wf_def)

lemma BufList_remaining_Nil [simp]: "BufList_remaining [] = 0"
  by (simp add: BufList_remaining_def)

lemma BufList_wf_empty: "BufList_wf bufs \<Longrightarrow> BufList_remaining bufs = 0 \<longleftrightarrow> bufs = []"
  by (cases bufs) (auto simp: BufList_remaining_def)

lemma BufList_copy_all:
  "BufList_wf bufs \<Longrightarrow> n = length (concat bufs) \<Longrightarrow>
     BufList_copy_to_bytes n bufs = Inr (concat bufs, BufList_advance n bufs)"
  by (simp add: BufList_copy_to_bytes_def BufList_remaining_concat)

end
