(* ===== verification/Wire.thy ===== *)
theory Wire
  imports Prelude
begin

text \<open>
  The contract between a writer and a reader of the wire format, as two locales.

  \<open>wire_codec\<close>: what \<open>enc\<close> wrote, \<open>dec\<close> reads back and leaves the rest of the buffer alone.
  \<open>wire_iter\<close>: a loop that decodes until the buffer is empty. The header and the name-value
  pairs of \<open>src/fastcgi.rs\<close> interpret them.
\<close>

locale wire_codec =
  fixes valid :: "'a \<Rightarrow> bool"
    and enc :: "'a \<Rightarrow> bytes"
    and dec :: "bytes \<Rightarrow> panic + 'a \<times> bytes"
  assumes dec_enc: "valid x \<Longrightarrow> dec (enc x @ r) = Inr (x, r)"
    and enc_nonempty: "enc x \<noteq> []"
begin

lemma enc_unambiguous:
  assumes "valid x" "valid y" "enc x @ r = enc y @ s"
  shows "x = y \<and> r = s"
proof -
  have "Inr (x, r) = dec (enc x @ r)" by (rule dec_enc [OF assms(1), symmetric])
  also have "\<dots> = Inr (y, s)" unfolding assms(3) by (rule dec_enc [OF assms(2)])
  finally show ?thesis by blast
qed

lemma concat_unambiguous:
  "list_all valid xs \<Longrightarrow> list_all valid ys \<Longrightarrow> concat (map enc xs) = concat (map enc ys) \<Longrightarrow> xs = ys"
proof (induction xs arbitrary: ys)
  case Nil
  then show ?case by (cases ys) (auto simp: enc_nonempty)
next
  case (Cons x xs)
  then obtain y ys' where ys: "ys = y # ys'"
    using enc_nonempty [of x] by (cases ys) auto
  from Cons.prems have "x = y \<and> concat (map enc xs) = concat (map enc ys')"
    unfolding ys by (intro enc_unambiguous) auto
  with Cons.IH [of ys'] Cons.prems show ?case by (simp add: ys)
qed

end

locale wire_iter = wire_codec +
  fixes iter :: "bytes \<Rightarrow> panic + 'a list"
  assumes iter_Nil: "iter [] = Inr []"
    and iter_step: "bs \<noteq> [] \<Longrightarrow> dec bs = Inr (x, r) \<Longrightarrow> iter bs = rbind (iter r) (\<lambda>xs. Inr (x # xs))"
    and iter_fail: "bs \<noteq> [] \<Longrightarrow> dec bs = Inl e \<Longrightarrow> iter bs = Inl e"
begin

lemma iter_concat: "list_all valid xs \<Longrightarrow> iter (concat (map enc xs)) = Inr xs"
proof (induction xs)
  case Nil
  then show ?case by (simp add: iter_Nil)
next
  case (Cons x xs)
  then have "dec (enc x @ concat (map enc xs)) = Inr (x, concat (map enc xs))"
    by (simp add: dec_enc)
  from iter_step [OF _ this] Cons show ?case by (simp add: enc_nonempty)
qed

lemma iter_concat_app:
  "list_all valid xs \<Longrightarrow> iter (concat (map enc xs) @ bs) = rbind (iter bs) (\<lambda>ys. Inr (xs @ ys))"
proof (induction xs)
  case Nil
  then show ?case by (cases "iter bs") auto
next
  case (Cons x xs)
  then have "dec (enc x @ concat (map enc xs) @ bs) = Inr (x, concat (map enc xs) @ bs)"
    by (simp add: dec_enc)
  from iter_step [OF _ this] Cons show ?case by (cases "iter bs") (simp_all add: enc_nonempty)
qed

text \<open>One record that cannot be read fails the whole loop, whatever was read before it.\<close>

lemma iter_concat_fail:
  "list_all valid xs \<Longrightarrow> bs \<noteq> [] \<Longrightarrow> dec bs = Inl e \<Longrightarrow> iter (concat (map enc xs) @ bs) = Inl e"
  by (simp add: iter_concat_app iter_fail)

end

end
