(* ===== verification/Fcgi_Types.thy ===== *)
theory Fcgi_Types
  imports BufVec Wire
begin

text \<open>
  \<open>src/fastcgi.rs\<close>, the record header and the plain types: \<open>RecordType\<close>, \<open>FastCGIRole\<close>,
  \<open>ProtoStatus\<close>, \<open>Header\<close> and its wire form. The crate is modelled with all its features
  on, so \<open>UnknownType\<close> is a record type.
\<close>

section \<open>Record types, roles and status codes\<close>

datatype RecordType =
    BeginRequest | AbortRequest | EndRequest | Params | StdIn | StdOut | StdErr | Data
  | GetValues | GetValuesResult | UnknownType

text \<open>\<open>rtype as u8\<close>, the discriminant.\<close>

fun RecordType_code :: "RecordType \<Rightarrow> u8" where
  "RecordType_code BeginRequest = 1"
| "RecordType_code AbortRequest = 2"
| "RecordType_code EndRequest = 3"
| "RecordType_code Params = 4"
| "RecordType_code StdIn = 5"
| "RecordType_code StdOut = 6"
| "RecordType_code StdErr = 7"
| "RecordType_code Data = 8"
| "RecordType_code GetValues = 9"
| "RecordType_code GetValuesResult = 10"
| "RecordType_code UnknownType = 11"

definition RecordType_try_from :: "u8 \<Rightarrow> u8 + RecordType" where
  "RecordType_try_from v =
     (if v = 1 then Inr BeginRequest
      else if v = 2 then Inr AbortRequest
      else if v = 3 then Inr EndRequest
      else if v = 4 then Inr Params
      else if v = 5 then Inr StdIn
      else if v = 6 then Inr StdOut
      else if v = 7 then Inr StdErr
      else if v = 8 then Inr Data
      else if v = 9 then Inr GetValues
      else if v = 10 then Inr GetValuesResult
      else if v = 11 then Inr UnknownType
      else Inl v)"

lemma try_from_code [simp]: "RecordType_try_from (RecordType_code t) = Inr t"
  by (cases t) (simp_all add: RecordType_try_from_def)

lemma try_from_InrD: "RecordType_try_from v = Inr t \<Longrightarrow> v = RecordType_code t"
  by (simp add: RecordType_try_from_def split: if_splits)

lemma try_from_InlD: "RecordType_try_from v = Inl o' \<Longrightarrow> o' = v"
  by (simp add: RecordType_try_from_def split: if_splits)

lemma RecordType_code_inj [simp]: "RecordType_code s = RecordType_code t \<longleftrightarrow> s = t"
  by (metis try_from_code sum.inject(2))

fun RecordType_fmt :: "RecordType \<Rightarrow> string" where
  "RecordType_fmt BeginRequest = ''BeginRequest''"
| "RecordType_fmt AbortRequest = ''AbortRequest''"
| "RecordType_fmt EndRequest = ''EndRequest''"
| "RecordType_fmt Params = ''Params''"
| "RecordType_fmt StdIn = ''StdIn''"
| "RecordType_fmt StdOut = ''StdOut''"
| "RecordType_fmt StdErr = ''StdErr''"
| "RecordType_fmt Data = ''Data''"
| "RecordType_fmt GetValues = ''GetValues''"
| "RecordType_fmt GetValuesResult = ''GetValuesResult''"
| "RecordType_fmt UnknownType = ''UnknownType''"

datatype FastCGIRole = Responder | Authorizer | Filter

fun FastCGIRole_code :: "FastCGIRole \<Rightarrow> u16" where
  "FastCGIRole_code Responder = 1"
| "FastCGIRole_code Authorizer = 2"
| "FastCGIRole_code Filter = 3"

datatype ProtoStatus = Complete | CantMpxCon | Overloaded | UnknownRole

definition ProtoStatus_try_from :: "u8 \<Rightarrow> u8 + ProtoStatus" where
  "ProtoStatus_try_from v =
     (if v = 0 then Inr Complete
      else if v = 1 then Inr CantMpxCon
      else if v = 2 then Inr Overloaded
      else if v = 3 then Inr UnknownRole
      else Inl v)"

fun ProtoStatus_fmt :: "ProtoStatus \<Rightarrow> string" where
  "ProtoStatus_fmt Complete = ''Complete''"
| "ProtoStatus_fmt CantMpxCon = ''CantMpxCon''"
| "ProtoStatus_fmt Overloaded = ''Overloaded''"
| "ProtoStatus_fmt UnknownRole = ''UnknownRole''"

section \<open>The record header\<close>

record Header =
  version :: u8
  rtype :: RecordType
  request_id :: u16
  content_length :: u16
  padding_length :: u8

definition VERSION_1 :: u8 where
  "VERSION_1 = 1"

definition HEADER_LEN :: nat where
  "HEADER_LEN = 8"

definition MGMT_REQUEST_ID :: u16 where
  "MGMT_REQUEST_ID = 0"

definition Body_MAX_LENGTH :: nat where
  "Body_MAX_LENGTH = 0xffff"

text \<open>The padding that aligns \<open>len\<close> bytes to 8, computed in the same way in \<open>Header::new\<close> and
  in \<open>NVBody::to_record\<close>.\<close>

definition align_padding :: "u16 \<Rightarrow> u8" where
  "align_padding len = (let pad = ucast (len mod 8) :: u8 in if pad \<noteq> 0 then 8 - pad else pad)"

definition Header_new :: "RecordType \<Rightarrow> u16 \<Rightarrow> u16 \<Rightarrow> Header" where
  "Header_new t rid len =
     \<lparr>version = VERSION_1, rtype = t, request_id = rid, content_length = len,
      padding_length = align_padding len\<rparr>"

definition Header_write_into :: "Header \<Rightarrow> bytes" where
  "Header_write_into h =
     [version h, RecordType_code (rtype h)] @ put_u16 (request_id h) @ put_u16 (content_length h)
     @ [padding_length h, 0]"

definition Header_parse :: "bytes \<Rightarrow> panic + Header \<times> bytes" where
  "Header_parse data =
     rbind (get_u8 data) (\<lambda>(v, data).
     rbind (get_u8 data) (\<lambda>(t, data).
     (case RecordType_try_from t of
        Inl o' \<Rightarrow> Inl (NotFcgiType o')
      | Inr rt \<Rightarrow>
        rbind (get_u16 data) (\<lambda>(rid, data).
        rbind (get_u16 data) (\<lambda>(cl, data).
        rbind (get_u8 data) (\<lambda>(pl, data).
        rbind (advance 1 data) (\<lambda>data.
          Inr (\<lparr>version = v, rtype = rt, request_id = rid, content_length = cl,
                padding_length = pl\<rparr>, data))))))))"

definition Header_get_padding :: "Header \<Rightarrow> u8" where
  "Header_get_padding h = padding_length h"

subsection \<open>Lengths and padding\<close>

lemma length_Header_write_into [simp]: "length (Header_write_into h) = 8"
  by (simp add: Header_write_into_def)

lemma unat_align_padding: "unat (align_padding len) = (8 - unat len mod 8) mod 8"
proof -
  have m: "unat (len mod 8) = unat len mod 8"
    by (simp add: unat_mod)
  have u: "unat (ucast (len mod 8) :: u8) = unat len mod 8"
    by (simp add: unsigned_ucast_eq m take_bit_eq_mod)
  have lt: "unat len mod 8 < 8" by simp
  show ?thesis
  proof (cases "(ucast (len mod 8) :: u8) = 0")
    case True
    with u have "unat len mod 8 = 0" by (metis unat_0)
    with True show ?thesis by (simp add: align_padding_def)
  next
    case False
    then have nz: "unat len mod 8 \<noteq> 0" using u by (metis unat_0_iff)
    have "(ucast (len mod 8) :: u8) \<le> 8"
      by (simp add: word_le_nat_alt u less_imp_le)
    then have "unat (8 - (ucast (len mod 8) :: u8)) = 8 - unat len mod 8"
      by (simp add: unat_sub u)
    with False nz show ?thesis by (simp add: align_padding_def)
  qed
qed

lemma align_padding_lt: "unat (align_padding len) < 8"
  by (simp add: unat_align_padding)

lemma pad_to_8: "(n + (8 - n mod 8) mod 8) mod 8 = (0 :: nat)"
proof -
  have "n + (8 - n mod 8) = 8 * (n div 8) + 8"
    using minus_mod_eq_mult_div [of n 8] mod_less_eq_dividend [of n 8]
      mod_less_divisor [of 8 n] by linarith
  then show ?thesis by (simp only: mod_add_right_eq) simp
qed

lemma align_padding_sum: "(unat len + unat (align_padding len)) mod 8 = 0"
  unfolding unat_align_padding by (rule pad_to_8)

lemma align_padding_0: "unat len mod 8 = 0 \<Longrightarrow> align_padding len = 0"
proof -
  assume "unat len mod 8 = 0"
  then have "unat (align_padding len) = 0" by (simp add: unat_align_padding)
  then show ?thesis by (simp only: unat_0_iff)
qed

subsection \<open>Parsing what was written\<close>

text \<open>The eight bytes of a header, with any value in the reserved byte.\<close>

definition header_bytes :: "Header \<Rightarrow> u8 \<Rightarrow> bytes" where
  "header_bytes h x =
     [version h, RecordType_code (rtype h)] @ put_u16 (request_id h) @ put_u16 (content_length h)
     @ [padding_length h, x]"

lemma Header_write_into_bytes: "Header_write_into h = header_bytes h 0"
  by (simp add: Header_write_into_def header_bytes_def)

lemma length_header_bytes [simp]: "length (header_bytes h x) = 8"
  by (simp add: header_bytes_def)

lemma Header_parse_bytes [simp]: "Header_parse (header_bytes h x @ r) = Inr (h, r)"
  by (cases h) (simp add: Header_parse_def header_bytes_def advance_def)

text \<open>A header is eight bytes; with eight bytes there the only way to fail is the type.\<close>

lemma length_8D: "8 \<le> length bs \<Longrightarrow> \<exists>a b c d e f g h r. bs = a # b # c # d # e # f # g # h # r"
  by (auto simp: numeral_eq_Suc Suc_le_length_iff)

lemma Header_parse_8:
  "Header_parse (v # t # r1 # r0 # l1 # l0 # p # x # data) =
     (case RecordType_try_from t of
        Inl o' \<Rightarrow> Inl (NotFcgiType o')
      | Inr rt \<Rightarrow> Inr (\<lparr>version = v, rtype = rt, request_id = be16 r1 r0,
          content_length = be16 l1 l0, padding_length = p\<rparr>, data))"
  by (simp add: Header_parse_def advance_def split: sum.split)

lemma Header_parse_short: "length data < 8 \<Longrightarrow> \<exists>e. Header_parse data = Inl e"
proof -
  assume "length data < 8"
  then consider "data = []" | a where "data = [a]" | a b where "data = [a, b]"
    | a b c where "data = [a, b, c]" | a b c d where "data = [a, b, c, d]"
    | a b c d e where "data = [a, b, c, d, e]" | a b c d e f where "data = [a, b, c, d, e, f]"
    | a b c d e f g where "data = [a, b, c, d, e, f, g]"
    by (auto simp: numeral_eq_Suc less_Suc_eq length_Suc_conv)
  then show ?thesis
    by cases (auto simp: Header_parse_def advance_def split: sum.split)
qed

lemma Header_parse_InrD:
  assumes "Header_parse data = Inr (h, rest)"
  shows "\<exists>x. data = header_bytes h x @ rest"
proof -
  have "8 \<le> length data"
    using assms Header_parse_short [of data] by (metis not_less sum.distinct(1))
  then obtain v t r1 r0 l1 l0 p x r where d: "data = v # t # r1 # r0 # l1 # l0 # p # x # r"
    using length_8D by blast
  from assms [unfolded d Header_parse_8] obtain rt where rt: "RecordType_try_from t = Inr rt"
    and h: "h = \<lparr>version = v, rtype = rt, request_id = be16 r1 r0, content_length = be16 l1 l0,
      padding_length = p\<rparr>" and r: "rest = r"
    by (auto split: sum.splits)
  from try_from_InrD [OF rt] show ?thesis by (simp add: d h r header_bytes_def)
qed

lemma Header_parse_length: "Header_parse data = Inr (h, rest) \<Longrightarrow> length data = length rest + 8"
  by (auto dest: Header_parse_InrD)

text \<open>Eight bytes are a header of some type, or the type byte is unknown.\<close>

lemma Header_parse_cases:
  assumes "8 \<le> length data"
  obtains (ok) h x r where "data = header_bytes h x @ r" "Header_parse data = Inr (h, r)"
  | (bad) t where "t = data ! 1" "RecordType_try_from t = Inl t" "Header_parse data = Inl (NotFcgiType t)"
proof -
  obtain v t r1 r0 l1 l0 p x r where d: "data = v # t # r1 # r0 # l1 # l0 # p # x # r"
    using length_8D [OF assms] by blast
  show thesis
  proof (cases "RecordType_try_from t")
    case (Inl o')
    then have "o' = t" by (rule try_from_InlD)
    with Inl show thesis by (intro bad [of t]) (simp_all add: d Header_parse_8)
  next
    case (Inr rt)
    with d have p: "Header_parse data = Inr (\<lparr>version = v, rtype = rt, request_id = be16 r1 r0,
        content_length = be16 l1 l0, padding_length = p\<rparr>, r)"
      by (simp add: Header_parse_8)
    from Header_parse_InrD [OF p] p show thesis by (auto intro: ok)
  qed
qed

interpretation hdr: wire_codec "\<lambda>_. True" Header_write_into Header_parse
proof
  fix h r
  show "Header_parse (Header_write_into h @ r) = Inr (h, r)"
    by (simp add: Header_write_into_bytes)
  show "Header_write_into h \<noteq> []" by (simp add: Header_write_into_def)
qed

section \<open>Properties\<close>

text \<open>
  \<open>Header::parse\<close> accepts exactly the eight bytes of a header: version, a known type, request
  id, content length, padding length, and any reserved byte. It reads back every field that
  \<open>write_into\<close> writes and leaves the rest of the buffer alone.
\<close>

lemma Header_parse_iff: "Header_parse data = Inr (h, rest) \<longleftrightarrow> (\<exists>x. data = header_bytes h x @ rest)"
  by (auto dest: Header_parse_InrD)

text \<open>
  A header from \<open>Header::new\<close> announces fewer than eight padding bytes, enough to make the
  whole record a multiple of eight bytes long, and survives being written and parsed.
\<close>

lemma Header_new_aligned:
  "unat (padding_length (Header_new t rid len)) < 8 \<and>
   (HEADER_LEN + unat (content_length (Header_new t rid len))
     + unat (padding_length (Header_new t rid len))) mod 8 = 0 \<and>
   Header_parse (Header_write_into (Header_new t rid len) @ r) = Inr (Header_new t rid len, r)"
  using align_padding_lt [of len] align_padding_sum [of len] hdr.dec_enc [of "Header_new t rid len" r]
  by (simp add: Header_new_def HEADER_LEN_def add.assoc)

end
