(* ===== verification/Fcgi_Params.thy ===== *)
theory Fcgi_Params
  imports Fcgi_Types
begin

unbundle bit_operations_syntax

text \<open>
  \<open>src/fastcgi.rs\<close>, the name-value pairs: \<open>NameValuePair\<close> with its parser, \<open>NVBody\<close> (the
  body of one PARAMS or GET_VALUES record), \<open>NVBodyList\<close> (as many bodies as needed) and
  \<open>NVDrain\<close> (the iterator that parses a body again).
\<close>

section \<open>NameValuePair\<close>

record NameValuePair =
  name_data :: bytes
  value_data :: bytes

definition NameValuePair_new :: "bytes \<Rightarrow> bytes \<Rightarrow> NameValuePair" where
  "NameValuePair_new n v = \<lparr>name_data = n, value_data = v\<rparr>"

text \<open>
  \<open>param_length\<close> reads one length at \<open>pos\<close>. For the four byte form the code slices the
  \<^emph>\<open>three\<close> bytes \<open>pos + 1 .. pos + 4\<close> and reads a \<open>u32\<close> from them.
\<close>

definition NameValuePair_param_length :: "bytes \<Rightarrow> nat \<Rightarrow> panic + nat \<times> nat" where
  "NameValuePair_param_length data pos =
     rbind (index data pos) (\<lambda>b.
       let length = unat b in
       if drop_bit 7 length = 1 then
         rbind (slice (pos + 1) (pos + 4) data) (\<lambda>s.
         rbind (get_u32 s) (\<lambda>(w, _).
           Inr (unat (w AND 0x7FFFFFFF), pos + 4)))
       else Inr (length, pos + 1))"

definition NameValuePair_parse :: "bytes \<Rightarrow> panic + NameValuePair \<times> bytes" where
  "NameValuePair_parse data =
     rbind (NameValuePair_param_length data 0) (\<lambda>(key_length, pos).
     rbind (NameValuePair_param_length data pos) (\<lambda>(value_length, pos).
     rbind (slice pos (pos + key_length) data) (\<lambda>key.
     let pos = pos + key_length in
     rbind (slice pos (pos + value_length) data) (\<lambda>val.
     let pos = pos + value_length in
     rbind (advance pos data) (\<lambda>data.
       Inr (\<lparr>name_data = key, value_data = val\<rparr>, data))))))"

definition NameValuePair_len :: "NameValuePair \<Rightarrow> nat" where
  "NameValuePair_len p =
     (let ln = length (name_data p); lv = length (value_data p); lf = ln + lv + 2;
          lf = (if ln > 0x7f then lf + 3 else lf);
          lf = (if lv > 0x7f then lf + 3 else lf)
      in lf)"

section \<open>NVBody\<close>

record NVBody =
  pairs :: BufList
  len :: u16

definition NVBody_new :: NVBody where
  "NVBody_new = \<lparr>pairs = BufList_new, len = 0\<rparr>"

definition NVBody_fits :: "NVBody \<Rightarrow> NameValuePair \<Rightarrow> bool" where
  "NVBody_fits self pair \<longleftrightarrow> NameValuePair_len pair + unat (len self) \<le> Body_MAX_LENGTH"

text \<open>
  \<open>add\<close> returns Rust's \<open>Result<(), ()>\<close> with the body as it is left, or panics in
  \<open>BufList::push\<close> of a debug build. The length is stored before the later checks.
\<close>

definition NVBody_add :: "bool \<Rightarrow> NVBody \<Rightarrow> NameValuePair \<Rightarrow> panic + (unit + unit) \<times> NVBody" where
  "NVBody_add dbg self pair =
     (let l = NameValuePair_len pair + unat (len self) in
      if l > Body_MAX_LENGTH then Inr (Inl (), self)
      else
        let self = self\<lparr>len := of_nat l\<rparr>;
            ln = length (name_data pair);
            lv = length (value_data pair) in
        if ln + lv > Body_MAX_LENGTH then Inr (Inl (), self)
        else if ln > 0x7f \<and> ln > 0x7fffffff then Inr (Inl (), self)
        else
          let ln = (if ln > 0x7f then ln OR 0x80000000 else ln) in
          if lv > 0x7f \<and> lv > 0x7fffffff then Inr (Inl (), self)
          else
            let lv = (if lv > 0x7f then lv OR 0x80000000 else lv);
                data = (if ln > 0x7f then put_u32 (of_nat ln) else [of_nat ln]) @
                       (if lv > 0x7f then put_u32 (of_nat lv) else [of_nat lv]) in
            rbind (BufList_push dbg (pairs self) data) (\<lambda>ps.
            rbind (BufList_push dbg ps (name_data pair)) (\<lambda>ps.
            rbind (if lv > 0 then BufList_push dbg ps (value_data pair) else Inr ps) (\<lambda>ps.
              Inr (Inr (), self\<lparr>pairs := ps\<rparr>)))))"

text \<open>
  \<open>from_bytes\<close> pushes only a non-empty buffer, so it is modelled with the debug assertion on:
  it never fires (\<open>NVBody_from_bytes_Inr\<close>).
\<close>

definition NVBody_from_bytes :: "bytes \<Rightarrow> panic + NVBody" where
  "NVBody_from_bytes buf =
     (let b = NVBody_new\<lparr>len := of_nat (length buf)\<rparr> in
      if len b > 0 then rbind (BufList_push True (pairs b) buf) (\<lambda>ps. Inr (b\<lparr>pairs := ps\<rparr>))
      else Inr b)"

definition NVBody_drain :: "NVBody \<Rightarrow> panic + bytes" where
  "NVBody_drain self = rbind (BufList_copy_to_bytes (unat (len self)) (pairs self)) (\<lambda>(b, _). Inr b)"

definition NVDrain_next :: "bytes \<Rightarrow> panic + NameValuePair option \<times> bytes" where
  "NVDrain_next self =
     (if self = [] then Inr (None, self)
      else rbind (NameValuePair_parse self) (\<lambda>(p, rest). Inr (Some p, rest)))"

text \<open>The bounds on the number of pairs that the iterator announces.\<close>

definition NVDrain_size_hint :: "bytes \<Rightarrow> nat \<times> nat option" where
  "NVDrain_size_hint self = (1, None)"

text \<open>An iterator that has nothing left still announces one pair.\<close>

lemma NVDrain_size_hint_empty: "NVDrain_next [] = Inr (None, []) \<and> fst (NVDrain_size_hint []) = 1"
  by (simp add: NVDrain_next_def NVDrain_size_hint_def)

section \<open>NVBodyList\<close>

type_synonym NVBodyList = "NVBody list"

definition NVBodyList_new :: NVBodyList where
  "NVBodyList_new = [NVBody_new]"

definition NVBodyList_add :: "bool \<Rightarrow> NVBodyList \<Rightarrow> NameValuePair \<Rightarrow> panic + NVBodyList" where
  "NVBodyList_add dbg bodies pair =
     (if bodies = [] then Inl UnwrapNone
      else
        let bodies = (if \<not> NVBody_fits (last bodies) pair then bodies @ [NVBody_new] else bodies) in
        rbind (NVBody_add dbg (last bodies) pair) (\<lambda>(r, nv).
          case r of Inl _ \<Rightarrow> Inl PairTooBig | Inr _ \<Rightarrow> Inr (butlast bodies @ [nv])))"

fun NVBodyList_extend :: "bool \<Rightarrow> NVBodyList \<Rightarrow> (bytes \<times> bytes) list \<Rightarrow> panic + NVBodyList" where
  "NVBodyList_extend dbg self [] = Inr self"
| "NVBodyList_extend dbg self ((k, v) # iter) =
     rbind (NVBodyList_add dbg self (NameValuePair_new k v)) (\<lambda>self. NVBodyList_extend dbg self iter)"

definition NVBodyList_from_iter :: "bool \<Rightarrow> (bytes \<times> bytes) list \<Rightarrow> panic + NVBodyList" where
  "NVBodyList_from_iter dbg iter = NVBodyList_extend dbg NVBodyList_new iter"

section \<open>The wire form of a pair\<close>

text \<open>
  The specification of the encoding: a length below 128 is one byte, a longer one is four bytes
  with the top bit set.
\<close>

definition put_len :: "nat \<Rightarrow> bytes" where
  "put_len n = (if n > 0x7f then put_u32 (of_nat (n + 2 ^ 31)) else [of_nat n])"

definition pair_wire :: "NameValuePair \<Rightarrow> bytes" where
  "pair_wire p = put_len (length (name_data p)) @ put_len (length (value_data p))
     @ name_data p @ value_data p"

definition short_pair :: "NameValuePair \<Rightarrow> bool" where
  "short_pair p \<longleftrightarrow> length (name_data p) < 128 \<and> length (value_data p) < 128"

lemma or_bit_31: "n < 2 ^ 31 \<Longrightarrow> n OR 0x80000000 = n + 2 ^ 31" for n :: nat
proof -
  assume n: "n < 2 ^ 31"
  have "n + 2 ^ 31 = n OR 2 ^ 31"
  proof (rule disjunctive_add_eq_or)
    show "n AND 2 ^ 31 = 0"
    proof (rule bit_eqI)
      fix k
      have "\<not> bit n 31" using n by (simp add: bit_iff_odd)
      then show "bit (n AND 2 ^ 31) k \<longleftrightarrow> bit (0 :: nat) k"
        by (auto simp only: bit_and_iff bit_exp_iff bit_0_eq)
    qed
  qed
  then show ?thesis by simp
qed

lemma put_len_or: "n \<le> 0x7fffffff \<Longrightarrow>
    put_len n = (let n' = (if n > 0x7f then n OR 0x80000000 else n) in
                 if n' > 0x7f then put_u32 (of_nat n') else [of_nat n'])"
  using or_bit_31 [of n] by (simp add: put_len_def)

lemma put_len_nonempty [simp]: "put_len n \<noteq> []"
  by (simp add: put_len_def put_u32_def)

lemma length_put_len: "length (put_len n) = (if n > 0x7f then 4 else 1)"
  by (simp add: put_len_def)

lemma pair_wire_nonempty [simp]: "pair_wire p \<noteq> []"
  by (simp add: pair_wire_def)

lemma length_pair_wire: "length (pair_wire p) = NameValuePair_len p"
  by (simp add: pair_wire_def NameValuePair_len_def length_put_len)

lemma NameValuePair_len_ge: "length (name_data p) + length (value_data p) + 2 \<le> NameValuePair_len p"
  by (simp add: NameValuePair_len_def Let_def)

section \<open>Parsing pairs\<close>

lemma drop_bit_7_eq_1: "drop_bit 7 (unat (b :: u8)) = Suc 0 \<longleftrightarrow> 128 \<le> unat b"
proof -
  have "n div 128 = Suc 0 \<longleftrightarrow> 128 \<le> n" if "n < 256" for n :: nat
    using that by linarith
  from this [of "unat b"] show ?thesis by (simp add: drop_bit_eq_div)
qed

text \<open>
  A length byte with the top bit set is the four byte form, and that form never parses: the slice
  is one byte too short for \<open>get_u32\<close>.
\<close>

lemma param_length_long:
  assumes "pos < length data" and "128 \<le> unat (data ! pos)"
  shows "\<exists>e. NameValuePair_param_length data pos = Inl e"
proof (cases "slice (pos + 1) (pos + 4) data")
  case (Inl e)
  with assms show ?thesis
    by (simp add: NameValuePair_param_length_def index_def drop_bit_7_eq_1 Let_def)
next
  case (Inr s)
  then have "length s = 3" by (auto simp: slice_def split: if_splits)
  then have "get_u32 s = Inl BufUnderflow"
    by (auto simp: numeral_eq_Suc length_Suc_conv)
  with Inr assms show ?thesis
    by (simp add: NameValuePair_param_length_def index_def drop_bit_7_eq_1 Let_def)
qed

lemma param_length_short:
  "pos < length data \<Longrightarrow> unat (data ! pos) < 128 \<Longrightarrow>
     NameValuePair_param_length data pos = Inr (unat (data ! pos), pos + 1)"
  by (simp add: NameValuePair_param_length_def index_def drop_bit_7_eq_1 Let_def)

lemma param_length_out: "length data \<le> pos \<Longrightarrow> NameValuePair_param_length data pos = Inl SliceOutOfRange"
  by (simp add: NameValuePair_param_length_def index_def)

lemma param_length_InrD:
  assumes "NameValuePair_param_length data pos = Inr (n, pos')"
  shows "pos < length data \<and> n = unat (data ! pos) \<and> n < 128 \<and> pos' = pos + 1"
proof -
  have "pos < length data"
    using assms param_length_out [of data pos] by (metis not_less sum.distinct(1))
  moreover from this have "unat (data ! pos) < 128"
    using assms param_length_long [of pos data] by (metis not_less sum.distinct(1))
  ultimately show ?thesis
    using assms param_length_short [of pos data] by simp
qed

lemma put_len_short: "n < 128 \<Longrightarrow> put_len n = [of_nat n]"
  by (simp add: put_len_def)

lemma pair_wire_short:
  "short_pair p \<Longrightarrow> pair_wire p = of_nat (length (name_data p)) # of_nat (length (value_data p))
     # name_data p @ value_data p"
  by (simp add: pair_wire_def short_pair_def put_len_short)

lemma parse_pair_wire: "short_pair p \<Longrightarrow> NameValuePair_parse (pair_wire p @ r) = Inr (p, r)"
  by (cases p) (simp add: pair_wire_short short_pair_def NameValuePair_parse_def param_length_short
    slice_def advance_def)

text \<open>Whatever parses is a short pair in its wire form: the parser accepts nothing else.\<close>

lemma parse_pair_InrD:
  assumes "NameValuePair_parse data = Inr (p, r)"
  shows "short_pair p \<and> data = pair_wire p @ r"
proof -
  from assms obtain kl pos vl pos' where
    k: "NameValuePair_param_length data 0 = Inr (kl, pos)" and
    v: "NameValuePair_param_length data pos = Inr (vl, pos')" and
    le: "pos' + kl + vl \<le> length data" and
    p: "p = \<lparr>name_data = take kl (drop pos' data), value_data = take vl (drop (pos' + kl) data)\<rparr>" and
    r: "r = drop (pos' + kl + vl) data"
    by (auto simp: NameValuePair_parse_def rbind_Inr_iff slice_def advance_def Let_def split: if_splits)
  from param_length_InrD [OF k] param_length_InrD [OF v] have kv: "kl < 128" "vl < 128" "pos' = 2"
    "kl = unat (data ! 0)" "vl = unat (data ! 1)" "pos = 1" "1 < length data" by auto
  then obtain a b d where d: "data = a # b # d"
    by (auto simp: numeral_eq_Suc Suc_less_eq2 length_Suc_conv neq_Nil_conv
        dest!: less_imp_Suc_add)
  from kv le have sp: "short_pair p" by (simp add: p short_pair_def)
  have "unat a \<le> length d" "unat b \<le> length d - unat a"
    using kv le by (simp_all add: d)
  with kv sp have "data = pair_wire p @ r"
    by (simp add: pair_wire_short p r d min_absorb2 add.commute [of "unat a"] flip: drop_drop)
  with sp show ?thesis ..
qed

lemma parse_pair_length: "NameValuePair_parse data = Inr (p, r) \<Longrightarrow> length r + 2 \<le> length data"
  by (auto dest!: parse_pair_InrD simp: length_pair_wire NameValuePair_len_def Let_def)

text \<open>The loop \<open>for kv in kvs.drain()\<close> over the iterator, run to its end.\<close>

function NVDrain_collect :: "bytes \<Rightarrow> panic + NameValuePair list" where
  "NVDrain_collect self =
     (case NVDrain_next self of
        Inl e \<Rightarrow> Inl e
      | Inr (None, _) \<Rightarrow> Inr []
      | Inr (Some p, rest) \<Rightarrow> rbind (NVDrain_collect rest) (\<lambda>ps. Inr (p # ps)))"
  by pat_completeness auto
termination
  by (relation "measure length")
    (auto simp: NVDrain_next_def rbind_Inr_iff dest: parse_pair_length split: if_splits)

declare NVDrain_collect.simps [simp del]

interpretation nvp: wire_iter short_pair pair_wire NameValuePair_parse NVDrain_collect
proof
  show "NVDrain_collect [] = Inr []"
    by (subst NVDrain_collect.simps) (simp add: NVDrain_next_def)
next
  fix bs x r
  assume "bs \<noteq> []" "NameValuePair_parse bs = Inr (x, r)"
  then show "NVDrain_collect bs = rbind (NVDrain_collect r) (\<lambda>xs. Inr (x # xs))"
    by (subst NVDrain_collect.simps) (simp add: NVDrain_next_def)
next
  fix bs e
  assume "bs \<noteq> []" "NameValuePair_parse bs = Inl e"
  then show "NVDrain_collect bs = Inl e"
    by (subst NVDrain_collect.simps) (simp add: NVDrain_next_def)
qed (simp_all add: parse_pair_wire)

section \<open>Filling and draining a body\<close>

text \<open>
  The invariant of \<open>NVBody\<close>: \<open>len\<close> counts the bytes of the buffers, none of which is empty.
\<close>

definition NVBody_wf :: "NVBody \<Rightarrow> bool" where
  "NVBody_wf nv \<longleftrightarrow> unat (len nv) = length (concat (pairs nv)) \<and> BufList_wf (pairs nv)"

definition NVBody_content :: "NVBody \<Rightarrow> bytes" where
  "NVBody_content nv = concat (pairs nv)"

lemma NVBody_wf_new [simp]: "NVBody_wf NVBody_new"
  by (simp add: NVBody_wf_def NVBody_new_def BufList_new_def)

lemma NVBody_content_new [simp]: "NVBody_content NVBody_new = []"
  by (simp add: NVBody_content_def NVBody_new_def BufList_new_def)

lemma NVBody_add_full: "\<not> NVBody_fits nv p \<Longrightarrow> NVBody_add dbg nv p = Inr (Inl (), nv)"
  by (simp add: NVBody_add_def NVBody_fits_def Let_def)

text \<open>The two later checks of \<open>add\<close> cannot fail once the pair fits.\<close>

lemma NVBody_fits_bounds:
  assumes "NVBody_fits nv p"
  shows "length (name_data p) + length (value_data p) \<le> Body_MAX_LENGTH"
    and "length (name_data p) \<le> 0x7fffffff" and "length (value_data p) \<le> 0x7fffffff"
  using assms NameValuePair_len_ge [of p] by (simp_all add: NVBody_fits_def Body_MAX_LENGTH_def)

lemma NVBody_add_fits:
  assumes "NVBody_fits nv p"
  shows "NVBody_add dbg nv p =
    (if dbg \<and> name_data p = [] then Inl DebugAssert
     else Inr (Inr (), nv\<lparr>len := of_nat (NameValuePair_len p + unat (len nv)),
       pairs := pairs nv @ [put_len (length (name_data p)) @ put_len (length (value_data p)),
         name_data p] @ (if value_data p = [] then [] else [value_data p])\<rparr>))"
proof -
  note b = NVBody_fits_bounds [OF assms]
  have nf: "\<not> Body_MAX_LENGTH < NameValuePair_len p + unat (len nv)"
    using assms by (simp add: NVBody_fits_def)
  have "length (name_data p) OR 0x80000000 = length (name_data p) + 2 ^ 31"
    and "length (value_data p) OR 0x80000000 = length (value_data p) + 2 ^ 31"
    using b(2,3) by (simp_all add: or_bit_31)
  then show ?thesis
    unfolding NVBody_add_def put_len_def Let_def
    using b nf by (simp add: BufList_push_def)
qed

lemma NVBody_add_wf:
  assumes "NVBody_wf nv" "NVBody_fits nv p" "name_data p \<noteq> []"
  shows "\<exists>nv'. NVBody_add dbg nv p = Inr (Inr (), nv') \<and> NVBody_wf nv' \<and>
    NVBody_content nv' = NVBody_content nv @ pair_wire p"
proof -
  let ?bufs = "[put_len (length (name_data p)) @ put_len (length (value_data p)), name_data p]
    @ (if value_data p = [] then [] else [value_data p])"
  let ?nv = "nv\<lparr>len := of_nat (NameValuePair_len p + unat (len nv)), pairs := pairs nv @ ?bufs\<rparr>"
  have c: "concat ?bufs = pair_wire p" by (simp add: pair_wire_def)
  have l: "NameValuePair_len p + unat (len nv) < 65536"
    using assms(2) by (simp add: NVBody_fits_def Body_MAX_LENGTH_def)
  have "NVBody_wf ?nv"
    using assms(1,3) c l unat_of_nat_u16 [OF l]
    by (simp add: NVBody_wf_def BufList_wf_def length_pair_wire [symmetric] del: of_nat_add)
  moreover have "NVBody_content ?nv = NVBody_content nv @ pair_wire p"
    by (simp add: NVBody_content_def pair_wire_def)
  moreover have "NVBody_add dbg nv p = Inr (Inr (), ?nv)"
    using NVBody_add_fits [OF assms(2)] assms(3) by simp
  ultimately show ?thesis by blast
qed

lemma NVBody_drain_wf: "NVBody_wf nv \<Longrightarrow> NVBody_drain nv = Inr (NVBody_content nv)"
  by (simp add: NVBody_drain_def NVBody_wf_def NVBody_content_def BufList_copy_all)

lemma NVBody_wf_length: "NVBody_wf nv \<Longrightarrow> length (NVBody_content nv) = unat (len nv)"
  by (simp add: NVBody_wf_def NVBody_content_def)

lemma NVBody_from_bytes_Inr:
  assumes "length bs < 65536"
  shows "\<exists>nv. NVBody_from_bytes bs = Inr nv \<and> NVBody_wf nv \<and> NVBody_content nv = bs"
proof -
  have "(of_nat (length bs) :: u16) = 0 \<longleftrightarrow> bs = []"
    using unat_of_nat_u16 [OF assms] by (metis length_0_conv unat_0 unat_0_iff)
  with assms show ?thesis
    by (cases "bs = []") (auto simp: NVBody_from_bytes_def NVBody_new_def BufList_new_def
      NVBody_wf_def NVBody_content_def word_gt_0)
qed

section \<open>Filling a list of bodies\<close>

text \<open>\<open>NVBodyList_holds bodies pss\<close>: body number \<open>i\<close> holds exactly the pairs \<open>pss ! i\<close>.\<close>

definition NVBodyList_holds :: "NVBodyList \<Rightarrow> NameValuePair list list \<Rightarrow> bool" where
  "NVBodyList_holds bodies pss \<longleftrightarrow>
     list_all2 (\<lambda>nv ps. NVBody_wf nv \<and> NVBody_content nv = concat (map pair_wire ps)) bodies pss"

lemma fits_new: "NVBody_fits NVBody_new p \<longleftrightarrow> NameValuePair_len p \<le> Body_MAX_LENGTH"
  by (simp add: NVBody_fits_def NVBody_new_def)

lemma NVBodyList_add_holds:
  assumes "NVBodyList_holds bodies pss" "bodies \<noteq> []" "name_data p \<noteq> []"
    and "NameValuePair_len p \<le> Body_MAX_LENGTH"
  shows "\<exists>bodies' pss'. NVBodyList_add dbg bodies p = Inr bodies' \<and> bodies' \<noteq> [] \<and>
    NVBodyList_holds bodies' pss' \<and> concat pss' = concat pss @ [p]"
proof -
  define bs where "bs = (if \<not> NVBody_fits (last bodies) p then bodies @ [NVBody_new] else bodies)"
  obtain qss where qss: "NVBodyList_holds bs qss" "concat qss = concat pss" "bs \<noteq> []"
  proof (cases "NVBody_fits (last bodies) p")
    case True
    with assms that show ?thesis by (simp add: bs_def)
  next
    case False
    with assms have "NVBodyList_holds bs (pss @ [[]])"
      by (simp add: bs_def NVBodyList_holds_def list_all2_appendI)
    with that [of "pss @ [[]]"] False show ?thesis by (simp add: bs_def)
  qed
  have fits: "NVBody_fits (last bs) p"
    using assms(4) by (simp add: bs_def fits_new)
  obtain bs0 nv where bs: "bs = bs0 @ [nv]" using qss(3) by (metis rev_exhaust)
  then obtain qss0 qs where qs: "qss = qss0 @ [qs]" "NVBodyList_holds bs0 qss0"
    "NVBody_wf nv" "NVBody_content nv = concat (map pair_wire qs)"
    using qss(1) by (auto simp: NVBodyList_holds_def list_all2_append1 list_all2_Cons1)
  obtain nv' where nv': "NVBody_add dbg nv p = Inr (Inr (), nv')" "NVBody_wf nv'"
    "NVBody_content nv' = NVBody_content nv @ pair_wire p"
    using NVBody_add_wf [of nv p dbg] qs(3) fits assms(3) bs by auto
  have "NVBodyList_add dbg bodies p = Inr (bs0 @ [nv'])"
    unfolding NVBodyList_add_def bs_def [symmetric] using assms(2) by (simp add: Let_def bs nv')
  moreover have "NVBodyList_holds (bs0 @ [nv']) (qss0 @ [qs @ [p]])"
    using qs nv' by (simp add: NVBodyList_holds_def list_all2_appendI)
  ultimately show ?thesis
    using qss(2) qs(1) by (intro exI [of _ "bs0 @ [nv']"] exI [of _ "qss0 @ [qs @ [p]]"]) auto
qed

lemma NVBodyList_extend_holds:
  "NVBodyList_holds bodies pss \<Longrightarrow> bodies \<noteq> [] \<Longrightarrow>
   list_all (\<lambda>(k, v). k \<noteq> [] \<and> NameValuePair_len (NameValuePair_new k v) \<le> Body_MAX_LENGTH) kvs \<Longrightarrow>
   \<exists>bodies' pss'. NVBodyList_extend dbg bodies kvs = Inr bodies' \<and> NVBodyList_holds bodies' pss' \<and>
     concat pss' = concat pss @ map (\<lambda>(k, v). NameValuePair_new k v) kvs"
proof (induction kvs arbitrary: bodies pss)
  case Nil
  then show ?case by auto
next
  case (Cons kv kvs)
  obtain k v where kv: "kv = (k, v)" by (cases kv)
  with Cons.prems have p: "name_data (NameValuePair_new k v) \<noteq> []"
    "NameValuePair_len (NameValuePair_new k v) \<le> Body_MAX_LENGTH"
    by (auto simp: NameValuePair_new_def)
  from NVBodyList_add_holds [OF Cons.prems(1,2) p, of dbg]
  obtain bs qss where b: "NVBodyList_add dbg bodies (NameValuePair_new k v) = Inr bs" "bs \<noteq> []"
    "NVBodyList_holds bs qss" "concat qss = concat pss @ [NameValuePair_new k v]" by blast
  from Cons.IH [OF b(3,2)] Cons.prems(3) obtain bs' qss' where
    "NVBodyList_extend dbg bs kvs = Inr bs'" "NVBodyList_holds bs' qss'"
    "concat qss' = concat qss @ map (\<lambda>(k, v). NameValuePair_new k v) kvs" by auto
  with b show ?case by (auto simp: kv)
qed

section \<open>Properties\<close>

text \<open>A long length has the top bit of its first byte set.\<close>

lemma hd_put_len_long:
  assumes "128 \<le> n" "n \<le> 0x7fffffff"
  shows "\<exists>b r. put_len n = b # r \<and> 128 \<le> unat b"
proof -
  have "unat (of_nat (n + 2 ^ 31) :: u32) = n + 2 ^ 31"
    using assms(2) by (intro unat_of_nat_u32) simp
  moreover have "128 \<le> (n + 2 ^ 31) div 256 ^ 3" "(n + 2 ^ 31) div 256 ^ 3 < 256"
    using assms(2) by (simp_all add: less_mult_imp_div_less)
  ultimately show ?thesis
    using assms(1) by (simp add: put_len_def put_u32_def del: of_nat_add)
qed

lemma parse_pair_long:
  assumes "\<not> short_pair p" "length (name_data p) \<le> 0x7fffffff" "length (value_data p) \<le> 0x7fffffff"
  shows "\<exists>e. NameValuePair_parse (pair_wire p @ r) = Inl e"
proof (cases "length (name_data p) < 128")
  case False
  then obtain b bs where "put_len (length (name_data p)) = b # bs" "128 \<le> unat b"
    using hd_put_len_long [OF _ assms(2)] by auto
  then show ?thesis
    using param_length_long [of 0 "pair_wire p @ r"]
    by (auto simp: pair_wire_def NameValuePair_parse_def)
next
  case True
  with assms(1) obtain b bs where "put_len (length (value_data p)) = b # bs" "128 \<le> unat b"
    using hd_put_len_long [OF _ assms(3)] by (auto simp: short_pair_def)
  with True show ?thesis
    using param_length_short [of 0 "pair_wire p @ r"] param_length_long [of 1 "pair_wire p @ r"]
    by (auto simp: pair_wire_def NameValuePair_parse_def put_len_short)
qed

text \<open>
  C23. The parser of name-value pairs accepts exactly the one-byte-length form: it returns a pair
  if and only if name and value are shorter than 128 bytes and the input starts with their wire
  form, and it leaves the rest of the input alone.
\<close>

theorem NameValuePair_parse_iff:
  "NameValuePair_parse data = Inr (p, r) \<longleftrightarrow> short_pair p \<and> data = pair_wire p @ r"
  using parse_pair_InrD parse_pair_wire by blast

text \<open>
  C26. The four-byte-length form that \<open>NVBody::add\<close> and the writer produce for a name or value of
  128 bytes and more is never parsed back: \<open>NameValuePair::parse\<close> panics on every such pair.
\<close>

theorem NameValuePair_long_panics:
  assumes "128 \<le> length (name_data p) \<or> 128 \<le> length (value_data p)"
    and "length (name_data p) \<le> 0x7fffffff" and "length (value_data p) \<le> 0x7fffffff"
  shows "\<exists>e. NameValuePair_parse (pair_wire p @ r) = Inl e"
  using assms by (intro parse_pair_long) (auto simp: short_pair_def)

theorem NameValuePair_long_panics_witness:
  "\<exists>e. NameValuePair_parse (pair_wire \<lparr>name_data = [1], value_data = replicate 128 0\<rparr> @ []) = Inl e"
  by (rule NameValuePair_long_panics) simp_all

text \<open>
  C24. \<open>NVBody::add\<close> on a well-formed body and a pair with a name: if the pair fits, its wire form is
  appended and the body stays well-formed; if it does not, \<open>Err(())\<close> comes back and the body is
  unchanged. It panics in no build.
\<close>

theorem NVBody_add_spec:
  assumes "NVBody_wf nv" and "name_data p \<noteq> []"
  shows "\<exists>res nv'. NVBody_add dbg nv p = Inr (res, nv') \<and> NVBody_wf nv' \<and>
    (if NVBody_fits nv p then res = Inr () \<and> NVBody_content nv' = NVBody_content nv @ pair_wire p
     else res = Inl () \<and> nv' = nv)"
  using NVBody_add_wf [OF assms(1) _ assms(2)] NVBody_add_full assms(1)
  by (cases "NVBody_fits nv p") force+

theorem NVBody_add_spec_witness:
  "\<exists>res nv'. NVBody_add True NVBody_new \<lparr>name_data = [1], value_data = [2]\<rparr> = Inr (res, nv') \<and>
    NVBody_wf nv' \<and>
    (if NVBody_fits NVBody_new \<lparr>name_data = [1], value_data = [2]\<rparr>
     then res = Inr () \<and> NVBody_content nv' =
       NVBody_content NVBody_new @ pair_wire \<lparr>name_data = [1], value_data = [2]\<rparr>
     else res = Inl () \<and> nv' = NVBody_new)"
  by (rule NVBody_add_spec) simp_all

text \<open>
  A pair with an empty name breaks \<open>NVBody::add\<close>: a debug build panics, and a release build
  stores an empty buffer, after which the body no longer meets the contract that draining it
  relies on.
\<close>

lemma NVBody_add_empty_name:
  assumes "NVBody_wf nv" and "NVBody_fits nv \<lparr>name_data = [], value_data = v\<rparr>"
  shows "NVBody_add True nv \<lparr>name_data = [], value_data = v\<rparr> = Inl DebugAssert \<and>
    (\<exists>nv'. NVBody_add False nv \<lparr>name_data = [], value_data = v\<rparr> = Inr (Inr (), nv') \<and>
       \<not> BufList_wf (pairs nv') \<and> (\<exists>e. NVBody_drain nv' = Inl e))"
  using NVBody_add_fits [OF assms(2)]
  by (auto simp: BufList_wf_def NVBody_drain_def BufList_copy_to_bytes_def)

lemma NVBody_add_empty_name_example:
  "NVBody_add True NVBody_new \<lparr>name_data = [], value_data = [7]\<rparr> = Inl DebugAssert \<and>
    (\<exists>nv'. NVBody_add False NVBody_new \<lparr>name_data = [], value_data = [7]\<rparr> = Inr (Inr (), nv') \<and>
       \<not> BufList_wf (pairs nv') \<and> (\<exists>e. NVBody_drain nv' = Inl e))"
  by (rule NVBody_add_empty_name)
    (simp_all add: fits_new NameValuePair_len_def Body_MAX_LENGTH_def Let_def)

lemma short_pair_len: "short_pair p \<Longrightarrow> NameValuePair_len p \<le> Body_MAX_LENGTH"
  by (simp add: short_pair_def NameValuePair_len_def Body_MAX_LENGTH_def Let_def)

lemma holds_drain:
  "NVBodyList_holds bodies pss \<Longrightarrow> list_all short_pair (concat pss) \<Longrightarrow>
   list_all2 (\<lambda>nv ps. \<exists>bs. NVBody_drain nv = Inr bs \<and> length bs \<le> Body_MAX_LENGTH \<and>
     NVDrain_collect bs = Inr ps) bodies pss"
  unfolding NVBodyList_holds_def
proof (induction rule: list_all2_induct)
  case (Cons nv nvs ps pss)
  moreover have "length (NVBody_content nv) \<le> Body_MAX_LENGTH"
    using Cons.hyps(1) less_Suc_eq_le [of "unat (len nv)" 65535] NVBody_wf_length [of nv]
    by (simp add: Body_MAX_LENGTH_def)
  ultimately show ?case
    by (simp add: NVBody_drain_wf nvp.iter_concat)
qed simp

text \<open>
  C20. Collecting pairs into an \<open>NVBodyList\<close> and draining every body again gives the same pairs in
  the same order, each pair whole in one body, no body longer than a record can be, if every pair has a
  name and its name and value are shorter than 128 bytes (longer ones panic in the parser, and an empty
  name in the debug build).
\<close>

theorem NVBodyList_roundtrip:
  assumes "list_all (\<lambda>(k, v). k \<noteq> [] \<and> length k < 128 \<and> length v < 128) kvs"
  shows "\<exists>bodies pss. NVBodyList_from_iter dbg kvs = Inr bodies \<and>
    concat pss = map (\<lambda>(k, v). NameValuePair_new k v) kvs \<and>
    list_all2 (\<lambda>nv ps. \<exists>bs. NVBody_drain nv = Inr bs \<and> length bs \<le> Body_MAX_LENGTH \<and>
      NVDrain_collect bs = Inr ps) bodies pss"
proof -
  have s: "list_all short_pair (map (\<lambda>(k, v). NameValuePair_new k v) kvs)"
    using assms by (auto simp: list_all_iff short_pair_def NameValuePair_new_def)
  have "list_all (\<lambda>(k, v). k \<noteq> [] \<and> NameValuePair_len (NameValuePair_new k v) \<le> Body_MAX_LENGTH) kvs"
    using assms short_pair_len by (fastforce simp: list_all_iff short_pair_def NameValuePair_new_def)
  moreover have "NVBodyList_holds NVBodyList_new [[]]"
    by (simp add: NVBodyList_holds_def NVBodyList_new_def)
  ultimately obtain bodies pss where
    "NVBodyList_from_iter dbg kvs = Inr bodies" "NVBodyList_holds bodies pss"
    "concat pss = map (\<lambda>(k, v). NameValuePair_new k v) kvs"
    using NVBodyList_extend_holds [of NVBodyList_new "[[]]" kvs dbg]
    by (auto simp: NVBodyList_from_iter_def NVBodyList_new_def)
  with holds_drain [of bodies pss] s show ?thesis by auto
qed

theorem NVBodyList_roundtrip_witness:
  "\<exists>bodies pss. NVBodyList_from_iter True [([1], [2, 3]), ([4], [])] = Inr bodies \<and>
    concat pss = map (\<lambda>(k, v). NameValuePair_new k v) [([1], [2, 3]), ([4], [])] \<and>
    list_all2 (\<lambda>nv ps. \<exists>bs. NVBody_drain nv = Inr bs \<and> length bs \<le> Body_MAX_LENGTH \<and>
      NVDrain_collect bs = Inr ps) bodies pss"
  by (rule NVBodyList_roundtrip) simp

end
