(* ===== verification/Fcgi_Record.thy ===== *)
theory Fcgi_Record
  imports Fcgi_Params
begin

text \<open>
  \<open>src/fastcgi.rs\<close>, whole records: the bodies, \<open>Record::append\<close> (serialisation),
  \<open>Record::read\<close> and \<open>Record::parse_body\<close> (parsing a record that is completely there).

  \<open>uninit\<close> is the uninitialised memory that the padding is left in.
\<close>

section \<open>Bodies and records\<close>

record BeginRequestBody =
  role :: FastCGIRole
  flags :: u8

record EndRequestBody =
  app_status :: u32
  protocol_status :: ProtoStatus

record UnknownTypeBody =
  unknown_rtype :: u8

datatype Body =
    BeginRequest BeginRequestBody
  | EndRequest EndRequestBody
  | UnknownType UnknownTypeBody
  | Params NVBody
  | StdIn bytes
  | StdErr bytes
  | StdOut bytes
  | Abort
  | GetValues NVBody
  | GetValuesResult NVBody

record Record =
  header :: Header
  body :: Body

definition KEEP_CONN :: u8 where
  "KEEP_CONN = 1"

definition MAX_CONNS :: bytes where
  "MAX_CONNS = bstr ''MAX_CONNS''"

definition MAX_REQS :: bytes where
  "MAX_REQS = bstr ''MAX_REQS''"

definition MPXS_CONNS :: bytes where
  "MPXS_CONNS = bstr ''MPXS_CONNS''"

text \<open>\<open>STDINBody::new\<close> takes up to \<open>MAX_LENGTH\<close> bytes from the buffer and leaves the rest.\<close>

definition STDINBody_new :: "u16 \<Rightarrow> bytes \<Rightarrow> Record \<times> bytes" where
  "STDINBody_new rid b =
     (let rec_data = take Body_MAX_LENGTH b; len = length rec_data in
      (\<lparr>header = Header_new RecordType.StdIn rid (of_nat len), body = Body.StdIn rec_data\<rparr>,
       drop len b))"

definition BeginRequestBody_new :: "FastCGIRole \<Rightarrow> u8 \<Rightarrow> u16 \<Rightarrow> Record" where
  "BeginRequestBody_new r fl rid =
     \<lparr>header = \<lparr>version = VERSION_1, rtype = RecordType.BeginRequest, request_id = rid,
        content_length = 8, padding_length = 0\<rparr>,
      body = Body.BeginRequest \<lparr>role = r, flags = fl\<rparr>\<rparr>"

definition NVBody_to_record :: "NVBody \<Rightarrow> RecordType \<Rightarrow> u16 \<Rightarrow> panic + Record" where
  "NVBody_to_record self rt rid =
     (let h = \<lparr>version = VERSION_1, rtype = rt, request_id = rid, content_length = len self,
        padding_length = align_padding (len self)\<rparr> in
      case rt of
        RecordType.Params \<Rightarrow> Inr \<lparr>header = h, body = Body.Params self\<rparr>
      | RecordType.GetValues \<Rightarrow> Inr \<lparr>header = h, body = Body.GetValues self\<rparr>
      | RecordType.GetValuesResult \<Rightarrow> Inr \<lparr>header = h, body = Body.GetValuesResult self\<rparr>
      | _ \<Rightarrow> Inl NoValidType)"

section \<open>Serialisation\<close>

definition BeginRequestBody_write_into :: "BeginRequestBody \<Rightarrow> bytes" where
  "BeginRequestBody_write_into b = put_u16 (FastCGIRole_code (role b)) @ [flags b] @ replicate 5 0"

definition Record_append :: "bool \<Rightarrow> (nat \<Rightarrow> u8) \<Rightarrow> Record \<Rightarrow> panic + bytes" where
  "Record_append dbg uninit self =
     (let pad = unat (padding_length (header self));
          put_nvs = (\<lambda>nvs. rbind (NVBody_drain nvs) (\<lambda>kvp.
            Inr (Header_write_into (header self) @ kvp @ map uninit [0..<pad]))) in
      case body self of
        Body.BeginRequest brb \<Rightarrow> Inr (Header_write_into (header self) @ BeginRequestBody_write_into brb)
      | Body.Params nvs \<Rightarrow> put_nvs nvs
      | Body.GetValues nvs \<Rightarrow> put_nvs nvs
      | Body.GetValuesResult nvs \<Rightarrow> put_nvs nvs
      | Body.StdIn b \<Rightarrow>
          if b = [] then
            (if dbg \<and> pad \<noteq> 0 then Inl DebugAssert else Inr (Header_write_into (header self)))
          else Inr (Header_write_into (header self) @ b @ map uninit [0..<pad])
      | Body.Abort \<Rightarrow> Inr (Header_write_into (header self))
      | _ \<Rightarrow> Inl NotImplemented)"

section \<open>Parsing\<close>

definition EndRequestBody_parse :: "bytes \<Rightarrow> panic + EndRequestBody" where
  "EndRequestBody_parse data =
     rbind (get_u32 data) (\<lambda>(app, data).
     rbind (get_u8 data) (\<lambda>(st, data).
     case ProtoStatus_try_from st of
       Inl o' \<Rightarrow> Inl (NotFcgiStatus o')
     | Inr ps \<Rightarrow> rbind (advance 3 data) (\<lambda>_. Inr \<lparr>app_status = app, protocol_status = ps\<rparr>)))"

definition Record_parse_body :: "bytes \<Rightarrow> RecordType \<Rightarrow> panic + Body" where
  "Record_parse_body payload ptype =
     (case ptype of
        RecordType.StdOut \<Rightarrow> Inr (Body.StdOut payload)
      | RecordType.StdErr \<Rightarrow> Inr (Body.StdErr payload)
      | RecordType.EndRequest \<Rightarrow>
          rbind (EndRequestBody_parse payload) (\<lambda>b. Inr (Body.EndRequest b))
      | RecordType.UnknownType \<Rightarrow>
          rbind (get_u8 payload) (\<lambda>(rt, payload).
          rbind (advance 7 payload) (\<lambda>_. Inr (Body.UnknownType \<lparr>unknown_rtype = rt\<rparr>)))
      | RecordType.GetValuesResult \<Rightarrow>
          rbind (NVBody_from_bytes payload) (\<lambda>b. Inr (Body.GetValuesResult b))
      | RecordType.GetValues \<Rightarrow> rbind (NVBody_from_bytes payload) (\<lambda>b. Inr (Body.GetValues b))
      | RecordType.Params \<Rightarrow> rbind (NVBody_from_bytes payload) (\<lambda>b. Inr (Body.Params b))
      | _ \<Rightarrow> Inl NotImplemented)"

definition Record_get_request_id :: "Record \<Rightarrow> u16" where
  "Record_get_request_id self = request_id (header self)"

definition Record_read :: "bytes \<Rightarrow> panic + Record option \<times> bytes" where
  "Record_read data =
     (if length data < 8 then Inr (None, data)
      else
        rbind (Header_parse data) (\<lambda>(h, _).
        let len = unat (content_length h) + unat (padding_length h) in
        if length data < len + 8 then Inr (None, data)
        else
          rbind (advance 8 data) (\<lambda>data.
          rbind (slice 0 (unat (content_length h)) data) (\<lambda>body.
          rbind (advance len data) (\<lambda>data.
          rbind (Record_parse_body body (rtype h)) (\<lambda>body.
            Inr (Some \<lparr>header = h, body = body\<rparr>, data)))))))"

section \<open>Reading whole records\<close>

lemma Record_read_short: "length data < 8 \<Longrightarrow> Record_read data = Inr (None, data)"
  by (simp add: Record_read_def)

lemma Record_read_whole:
  assumes "length payload = unat (content_length h)" "length pad = unat (padding_length h)"
  shows "Record_read (header_bytes h x @ payload @ pad @ rest) =
    rbind (Record_parse_body payload (rtype h)) (\<lambda>b. Inr (Some \<lparr>header = h, body = b\<rparr>, rest))"
  using assms by (simp add: Record_read_def advance_def slice_def)

lemma Record_read_incomplete:
  assumes "length data < unat (content_length h) + unat (padding_length h)"
  shows "Record_read (header_bytes h x @ data) = Inr (None, header_bytes h x @ data)"
  using assms by (simp add: Record_read_def)

lemma Record_read_SomeD:
  assumes "Record_read data = Inr (Some r, rest)"
  shows "\<exists>x payload pad. data = header_bytes (header r) x @ payload @ pad @ rest \<and>
    length payload = unat (content_length (header r)) \<and>
    length pad = unat (padding_length (header r)) \<and>
    Record_parse_body payload (rtype (header r)) = Inr (body r)"
proof -
  from assms have "8 \<le> length data" by (auto simp: Record_read_def split: if_splits)
  then show ?thesis
  proof (cases rule: Header_parse_cases)
    case (ok h x d)
    let ?c = "unat (content_length h)" and ?p = "unat (padding_length h)"
    from assms ok have len: "?c + ?p \<le> length d"
      by (auto simp: Record_read_def Let_def split: if_splits)
    define payload where "payload = take ?c d"
    define pad where "pad = take ?p (drop ?c d)"
    define rest' where "rest' = drop (?p + ?c) d"
    have d: "data = header_bytes h x @ payload @ pad @ rest'"
      by (simp add: ok payload_def pad_def rest'_def flip: drop_drop)
    have l: "length payload = ?c" "length pad = ?p"
      using len by (simp_all add: payload_def pad_def)
    from assms [unfolded d Record_read_whole [OF l]]
    have r: "header r = h" "Record_parse_body payload (rtype h) = Inr (body r)" "rest = rest'"
      by (auto simp: rbind_Inr_iff)
    show ?thesis
      by (intro exI [of _ x] exI [of _ payload] exI [of _ pad]) (simp add: d r l)
  next
    case bad
    with assms show ?thesis by (auto simp: Record_read_def split: if_splits)
  qed
qed

lemma Record_read_NoneD: "Record_read data = Inr (None, rest) \<Longrightarrow> rest = data"
  by (auto simp: Record_read_def rbind_Inr_iff Let_def split: if_splits)

section \<open>Which bodies parse\<close>

text \<open>
  The five record types whose body parses from any payload (so also from a fragment of one),
  and the four that the client does not implement.
\<close>

definition stream_type :: "RecordType \<Rightarrow> bool" where
  "stream_type t \<longleftrightarrow> t \<in> {RecordType.Params, RecordType.StdOut, RecordType.StdErr,
     RecordType.GetValues, RecordType.GetValuesResult}"

lemma parse_body_stream:
  "stream_type t \<Longrightarrow> length payload < 65536 \<Longrightarrow> \<exists>b. Record_parse_body payload t = Inr b"
  using NVBody_from_bytes_Inr [of payload]
  by (cases t) (auto simp: stream_type_def Record_parse_body_def)

lemma parse_body_unimplemented:
  "t \<in> {RecordType.BeginRequest, RecordType.AbortRequest, RecordType.StdIn, RecordType.Data} \<Longrightarrow>
     Record_parse_body payload t = Inl NotImplemented"
  by (auto simp: Record_parse_body_def)

lemma EndRequestBody_parse_short:
  assumes "length data < 8"
  shows "\<exists>e. EndRequestBody_parse data = Inl e"
proof (cases "EndRequestBody_parse data")
  case (Inr b)
  then obtain app d1 st d2 d3 where
    1: "get_u32 data = Inr (app, d1)" and 2: "get_u8 d1 = Inr (st, d2)" and 3: "advance 3 d2 = Inr d3"
    by (auto simp: EndRequestBody_parse_def rbind_Inr_iff case_sum_Inr_iff)
  from 1 have "length data = length d1 + 4" by (cases data rule: get_u32.cases) auto
  moreover from 2 have "length d1 = length d2 + 1" by (cases d1) auto
  moreover from 3 have "3 \<le> length d2" by (simp add: advance_def split: if_splits)
  ultimately show ?thesis using assms by simp
qed blast

lemma EndRequestBody_parse_8:
  "EndRequestBody_parse (put_u32 app @ [st] @ reserved) =
     (case ProtoStatus_try_from st of
        Inl o' \<Rightarrow> Inl (NotFcgiStatus o')
      | Inr ps \<Rightarrow> if length reserved < 3 then Inl BufUnderflow
          else Inr \<lparr>app_status = app, protocol_status = ps\<rparr>)"
  by (simp add: EndRequestBody_parse_def advance_def split: sum.split)

text \<open>
  The payload a parsed record carries. \<open>EndRequest\<close> and \<open>UnknownType\<close> bodies are decoded.
\<close>

fun Body_payload :: "Body \<Rightarrow> bytes" where
  "Body_payload (Body.StdOut b) = b"
| "Body_payload (Body.StdErr b) = b"
| "Body_payload (Body.Params nv) = NVBody_content nv"
| "Body_payload (Body.GetValues nv) = NVBody_content nv"
| "Body_payload (Body.GetValuesResult nv) = NVBody_content nv"
| "Body_payload _ = []"

lemma Body_payload_parse:
  assumes "Record_parse_body payload t = Inr b" "length payload < 65536"
  shows "Body_payload b = (if stream_type t then payload else [])"
  using assms NVBody_from_bytes_Inr [of payload]
  by (cases t) (auto simp: Record_parse_body_def stream_type_def rbind_Inr_iff)

section \<open>Properties\<close>

lemma align_len_mod_8: "(8 + unat l + unat (align_padding l)) mod 8 = 0"
  using align_padding_sum [of l] by (simp add: add.assoc)

text \<open>
  C21. A name-value body that is turned into a record, serialised with \<open>append\<close> and read again
  with \<open>Record::read\<close> comes back with the same header and the same payload; the bytes written are
  a multiple of eight and exactly those are consumed, whatever the padding memory held.
\<close>

theorem Record_append_read:
  assumes "NVBody_wf nv" and "NVBody_to_record nv rt rid = Inr r"
  shows "\<exists>bs r'. Record_append dbg uninit r = Inr bs \<and> length bs mod 8 = 0 \<and>
    Record_read (bs @ rest) = Inr (Some r', rest) \<and> header r' = header r \<and>
    rtype (header r) = rt \<and> request_id (header r) = rid \<and>
    Body_payload (body r') = NVBody_content nv"
proof -
  let ?payload = "NVBody_content nv"
  let ?pad = "map uninit [0..<unat (padding_length (header r))]"
  have h: "rtype (header r) = rt" "request_id (header r) = rid" "content_length (header r) = len nv"
    "padding_length (header r) = align_padding (len nv)" and st: "stream_type rt"
    and b: "Record_append dbg uninit r = Inr (Header_write_into (header r) @ ?payload @ ?pad)"
    using assms NVBody_drain_wf [OF assms(1)]
    by (auto simp: NVBody_to_record_def Let_def Record_append_def stream_type_def
        split: RecordType.splits)
  have l: "length ?payload = unat (len nv)" using assms(1) by (rule NVBody_wf_length)
  then have l': "length ?payload < 65536" by simp
  from parse_body_stream [OF st l'] obtain bd where bd: "Record_parse_body ?payload rt = Inr bd" ..
  from Body_payload_parse [OF bd l'] st have p: "Body_payload bd = ?payload" by simp
  have rd: "Record_read ((Header_write_into (header r) @ ?payload @ ?pad) @ rest) =
      Inr (Some \<lparr>header = header r, body = bd\<rparr>, rest)"
    using Record_read_whole [of ?payload "header r" ?pad 0 rest]
    by (simp add: Header_write_into_bytes h l bd)
  show ?thesis
    using b rd p h align_len_mod_8 [of "len nv"] by (simp add: l add.assoc)
qed

theorem Record_append_read_witness:
  "\<exists>bs r'. Record_append True (\<lambda>_. 0) \<lparr>header = \<lparr>version = 1, rtype = RecordType.Params,
      request_id = 1, content_length = 0, padding_length = 0\<rparr>, body = Body.Params NVBody_new\<rparr> = Inr bs \<and>
    length bs mod 8 = 0 \<and> Record_read (bs @ [9]) = Inr (Some r', [9]) \<and>
    header r' = \<lparr>version = 1, rtype = RecordType.Params, request_id = 1, content_length = 0,
      padding_length = 0\<rparr> \<and> Body_payload (body r') = NVBody_content NVBody_new"
  using Record_append_read [of NVBody_new RecordType.Params 1
      "\<lparr>header = \<lparr>version = 1, rtype = RecordType.Params, request_id = 1, content_length = 0,
        padding_length = 0\<rparr>, body = Body.Params NVBody_new\<rparr>" True "\<lambda>_. 0" "[9]"]
  by (simp add: NVBody_to_record_def NVBody_new_def VERSION_1_def align_padding_def
      NVBody_wf_def BufList_new_def)

text \<open>
  \<open>Record::read\<close> is all or nothing: when it returns a record, the bytes consumed are a whole
  record (header, content and padding, as the header announces) and the body is parsed from
  exactly the content; when it returns none, the buffer is untouched.
\<close>

lemma Record_read_framing:
  assumes "Record_read data = Inr (ro, rest)"
  shows "case ro of
      None \<Rightarrow> rest = data
    | Some r \<Rightarrow> \<exists>x payload pad. data = header_bytes (header r) x @ payload @ pad @ rest \<and>
        length payload = unat (content_length (header r)) \<and>
        length pad = unat (padding_length (header r)) \<and>
        Record_parse_body payload (rtype (header r)) = Inr (body r)"
  using assms Record_read_SomeD Record_read_NoneD by (cases ro) auto

lemma Record_read_framing_example:
  "\<exists>x payload pad. [1, 6, 0, 1, 0, 1, 1, 0, 65, 0, 3] =
      header_bytes \<lparr>version = 1, rtype = RecordType.StdOut, request_id = 1, content_length = 1,
        padding_length = 1\<rparr> x @ payload @ pad @ [3] \<and>
    length payload = 1 \<and> length pad = 1 \<and> Record_parse_body payload RecordType.StdOut = Inr (Body.StdOut [65])"
proof -
  let ?r = "\<lparr>header = \<lparr>version = 1, rtype = RecordType.StdOut, request_id = 1, content_length = 1,
    padding_length = 1\<rparr>, body = Body.StdOut [65]\<rparr>"
  have "Record_read [1, 6, 0, 1, 0, 1, 1, 0, 65, 0, 3] = Inr (Some ?r, [3])"
    by (simp add: Record_read_def Header_parse_8 RecordType_try_from_def be16_def advance_def
        slice_def Record_parse_body_def)
  from Record_read_framing [OF this] show ?thesis by simp
qed

end
