(* ===== verification/Fcgi_Reader.thy ===== *)
theory Fcgi_Reader
  imports Fcgi_Record
begin

text \<open>
  \<open>src/fastcgi.rs\<close>, \<open>RecordReader\<close>: records from a stream of bytes that may arrive in any
  pieces. \<open>current\<close> is the header of a record whose content or padding is not complete yet.

  The specification is a byte-at-a-time scanner of the FastCGI wire format (\<open>wire_scan\<close>), which
  knows nothing of buffers: the reader delivers exactly the content bytes that the scanner sees.
\<close>

section \<open>The reader\<close>

record RecordReader =
  current :: "Header option"

definition RecordReader_new :: RecordReader where
  "RecordReader_new = \<lparr>current = None\<rparr>"

text \<open>
  The second half of \<open>read\<close>: cut \<open>body_len\<close> bytes off, then the padding, or remember that
  padding is still missing. \<open>self\<close> is the reader as the first half left it.
\<close>

definition RecordReader_cut ::
  "RecordReader \<Rightarrow> Header \<Rightarrow> nat \<Rightarrow> bytes \<Rightarrow> panic + Record option \<times> RecordReader \<times> bytes" where
  "RecordReader_cut self h body_len data =
     rbind (slice 0 body_len data) (\<lambda>payload.
     rbind (advance body_len data) (\<lambda>data.
     let finish = (\<lambda>self data. rbind (Record_parse_body payload (rtype h)) (\<lambda>b.
           Inr (Some \<lparr>header = h, body = b\<rparr>, self, data))) in
     if length data < unat (padding_length h) then
       if body_len < 1 then Inr (None, \<lparr>current = Some h\<rparr>, data)
       else finish \<lparr>current = Some (h\<lparr>content_length := 0\<rparr>)\<rparr> data
     else rbind (advance (unat (padding_length h)) data) (\<lambda>data. finish self data)))"

definition RecordReader_with_header ::
  "Header \<Rightarrow> bytes \<Rightarrow> panic + Record option \<times> RecordReader \<times> bytes" where
  "RecordReader_with_header full_header data =
     (let body_len = unat (content_length full_header) in
      if length data < body_len then
        let body_len = length data;
            nh = full_header\<lparr>content_length := of_nat body_len, padding_length := 0\<rparr>;
            full_header = full_header\<lparr>content_length := content_length full_header - of_nat body_len\<rparr>;
            self = \<lparr>current = Some full_header\<rparr> in
        if body_len < 1 then Inr (None, self, data)
        else RecordReader_cut self nh body_len data
      else RecordReader_cut \<lparr>current = None\<rparr> full_header body_len data)"

definition RecordReader_read ::
  "RecordReader \<Rightarrow> bytes \<Rightarrow> panic + Record option \<times> RecordReader \<times> bytes" where
  "RecordReader_read self data =
     (case current self of
        Some h \<Rightarrow> RecordReader_with_header h data
      | None \<Rightarrow>
          if length data < 8 then Inr (None, \<lparr>current = None\<rparr>, data)
          else rbind (Header_parse data) (\<lambda>(h, data). RecordReader_with_header h data))"

section \<open>The scanner: what the bytes of a stream mean\<close>

text \<open>
  \<open>InHead bs\<close>: the first bytes of a header have been seen. \<open>InBody t id c p\<close>: inside a record
  of type \<open>t\<close> and request \<open>id\<close> that has \<open>c\<close> content and \<open>p\<close> padding bytes to come.
\<close>

datatype scan_state = InHead bytes | InBody u8 u16 nat nat

datatype event = Head u8 | Content u8 u16 u8

definition in_body :: "u8 \<Rightarrow> u16 \<Rightarrow> nat \<Rightarrow> nat \<Rightarrow> scan_state" where
  "in_body t id' c p = (if c = 0 \<and> p = 0 then InHead [] else InBody t id' c p)"

fun scan_byte :: "scan_state \<Rightarrow> u8 \<Rightarrow> scan_state \<times> event list" where
  "scan_byte (InHead bs) b =
     (let h = bs @ [b] in
      if length h < 8 then (InHead h, [])
      else (in_body (h ! 1) (be16 (h ! 2) (h ! 3)) (unat (be16 (h ! 4) (h ! 5))) (unat (h ! 6)),
            [Head (h ! 1)]))"
| "scan_byte (InBody t id' c p) b =
     (if c > 0 then (in_body t id' (c - 1) p, [Content t id' b]) else (in_body t id' 0 (p - 1), []))"

fun wire_scan :: "scan_state \<Rightarrow> bytes \<Rightarrow> scan_state \<times> event list" where
  "wire_scan s [] = (s, [])"
| "wire_scan s (b # bs) =
     (let (s', e) = scan_byte s b; (s'', es) = wire_scan s' bs in (s'', e @ es))"

lemma wire_scan_append:
  "wire_scan s (xs @ ys) =
     (let (s', e) = wire_scan s xs; (s'', es) = wire_scan s' ys in (s'', e @ es))"
  by (induction xs arbitrary: s) (auto simp: Let_def split: prod.splits)

lemma snd_wire_scan_append:
  "snd (wire_scan s (xs @ ys)) = snd (wire_scan s xs) @ snd (wire_scan (fst (wire_scan s xs)) ys)"
  by (simp add: wire_scan_append split: prod.splits)

lemma wire_scan_append2:
  "wire_scan s xs = (s', e) \<Longrightarrow> wire_scan s' ys = (s'', e') \<Longrightarrow> wire_scan s (xs @ ys) = (s'', e @ e')"
  by (simp add: wire_scan_append)

lemma scan_byte_content:
  "scan_byte (in_body t id' (Suc c) p) b = (in_body t id' c p, [Content t id' b])"
  by (simp add: in_body_def)

lemma scan_byte_padding: "scan_byte (in_body t id' 0 (Suc p)) b = (in_body t id' 0 p, [])"
  by (simp add: in_body_def)

lemma scan_content:
  "length payload \<le> c \<Longrightarrow>
     wire_scan (in_body t id' c p) payload =
       (in_body t id' (c - length payload) p, map (Content t id') payload)"
proof (induction payload arbitrary: c)
  case (Cons b payload)
  then obtain c' where "c = Suc c'" "length payload \<le> c'" by (cases c) auto
  with Cons.IH show ?case by (simp add: scan_byte_content)
qed simp

lemma scan_padding:
  "length pad \<le> p \<Longrightarrow> wire_scan (in_body t id' 0 p) pad = (in_body t id' 0 (p - length pad), [])"
proof (induction pad arbitrary: p)
  case (Cons b pad)
  then obtain p' where "p = Suc p'" "length pad \<le> p'" by (cases p) auto
  with Cons.IH show ?case by (simp add: scan_byte_padding)
qed simp

lemma in_body_done [simp]: "in_body t id' 0 0 = InHead []"
  by (simp add: in_body_def)

lemma scan_record:
  "length payload = c \<Longrightarrow> length pad = p \<Longrightarrow>
     wire_scan (in_body t id' c p) (payload @ pad) = (InHead [], map (Content t id') payload)"
  by (simp add: wire_scan_append scan_content scan_padding)

lemma scan_header_bytes:
  "wire_scan (InHead []) (header_bytes h x) =
     (in_body (RecordType_code (rtype h)) (request_id h) (unat (content_length h))
        (unat (padding_length h)), [Head (RecordType_code (rtype h))])"
proof -
  obtain r1 r0 where r: "put_u16 (request_id h) = [r1, r0]" by (simp add: put_u16_def)
  obtain l1 l0 where l: "put_u16 (content_length h) = [l1, l0]" by (simp add: put_u16_def)
  have "be16 r1 r0 = request_id h" "be16 l1 l0 = content_length h"
    using get_u16_put_u16 [of "request_id h" "[]"] get_u16_put_u16 [of "content_length h" "[]"]
    by (simp_all add: r l)
  then show ?thesis by (simp add: header_bytes_def r l)
qed

text \<open>Fewer than eight bytes of a header tell nothing.\<close>

lemma scan_partial_header: "length bs + length xs < 8 \<Longrightarrow> wire_scan (InHead bs) xs = (InHead (bs @ xs), [])"
  by (induction xs arbitrary: bs) auto

section \<open>The reader refines the scanner\<close>

text \<open>Abstraction: which scanner state the reader is in between two reads.\<close>

definition reader_abs :: "RecordReader \<Rightarrow> scan_state" where
  "reader_abs self =
     (case current self of
        None \<Rightarrow> InHead []
      | Some h \<Rightarrow> in_body (RecordType_code (rtype h)) (request_id h) (unat (content_length h))
          (unat (padding_length h)))"

lemma reader_abs_simps [simp]:
  "reader_abs \<lparr>current = None\<rparr> = InHead []"
  "reader_abs \<lparr>current = Some h\<rparr> = in_body (RecordType_code (rtype h)) (request_id h)
     (unat (content_length h)) (unat (padding_length h))"
  by (simp_all add: reader_abs_def)

definition header_abs :: "Header \<Rightarrow> scan_state" where
  "header_abs h = reader_abs \<lparr>current = Some h\<rparr>"

text \<open>The content of a record, as the events the scanner reports for it.\<close>

definition contents :: "Header \<Rightarrow> bytes \<Rightarrow> event list" where
  "contents h payload = map (Content (RecordType_code (rtype h)) (request_id h)) payload"

text \<open>
  What one call does, for the state \<open>s\<close> and the input \<open>data\<close>: it consumed \<open>used\<close>; a record it
  returns carries the content bytes that the scanner saw in \<open>used\<close>; if it returns none, what is
  left carries no content and completes no header.
\<close>

definition read_ok ::
  "scan_state \<Rightarrow> bytes \<Rightarrow> event list \<Rightarrow> Record option \<times> RecordReader \<times> bytes \<Rightarrow> bool" where
  "read_ok s data pre res \<longleftrightarrow>
     (case res of (ro, self, rest) \<Rightarrow> \<exists>used. data = used @ rest \<and>
        (case ro of
           None \<Rightarrow> wire_scan s used = (reader_abs self, pre) \<and> snd (wire_scan (reader_abs self) rest) = []
         | Some r \<Rightarrow> \<exists>payload. wire_scan s used = (reader_abs self, pre @ contents (header r) payload) \<and>
             length payload = unat (content_length (header r)) \<and>
             Record_parse_body payload (rtype (header r)) = Inr (body r)))"

subsection \<open>The five outcomes of a call with a header\<close>

lemma with_header_starved:
  "0 < unat (content_length h) \<Longrightarrow>
     RecordReader_with_header h [] = Inr (None, \<lparr>current = Some h\<rparr>, [])"
  by (simp add: RecordReader_with_header_def)

lemma with_header_fragment:
  assumes "data \<noteq> []" "length data < unat (content_length h)"
  shows "RecordReader_with_header h data =
    rbind (Record_parse_body data (rtype h)) (\<lambda>b.
      Inr (Some \<lparr>header = h\<lparr>content_length := of_nat (length data), padding_length := 0\<rparr>, body = b\<rparr>,
           \<lparr>current = Some (h\<lparr>content_length := content_length h - of_nat (length data)\<rparr>)\<rparr>, []))"
  using assms
  by (simp add: RecordReader_with_header_def RecordReader_cut_def slice_def advance_def Let_def
    Suc_le_eq not_less)

lemma with_header_wait_padding:
  assumes "content_length h = 0" "length data < unat (padding_length h)"
  shows "RecordReader_with_header h data = Inr (None, \<lparr>current = Some h\<rparr>, data)"
  using assms
  by (simp add: RecordReader_with_header_def RecordReader_cut_def slice_def advance_def Let_def)

lemma with_header_no_padding:
  assumes "length payload = unat (content_length h)" "payload \<noteq> []"
    and "length rest < unat (padding_length h)"
  shows "RecordReader_with_header h (payload @ rest) =
    rbind (Record_parse_body payload (rtype h)) (\<lambda>b.
      Inr (Some \<lparr>header = h, body = b\<rparr>, \<lparr>current = Some (h\<lparr>content_length := 0\<rparr>)\<rparr>, rest))"
proof -
  have "unat (content_length h) \<noteq> 0" using assms(1,2) by (metis length_0_conv)
  with assms show ?thesis
    by (simp add: RecordReader_with_header_def RecordReader_cut_def slice_def advance_def Let_def)
qed

lemma with_header_complete:
  assumes "length payload = unat (content_length h)" "length pad = unat (padding_length h)"
  shows "RecordReader_with_header h (payload @ pad @ rest) =
    rbind (Record_parse_body payload (rtype h)) (\<lambda>b.
      Inr (Some \<lparr>header = h, body = b\<rparr>, \<lparr>current = None\<rparr>, rest))"
  using assms
  by (simp add: RecordReader_with_header_def RecordReader_cut_def slice_def advance_def Let_def)

lemma with_header_cases:
  obtains (starved) "data = []" "0 < unat (content_length h)"
  | (fragment) "data \<noteq> []" "length data < unat (content_length h)"
  | (wait_padding) "content_length h = 0" "length data < unat (padding_length h)"
  | (no_padding) payload rest where "data = payload @ rest" "length payload = unat (content_length h)"
      "payload \<noteq> []" "length rest < unat (padding_length h)"
  | (complete) payload pad rest where "data = payload @ pad @ rest"
      "length payload = unat (content_length h)" "length pad = unat (padding_length h)"
proof -
  let ?c = "unat (content_length h)" and ?p = "unat (padding_length h)"
  consider "length data < ?c" | "?c \<le> length data" "length data < ?c + ?p" | "?c + ?p \<le> length data"
    by linarith
  then show thesis
  proof cases
    case 1
    then show thesis using starved fragment by (cases "data = []") auto
  next
    case 2
    show thesis
    proof (cases "?c = 0")
      case True
      with 2 show thesis by (intro wait_padding) (simp_all add: unat_0_iff)
    next
      case False
      with 2 show thesis by (intro no_padding [of "take ?c data" "drop ?c data"]) auto
    qed
  next
    case 3
    then show thesis
      by (intro complete [of "take ?c data" "take ?p (drop ?c data)" "drop ?p (drop ?c data)"])
        (simp_all add: append_assoc [symmetric] take_add [symmetric] flip: drop_drop take_add)
  qed
qed

subsection \<open>One call against the scanner\<close>

lemma parse_rbind_InrD:
  "rbind (Record_parse_body payload t) (\<lambda>b. Inr (Some \<lparr>header = h, body = b\<rparr>, self, rest)) = Inr res \<Longrightarrow>
     \<exists>r. res = (Some r, self, rest) \<and> header r = h \<and> Record_parse_body payload t = Inr (body r)"
  by (auto simp: rbind_Inr_iff)

lemma read_ok_SomeI:
  assumes "wire_scan s used = (reader_abs self, pre @ contents (header r) payload)"
    and "length payload = unat (content_length (header r))"
    and "Record_parse_body payload (rtype (header r)) = Inr (body r)"
  shows "read_ok s (used @ rest) pre (Some r, self, rest)"
  using assms by (auto simp: read_ok_def)

lemma read_ok_NoneI:
  assumes "wire_scan s used = (reader_abs self, pre)" "snd (wire_scan (reader_abs self) rest) = []"
  shows "read_ok s (used @ rest) pre (None, self, rest)"
  using assms by (auto simp: read_ok_def)

lemma read_ok_unused:
  "s = reader_abs self \<Longrightarrow> snd (wire_scan s data) = [] \<Longrightarrow> read_ok s data [] (None, self, data)"
  using read_ok_NoneI [of s "[]" self "[]" data] by simp

lemma with_header_ok:
  assumes "RecordReader_with_header h data = Inr res"
  shows "read_ok (header_abs h) data [] res"
proof (cases rule: with_header_cases [of data h])
  case starved
  with assms have "res = (None, \<lparr>current = Some h\<rparr>, data)" by (simp add: with_header_starved)
  with starved(1) show ?thesis by (simp add: read_ok_unused header_abs_def)
next
  case fragment
  let ?n = "length data"
  have n: "?n < 65536" using fragment(2) unat_u16_lt [of "content_length h"] by linarith
  then have "(of_nat ?n :: u16) \<le> content_length h"
    using fragment(2) by (simp add: word_le_nat_alt)
  then have sub: "unat (content_length h - of_nat ?n) = unat (content_length h) - ?n"
    using n by (simp add: unat_sub)
  from assms [unfolded with_header_fragment [OF fragment]] obtain r where
    r: "res = (Some r, \<lparr>current = Some (h\<lparr>content_length := content_length h - of_nat ?n\<rparr>)\<rparr>, [])"
    "header r = h\<lparr>content_length := of_nat ?n, padding_length := 0\<rparr>"
    "Record_parse_body data (rtype h) = Inr (body r)"
    by (blast dest: parse_rbind_InrD)
  have "read_ok (header_abs h) (data @ []) [] res"
    unfolding r(1) using fragment(2) n r(2,3)
    by (intro read_ok_SomeI [where payload = data])
      (simp_all add: header_abs_def scan_content sub contents_def)
  then show ?thesis by simp
next
  case wait_padding
  with assms have "res = (None, \<lparr>current = Some h\<rparr>, data)" by (simp add: with_header_wait_padding)
  with wait_padding show ?thesis by (simp add: read_ok_unused header_abs_def scan_padding)
next
  case (no_padding payload rest)
  from assms [unfolded no_padding(1) with_header_no_padding [OF no_padding(2-4)]] obtain r where
    r: "res = (Some r, \<lparr>current = Some (h\<lparr>content_length := 0\<rparr>)\<rparr>, rest)"
    "header r = h" "Record_parse_body payload (rtype h) = Inr (body r)"
    by (blast dest: parse_rbind_InrD)
  show ?thesis
    unfolding r(1) no_padding(1) using no_padding(2) r(2,3)
    by (intro read_ok_SomeI [where payload = payload])
      (simp_all add: header_abs_def scan_content contents_def)
next
  case (complete payload pad rest)
  from assms [unfolded complete(1) with_header_complete [OF complete(2,3)]] obtain r where
    r: "res = (Some r, \<lparr>current = None\<rparr>, rest)"
    "header r = h" "Record_parse_body payload (rtype h) = Inr (body r)"
    by (blast dest: parse_rbind_InrD)
  have "wire_scan (header_abs h) (payload @ pad) = (InHead [], contents h payload)"
    using complete(2,3) by (simp add: header_abs_def scan_record contents_def)
  then have "read_ok (header_abs h) ((payload @ pad) @ rest) [] res"
    unfolding r(1) using complete(2) r(2,3) by (intro read_ok_SomeI [where payload = payload]) simp_all
  then show ?thesis by (simp add: complete(1))
qed

text \<open>A call that starts between two records reads a header first.\<close>

lemma read_ok_header:
  assumes "read_ok (header_abs h) data [] res"
  shows "read_ok (InHead []) (header_bytes h x @ data) [Head (RecordType_code (rtype h))] res"
proof -
  obtain ro self rest where res: "res = (ro, self, rest)" by (cases res)
  from assms obtain used where u: "data = used @ rest" by (auto simp: read_ok_def res)
  have s: "wire_scan (InHead []) (header_bytes h x @ used) = (s', [Head (RecordType_code (rtype h))] @ e)"
    if "wire_scan (header_abs h) used = (s', e)" for s' e
    using that scan_header_bytes [of h x] by (simp add: wire_scan_append header_abs_def)
  have d: "header_bytes h x @ data = (header_bytes h x @ used) @ rest" by (simp add: u)
  show ?thesis
  proof (cases ro)
    case None
    with assms s show ?thesis
      unfolding res d None by (intro read_ok_NoneI) (auto simp: read_ok_def u)
  next
    case (Some r)
    with assms obtain payload where "wire_scan (header_abs h) used = (reader_abs self, contents (header r) payload)"
      "length payload = unat (content_length (header r))"
      "Record_parse_body payload (rtype (header r)) = Inr (body r)" by (auto simp: read_ok_def res u)
    with s show ?thesis
      unfolding res d Some by (intro read_ok_SomeI [where payload = payload]) auto
  qed
qed

lemma RecordReader_read_ok:
  assumes "RecordReader_read self data = Inr res"
  shows "\<exists>pre. read_ok (reader_abs self) data pre res \<and> set pre \<subseteq> range Head"
proof (cases "current self")
  case (Some h)
  then have "reader_abs self = header_abs h" by (simp add: header_abs_def reader_abs_def)
  with Some assms with_header_ok [of h data res] show ?thesis
    by (intro exI [of _ "[]"]) (simp add: RecordReader_read_def)
next
  case None
  then have abs: "reader_abs self = InHead []" by (simp add: reader_abs_def)
  show ?thesis
  proof (cases "length data < 8")
    case True
    with None assms have "res = (None, \<lparr>current = None\<rparr>, data)"
      by (simp add: RecordReader_read_def)
    with True show ?thesis
      by (intro exI [of _ "[]"]) (simp add: read_ok_unused abs scan_partial_header)
  next
    case False
    with assms None obtain h d where h: "Header_parse data = Inr (h, d)"
      and r: "RecordReader_with_header h d = Inr res"
      by (auto simp: RecordReader_read_def rbind_Inr_iff)
    from Header_parse_InrD [OF h] obtain x where x: "data = header_bytes h x @ d" by blast
    from read_ok_header [OF with_header_ok [OF r], of x] show ?thesis
      by (intro exI [of _ "[Head (RecordType_code (rtype h))]"]) (simp add: abs x)
  qed
qed

section \<open>Reading until nothing is left to read\<close>

text \<open>
  The loop \<open>while let Some(r) = reader.read(data)\<close>. Every record returned consumes input or
  finishes the record that was pending, so the loop ends.
\<close>

definition reader_size :: "RecordReader \<Rightarrow> bytes \<Rightarrow> nat" where
  "reader_size self data = length data + (case current self of None \<Rightarrow> 0 | Some _ \<Rightarrow> 1)"

lemma with_header_progress:
  assumes "RecordReader_with_header h data = Inr (Some r, self, rest)"
  shows "reader_size self rest < length data + 1"
proof (cases rule: with_header_cases [of data h])
  case fragment
  with assms show ?thesis by (auto simp: with_header_fragment rbind_Inr_iff reader_size_def)
next
  case (no_padding payload rest')
  then have "0 < unat (content_length h)" by (metis length_greater_0_conv)
  with no_padding assms show ?thesis
    by (auto simp: with_header_no_padding rbind_Inr_iff reader_size_def)
next
  case (complete payload pad rest')
  with assms show ?thesis by (auto simp: with_header_complete rbind_Inr_iff reader_size_def)
qed (use assms in \<open>auto simp: with_header_starved with_header_wait_padding\<close>)

lemma RecordReader_read_progress:
  assumes "RecordReader_read self data = Inr (Some r, self', rest)"
  shows "reader_size self' rest < reader_size self data"
proof (cases "current self")
  case (Some h)
  with assms with_header_progress [of h data r self' rest] show ?thesis
    by (simp add: RecordReader_read_def reader_size_def)
next
  case None
  with assms obtain h d where h: "Header_parse data = Inr (h, d)"
    and r: "RecordReader_with_header h d = Inr (Some r, self', rest)"
    by (auto simp: RecordReader_read_def rbind_Inr_iff split: if_splits)
  from Header_parse_length [OF h] with_header_progress [OF r] None show ?thesis
    by (simp add: reader_size_def)
qed

function RecordReader_drain :: "RecordReader \<Rightarrow> bytes \<Rightarrow> panic + Record list \<times> RecordReader \<times> bytes" where
  "RecordReader_drain self data =
     (case RecordReader_read self data of
        Inl e \<Rightarrow> Inl e
      | Inr (None, self, data) \<Rightarrow> Inr ([], self, data)
      | Inr (Some r, self, data) \<Rightarrow>
          rbind (RecordReader_drain self data) (\<lambda>(rs, self, data). Inr (r # rs, self, data)))"
  by pat_completeness auto
termination
  by (relation "measure (\<lambda>(self, data). reader_size self data)") (auto dest: RecordReader_read_progress)

declare RecordReader_drain.simps [simp del]

lemma drain_None: "RecordReader_read self data = Inr (None, self', data') \<Longrightarrow>
    RecordReader_drain self data = Inr ([], self', data')"
  by (simp add: RecordReader_drain.simps)

lemma drain_Some: "RecordReader_read self data = Inr (Some r, self', data') \<Longrightarrow>
    RecordReader_drain self data =
      rbind (RecordReader_drain self' data') (\<lambda>(rs, self, data). Inr (r # rs, self, data))"
  by (subst RecordReader_drain.simps) simp

lemma drain_panic: "RecordReader_read self data = Inl e \<Longrightarrow> RecordReader_drain self data = Inl e"
  by (simp add: RecordReader_drain.simps)

text \<open>The content bytes of the scanner's events.\<close>

definition content_of :: "event list \<Rightarrow> (u8 \<times> u16 \<times> u8) list" where
  "content_of es = concat (map (\<lambda>e. case e of Head _ \<Rightarrow> [] | Content t id' b \<Rightarrow> [(t, id', b)]) es)"

lemma content_of_simps [simp]:
  "content_of [] = []"
  "content_of (es @ fs) = content_of es @ content_of fs"
  "content_of (contents h payload) = map (\<lambda>b. (RecordType_code (rtype h), request_id h, b)) payload"
  by (induction payload) (auto simp: content_of_def contents_def)

lemma content_of_heads: "set pre \<subseteq> range Head \<Longrightarrow> content_of pre = []"
  by (induction pre) (auto simp: content_of_def)

text \<open>
  The content of a parsed record, and the part of the scanner's content that belongs to the
  types whose bodies keep their payload.
\<close>

definition record_content :: "Record \<Rightarrow> (u8 \<times> u16 \<times> u8) list" where
  "record_content r = map (\<lambda>b. (RecordType_code (rtype (header r)), request_id (header r), b))
     (Body_payload (body r))"

definition stream_code :: "u8 \<Rightarrow> bool" where
  "stream_code t \<longleftrightarrow> t = 4 \<or> t = 6 \<or> t = 7 \<or> t = 9 \<or> t = 10"

definition stream_content :: "event list \<Rightarrow> (u8 \<times> u16 \<times> u8) list" where
  "stream_content es = filter (\<lambda>(t, _, _). stream_code t) (content_of es)"

lemma stream_code_type: "stream_code (RecordType_code t) \<longleftrightarrow> stream_type t"
  by (cases t) (simp_all add: stream_code_def stream_type_def)

lemma stream_content_simps [simp]:
  "stream_content [] = []"
  "stream_content (es @ fs) = stream_content es @ stream_content fs"
  by (simp_all add: stream_content_def)

lemma record_content_read:
  assumes "Record_parse_body payload (rtype (header r)) = Inr (body r)"
    and "length payload = unat (content_length (header r))"
  shows "record_content r = stream_content (contents (header r) payload)"
  using Body_payload_parse [OF assms(1)] assms(2)
  by (simp add: record_content_def stream_content_def filter_map o_def stream_code_type)

text \<open>The trace of an \<open>EndRequest\<close>: its content.\<close>

definition end_seen :: "event list \<Rightarrow> Record \<Rightarrow> bool" where
  "end_seen es r \<longleftrightarrow> (\<forall>e. body r = Body.EndRequest e \<longrightarrow> (\<exists>b. Content 3 (request_id (header r)) b \<in> set es))"

lemma end_seen_record:
  assumes "Record_parse_body payload (rtype (header r)) = Inr (body r)"
  shows "end_seen (contents (header r) payload) r"
  using assms
  by (cases payload; cases "rtype (header r)")
    (auto simp: end_seen_def contents_def Record_parse_body_def EndRequestBody_parse_def rbind_Inr_iff)

lemma end_seen_mono: "end_seen es r \<Longrightarrow> set es \<subseteq> set fs \<Longrightarrow> end_seen fs r"
  by (auto simp: end_seen_def)

text \<open>Soundness of one call and of the loop, whatever records the stream holds.\<close>

lemma read_sound:
  assumes "RecordReader_read self data = Inr (ro, self', rest)"
  shows "\<exists>used es. data = used @ rest \<and> wire_scan (reader_abs self) used = (reader_abs self', es) \<and>
    stream_content es = (case ro of None \<Rightarrow> [] | Some r \<Rightarrow> record_content r) \<and>
    (ro = None \<longrightarrow> snd (wire_scan (reader_abs self') rest) = []) \<and> (\<forall>r. ro = Some r \<longrightarrow> end_seen es r)"
proof -
  from RecordReader_read_ok [OF assms] obtain pre where
    ok: "read_ok (reader_abs self) data pre (ro, self', rest)" and pre: "set pre \<subseteq> range Head" by blast
  from content_of_heads [OF pre] have sp: "stream_content pre = []" by (simp add: stream_content_def)
  show ?thesis
  proof (cases ro)
    case None
    with ok sp show ?thesis by (auto simp: read_ok_def)
  next
    case (Some r)
    with ok obtain used payload where
      "data = used @ rest" "wire_scan (reader_abs self) used = (reader_abs self', pre @ contents (header r) payload)"
      "length payload = unat (content_length (header r))"
      "Record_parse_body payload (rtype (header r)) = Inr (body r)" by (auto simp: read_ok_def)
    with Some sp record_content_read [of payload r] end_seen_mono [OF end_seen_record [of payload r]]
    show ?thesis by auto
  qed
qed

lemma drain_sound:
  "RecordReader_drain self data = Inr (rs, self', rest) \<Longrightarrow>
   \<exists>used es. data = used @ rest \<and> wire_scan (reader_abs self) used = (reader_abs self', es) \<and>
     stream_content es = concat (map record_content rs) \<and>
     snd (wire_scan (reader_abs self') rest) = [] \<and> list_all (end_seen es) rs"
proof (induction self data arbitrary: rs rule: RecordReader_drain.induct)
  case (1 self data)
  show ?case
  proof (cases "RecordReader_read self data")
    case (Inl e)
    with "1.prems" show ?thesis by (simp add: drain_panic)
  next
    case (Inr res)
    obtain ro self1 data1 where res: "res = (ro, self1, data1)" by (cases res)
    from read_sound [OF Inr [unfolded res]] obtain used es where
      u: "data = used @ data1" "wire_scan (reader_abs self) used = (reader_abs self1, es)"
      "stream_content es = (case ro of None \<Rightarrow> [] | Some r \<Rightarrow> record_content r)"
      "ro = None \<longrightarrow> snd (wire_scan (reader_abs self1) data1) = []"
      "\<And>r. ro = Some r \<Longrightarrow> end_seen es r" by blast
    show ?thesis
    proof (cases ro)
      case None
      with "1.prems" Inr u res show ?thesis by (auto simp: drain_None)
    next
      case (Some r)
      with "1.prems" Inr res obtain rs1 where rs: "rs = r # rs1"
        and d: "RecordReader_drain self1 data1 = Inr (rs1, self', rest)"
        by (auto simp: drain_Some rbind_Inr_iff)
      from "1.IH" [OF Inr res [symmetric] Some refl d] obtain used1 es1 where
        "data1 = used1 @ rest" "wire_scan (reader_abs self1) used1 = (reader_abs self', es1)"
        "stream_content es1 = concat (map record_content rs1)"
        "snd (wire_scan (reader_abs self') rest) = []" and seen: "list_all (end_seen es1) rs1" by blast
      moreover have "list_all (end_seen (es @ es1)) rs"
        using seen end_seen_mono [OF u(5) [OF Some]] by (auto simp: rs list_all_iff intro: end_seen_mono)
      ultimately show ?thesis
        using u(1-4) Some rs wire_scan_append2 [OF u(2)]
        by (intro exI [of _ "used @ used1"] exI [of _ "es @ es1"]) simp
    qed
  qed
qed

section \<open>When reading cannot panic\<close>

text \<open>Every header that the scanner completes in these events has a type of a byte stream.\<close>

definition stream_heads :: "event list \<Rightarrow> bool" where
  "stream_heads es \<longleftrightarrow> (\<forall>t. Head t \<in> set es \<longrightarrow> stream_code t)"

definition reader_streams :: "RecordReader \<Rightarrow> bool" where
  "reader_streams self \<longleftrightarrow> (case current self of None \<Rightarrow> True | Some h \<Rightarrow> stream_type (rtype h))"

lemma stream_heads_append [simp]: "stream_heads (es @ fs) \<longleftrightarrow> stream_heads es \<and> stream_heads fs"
  by (auto simp: stream_heads_def)

lemma stream_code_known: "stream_code t \<Longrightarrow> \<exists>rt. RecordType_try_from t = Inr rt"
  by (auto simp: stream_code_def RecordType_try_from_def)

lemma with_header_total:
  assumes "stream_type (rtype h)"
  shows "\<exists>ro self rest. RecordReader_with_header h data = Inr (ro, self, rest) \<and> reader_streams self"
proof -
  have ok: "\<exists>b. Record_parse_body payload (rtype h) = Inr b" if "length payload < 65536" for payload
    using that by (rule parse_body_stream [OF assms])
  have lt: "unat (content_length h) < 65536" by simp
  show ?thesis
  proof (cases rule: with_header_cases [of data h])
    case fragment
    with lt have "length data < 65536" by (blast intro: less_trans)
    from ok [OF this] obtain b where "Record_parse_body data (rtype h) = Inr b" ..
    with fragment assms show ?thesis by (simp add: with_header_fragment reader_streams_def)
  next
    case (no_padding payload rest)
    with lt ok [of payload] assms show ?thesis
      by (force simp: with_header_no_padding reader_streams_def)
  next
    case (complete payload pad rest)
    with lt ok [of payload] show ?thesis
      by (force simp: with_header_complete reader_streams_def)
  qed (use assms in \<open>simp_all add: with_header_starved with_header_wait_padding reader_streams_def\<close>)
qed

lemma scan_8_head:
  assumes "8 \<le> length data"
  shows "Head (data ! 1) \<in> set (snd (wire_scan (InHead []) data))"
proof -
  obtain v t r1 r0 l1 l0 p x r where d: "data = v # t # r1 # r0 # l1 # l0 # p # x # r"
    using length_8D [OF assms] by blast
  show ?thesis by (simp add: d split: prod.split)
qed

lemma read_total:
  assumes "reader_streams self" "stream_heads (snd (wire_scan (reader_abs self) data))"
  shows "\<exists>ro self' rest. RecordReader_read self data = Inr (ro, self', rest) \<and> reader_streams self'"
proof (cases "current self")
  case (Some h)
  with assms(1) with_header_total [of h data] show ?thesis
    by (simp add: RecordReader_read_def reader_streams_def)
next
  case None
  show ?thesis
  proof (cases "length data < 8")
    case True
    with None show ?thesis by (simp add: RecordReader_read_def reader_streams_def)
  next
    case False
    then have len: "8 \<le> length data" by simp
    with assms(2) None have code: "stream_code (data ! 1)"
      using scan_8_head [OF len] by (auto simp: reader_abs_def stream_heads_def)
    from len show ?thesis
    proof (cases rule: Header_parse_cases)
      case (ok h x r)
      then have "data ! 1 = RecordType_code (rtype h)" by (simp add: header_bytes_def)
      with code have "stream_type (rtype h)" by (simp add: stream_code_type)
      from with_header_total [OF this, of r] ok False None show ?thesis
        by (simp add: RecordReader_read_def)
    next
      case (bad t)
      with code stream_code_known [of t] show ?thesis by auto
    qed
  qed
qed

lemma drain_total:
  "reader_streams self \<Longrightarrow> stream_heads (snd (wire_scan (reader_abs self) data)) \<Longrightarrow>
   \<exists>rs self' rest. RecordReader_drain self data = Inr (rs, self', rest) \<and> reader_streams self'"
proof (induction self data rule: RecordReader_drain.induct)
  case (1 self data)
  from read_total [OF "1.prems"] obtain ro self1 data1 where
    r: "RecordReader_read self data = Inr (ro, self1, data1)" "reader_streams self1" by blast
  show ?case
  proof (cases ro)
    case None
    with r show ?thesis by (auto simp: drain_None)
  next
    case (Some rec')
    from read_sound [OF r(1)] obtain used es where
      u: "data = used @ data1" "wire_scan (reader_abs self) used = (reader_abs self1, es)" by blast
    then have "stream_heads (snd (wire_scan (reader_abs self1) data1))"
      using "1.prems"(2) by (simp add: wire_scan_append split: prod.splits)
    from "1.IH" [OF r(1) refl Some refl r(2) this] r Some show ?thesis
      by (auto simp: drain_Some)
  qed
qed

section \<open>Any division of the stream into pieces\<close>

text \<open>
  The reader's caller hands over what it has, keeps what \<open>read\<close> left, and comes back with more
  bytes behind it.
\<close>

fun RecordReader_feed :: "RecordReader \<Rightarrow> bytes \<Rightarrow> bytes list \<Rightarrow> panic + Record list \<times> RecordReader \<times> bytes" where
  "RecordReader_feed self left [] = Inr ([], self, left)"
| "RecordReader_feed self left (chunk # chunks) =
     rbind (RecordReader_drain self (left @ chunk)) (\<lambda>(rs, self, left).
     rbind (RecordReader_feed self left chunks) (\<lambda>(rs', self, left). Inr (rs @ rs', self, left)))"

lemma feed_sound:
  "RecordReader_feed self left chunks = Inr (rs, self', left') \<Longrightarrow>
   snd (wire_scan (reader_abs self) left) = [] \<Longrightarrow>
   \<exists>used es. left @ concat chunks = used @ left' \<and>
     wire_scan (reader_abs self) used = (reader_abs self', es) \<and>
     stream_content es = concat (map record_content rs) \<and>
     snd (wire_scan (reader_abs self') left') = []"
proof (induction chunks arbitrary: self left rs)
  case Nil
  then show ?case by auto
next
  case (Cons chunk chunks)
  from Cons.prems(1) obtain rs1 self1 left1 rs2 where
    d: "RecordReader_drain self (left @ chunk) = Inr (rs1, self1, left1)" and
    f: "RecordReader_feed self1 left1 chunks = Inr (rs2, self', left')" and rs: "rs = rs1 @ rs2"
    by (auto simp: rbind_Inr_iff)
  from drain_sound [OF d] obtain used1 es1 where 1: "left @ chunk = used1 @ left1"
    "wire_scan (reader_abs self) used1 = (reader_abs self1, es1)"
    "stream_content es1 = concat (map record_content rs1)"
    "snd (wire_scan (reader_abs self1) left1) = []" by blast
  from Cons.IH [OF f 1(4)] obtain used2 es2 where 2: "left1 @ concat chunks = used2 @ left'"
    "wire_scan (reader_abs self1) used2 = (reader_abs self', es2)"
    "stream_content es2 = concat (map record_content rs2)"
    "snd (wire_scan (reader_abs self') left') = []" by blast
  have "left @ concat (chunk # chunks) = (used1 @ used2) @ left'"
    using 1(1) 2(1) by (simp flip: append_assoc) (simp add: 2(1))
  with 1 2 rs wire_scan_append2 [OF 1(2) 2(2)] show ?case
    by (intro exI [of _ "used1 @ used2"] exI [of _ "es1 @ es2"]) simp
qed

lemma feed_total:
  "reader_streams self \<Longrightarrow> stream_heads (snd (wire_scan (reader_abs self) (left @ concat chunks))) \<Longrightarrow>
   \<exists>rs self' left'. RecordReader_feed self left chunks = Inr (rs, self', left')"
proof (induction chunks arbitrary: self left)
  case Nil
  then show ?case by simp
next
  case (Cons chunk chunks)
  have "stream_heads (snd (wire_scan (reader_abs self) (left @ chunk)))"
    using Cons.prems(2) wire_scan_append [of "reader_abs self" "left @ chunk" "concat chunks"]
    by (simp split: prod.splits)
  from drain_total [OF Cons.prems(1) this] obtain rs1 self1 left1 where
    d: "RecordReader_drain self (left @ chunk) = Inr (rs1, self1, left1)" "reader_streams self1" by blast
  from drain_sound [OF d(1)] obtain used es where u: "left @ chunk = used @ left1"
    "wire_scan (reader_abs self) used = (reader_abs self1, es)" by blast
  then have e: "left @ concat (chunk # chunks) = used @ left1 @ concat chunks"
    by (simp flip: append_assoc)
  from Cons.prems(2) [unfolded e] u(2) have "stream_heads (snd (wire_scan (reader_abs self1) (left1 @ concat chunks)))"
    by (simp add: wire_scan_append [of _ used] split: prod.splits)
  from Cons.IH [OF d(2) this] d show ?case by auto
qed

section \<open>Whole records\<close>

text \<open>Between two records and with the next one completely there, \<open>read\<close> is \<open>Record::read\<close>.\<close>

lemma read_whole:
  assumes "length payload = unat (content_length h)" "length pad = unat (padding_length h)"
  shows "RecordReader_read RecordReader_new (header_bytes h x @ payload @ pad @ rest) =
    rbind (Record_parse_body payload (rtype h)) (\<lambda>b.
      Inr (Some \<lparr>header = h, body = b\<rparr>, RecordReader_new, rest))"
  using with_header_complete [OF assms, of rest]
  by (simp add: RecordReader_read_def RecordReader_new_def)

lemma read_whole_record:
  assumes "Record_read data = Inr (Some r, rest)"
  shows "RecordReader_read RecordReader_new data = Inr (Some r, RecordReader_new, rest)"
proof -
  from Record_read_SomeD [OF assms] obtain x payload pad where
    d: "data = header_bytes (header r) x @ payload @ pad @ rest"
    "length payload = unat (content_length (header r))"
    "length pad = unat (padding_length (header r))"
    "Record_parse_body payload (rtype (header r)) = Inr (body r)" by blast
  from read_whole [OF d(2,3), of x rest] d(4) show ?thesis by (simp add: d(1))
qed

text \<open>
  An \<open>EndRequest\<close> body is decoded as soon as some of it is there, so a piece of it panics, and so
  does the empty record that is made up when its padding arrives later.
\<close>

lemma read_end_request_fragment:
  assumes "rtype h = RecordType.EndRequest" "content_length h = 8" "data \<noteq> []" "length data < 8"
  shows "\<exists>e. RecordReader_read \<lparr>current = Some h\<rparr> data = Inl e"
proof -
  from EndRequestBody_parse_short [OF assms(4)] obtain e where "EndRequestBody_parse data = Inl e" ..
  moreover have "unat (content_length h) = 8" by (simp add: assms(2))
  ultimately show ?thesis
    using with_header_fragment [of data h] assms
    by (simp add: RecordReader_read_def Record_parse_body_def)
qed

lemma read_end_request_padding:
  assumes "rtype h = RecordType.EndRequest" "content_length h = 0"
    and "unat (padding_length h) \<le> length data"
  shows "RecordReader_read \<lparr>current = Some h\<rparr> data = Inl BufUnderflow"
proof -
  let ?p = "unat (padding_length h)"
  have "RecordReader_with_header h ([] @ take ?p data @ drop ?p data) = Inl BufUnderflow"
    using assms by (subst with_header_complete)
      (simp_all add: Record_parse_body_def EndRequestBody_parse_def)
  then show ?thesis by (simp add: RecordReader_read_def)
qed

section \<open>Properties\<close>

text \<open>
  C19. However a stream of STDOUT, STDERR and name-value records is divided into pieces, the
  incremental reader neither panics nor stops early: the records it returns carry, per type and
  request id and in order, exactly the content bytes that a byte-at-a-time scan of the undivided
  stream finds.
\<close>

theorem RecordReader_any_pieces:
  assumes "stream_heads (snd (wire_scan (InHead []) (concat chunks)))"
  shows "\<exists>rs self left. RecordReader_feed RecordReader_new [] chunks = Inr (rs, self, left) \<and>
    concat (map record_content rs) = stream_content (snd (wire_scan (InHead []) (concat chunks)))"
proof -
  have n: "reader_abs RecordReader_new = InHead []" "reader_streams RecordReader_new"
    by (simp_all add: RecordReader_new_def reader_streams_def)
  from feed_total [OF n(2), of "[]" chunks] assms obtain rs self left where
    f: "RecordReader_feed RecordReader_new [] chunks = Inr (rs, self, left)" by (auto simp: n(1))
  from feed_sound [OF this] obtain used es where u: "concat chunks = used @ left"
    "wire_scan (InHead []) used = (reader_abs self, es)"
    "stream_content es = concat (map record_content rs)" "snd (wire_scan (reader_abs self) left) = []"
    by (auto simp: n(1))
  then have "snd (wire_scan (InHead []) (concat chunks)) = es"
    by (simp add: snd_wire_scan_append)
  with f u(3) show ?thesis by auto
qed

theorem RecordReader_any_pieces_witness:
  "\<exists>rs self left. RecordReader_feed RecordReader_new []
      [[1, 6, 0, 1], [0, 3, 1, 0, 65], [], [66, 67, 0]] = Inr (rs, self, left) \<and>
    concat (map record_content rs) = [(6, 1, 65), (6, 1, 66), (6, 1, 67)]"
proof -
  let ?cs = "[[1, 6, 0, 1], [0, 3, 1, 0, 65], [], [66, 67, 0]]"
  have e: "snd (wire_scan (InHead []) (concat ?cs)) =
      [Head 6, Content 6 1 65, Content 6 1 66, Content 6 1 67]"
    by (simp add: be16_def in_body_def)
  then have "stream_heads (snd (wire_scan (InHead []) (concat ?cs)))"
    by (simp only: e) (simp add: stream_heads_def stream_code_def)
  from RecordReader_any_pieces [OF this] show ?thesis
    by (simp only: e) (simp add: stream_code_def stream_content_def content_of_def)
qed

text \<open>
  C22. Between two records and with the next record completely in the buffer, the incremental
  reader returns what \<open>Record::read\<close> returns, consumes the same bytes and is again between two
  records.
\<close>

theorem RecordReader_reads_whole:
  assumes "Record_read data = Inr (Some r, rest)"
  shows "RecordReader_read RecordReader_new data = Inr (Some r, RecordReader_new, rest)"
  using assms by (rule read_whole_record)

theorem RecordReader_reads_whole_witness:
  "RecordReader_read RecordReader_new [1, 7, 0, 2, 0, 1, 0, 0, 33] =
    Inr (Some \<lparr>header = \<lparr>version = 1, rtype = RecordType.StdErr, request_id = 2, content_length = 1,
      padding_length = 0\<rparr>, body = Body.StdErr [33]\<rparr>, RecordReader_new, [])"
  by (rule RecordReader_reads_whole)
    (simp add: Record_read_def Header_parse_8 RecordType_try_from_def be16_def advance_def
      slice_def Record_parse_body_def)

text \<open>
  C25. A call of \<open>read\<close> that returns a record makes progress: it consumes input, or it finishes the
  record that was pending. The loops over \<open>read\<close> therefore end.
\<close>

theorem RecordReader_read_terminates:
  assumes "RecordReader_read self data = Inr (Some r, self', rest)"
  shows "length rest < length data \<or> (rest = data \<and> (\<exists>h. current self = Some h) \<and> current self' = None)"
proof -
  from read_sound [OF assms] obtain used where u: "data = used @ rest" by blast
  from RecordReader_read_progress [OF assms] u show ?thesis
    by (cases used) (auto simp: reader_size_def split: option.splits)
qed

theorem RecordReader_read_terminates_witness:
  "length ([] :: bytes) < length [65 :: u8] \<or> ([] :: bytes) = [65] \<and>
     (\<exists>h. current \<lparr>current = Some \<lparr>version = 1, rtype = RecordType.StdOut, request_id = 1,
       content_length = 1, padding_length = 0\<rparr>\<rparr> = Some h) \<and> current RecordReader_new = None"
  by (rule RecordReader_read_terminates [where r = "\<lparr>header = \<lparr>version = 1,
      rtype = RecordType.StdOut, request_id = 1, content_length = 1, padding_length = 0\<rparr>,
      body = Body.StdOut [65]\<rparr>"])
    (simp add: RecordReader_read_def RecordReader_with_header_def RecordReader_cut_def slice_def
      advance_def Record_parse_body_def RecordReader_new_def)

text \<open>
  C27. The reader is not safe against every division of a stream: when a read ends inside the body
  of an \<open>EndRequest\<close> record the reader panics, although the rest of the record may follow.
\<close>

theorem RecordReader_split_EndRequest_panics:
  assumes "0 < k" "k < 8"
  shows "\<exists>e. RecordReader_feed RecordReader_new []
    [Header_write_into (Header_new RecordType.EndRequest rid 8), take k (replicate 8 0), drop k (replicate 8 0)]
    = Inl e"
proof -
  let ?h = "Header_new RecordType.EndRequest rid 8"
  have u: "unat (content_length ?h) = 8" by (simp add: Header_new_def)
  then have "RecordReader_read RecordReader_new (header_bytes ?h 0) =
      Inr (None, \<lparr>current = Some ?h\<rparr>, [])"
    using Header_parse_bytes [of ?h 0 "[]"] with_header_starved [of ?h]
    by (simp add: RecordReader_read_def RecordReader_new_def)
  moreover obtain e where "RecordReader_read \<lparr>current = Some ?h\<rparr> (take k (replicate 8 0)) = Inl e"
    using read_end_request_fragment [of ?h "take k (replicate 8 0)"] assms
    by (auto simp: Header_new_def)
  ultimately show ?thesis
    by (auto simp: Header_write_into_bytes drain_None drain_panic)
qed

theorem RecordReader_split_EndRequest_panics_witness:
  "\<exists>e. RecordReader_feed RecordReader_new []
    [Header_write_into (Header_new RecordType.EndRequest 1 8), take 3 (replicate 8 0), drop 3 (replicate 8 0)]
    = Inl e"
  by (rule RecordReader_split_EndRequest_panics) simp_all

end
