(* ===== verification/Codec.thy ===== *)
theory Codec
  imports Io Fcgi_Reader
begin

text \<open>
  \<open>src/codec.rs\<close>: \<open>FCGIWriter\<close> and \<open>NameValuePairWriter\<close>, the writing half of the protocol.

  Every function is a computation over the transport of theory \<open>Io\<close>. \<open>uninit\<close> is what the
  uninitialised memory behind \<open>set_len\<close> holds: the eight bytes that are reserved for a header.
\<close>

section \<open>The items and the buffer\<close>

datatype FCGIType =
    BeginRequest u16 FastCGIRole u8
  | AbortRequest u16
  | EndRequest u16 u32 u8
  | Params u16 "NameValuePair list"
  | STDIN u16 bytes
  | STDOUT u16 bytes
  | STDERR u16 bytes
  | DATA u16 bytes
  | GetValues "NameValuePair list"
  | GetValuesResult "NameValuePair list"

definition BUF_LEN :: nat where
  "BUF_LEN = 0xFFFF - 7 + 8"

definition reserve_header :: "(nat \<Rightarrow> u8) \<Rightarrow> bytes" where
  "reserve_header uninit = map uninit [0..<HEADER_LEN]"

text \<open>\<open>header.write_into(&mut &mut buf[0..HEADER_LEN])\<close>\<close>

definition put_header :: "Header \<Rightarrow> bytes \<Rightarrow> bytes" where
  "put_header h buf = Header_write_into h @ drop HEADER_LEN buf"

section \<open>Streams\<close>

text \<open>
  \<open>append_to_stream\<close>: whenever buffer and value together exceed \<open>BUF_LEN\<close>, a full record goes
  out and the buffer is empty again, but for the header. A buffer shorter than a header or longer
  than \<open>BUF_LEN\<close> would panic (slice, subtraction).
\<close>

function FCGIWriter_append_to_stream ::
  "(nat \<Rightarrow> u8) \<Rightarrow> bytes \<Rightarrow> bytes \<Rightarrow> u16 \<Rightarrow> RecordType \<Rightarrow> bytes iom" where
  "FCGIWriter_append_to_stream uninit val buf rid rt =
     (if length buf + length val > BUF_LEN then
        if length buf > BUF_LEN then io_fail (Panicked SubOverflow)
        else if length buf < HEADER_LEN then io_fail (Panicked SliceOutOfRange)
        else
          io_bind (FCGIWriter_write_whole_buf
            (put_header (Header_new rt rid (of_nat (BUF_LEN - HEADER_LEN))) buf)) (\<lambda>_.
          io_bind (FCGIWriter_write_whole_buf (take (BUF_LEN - length buf) val)) (\<lambda>_.
            FCGIWriter_append_to_stream uninit (drop (BUF_LEN - length buf) val)
              (reserve_header uninit) rid rt))
      else io_return (buf @ val))"
  by pat_completeness auto
termination
  by (relation "measure (\<lambda>(uninit, val, buf, rid, rt). length val + length buf)")
    (auto simp: BUF_LEN_def reserve_header_def HEADER_LEN_def)

declare FCGIWriter_append_to_stream.simps [simp del]

definition FCGIWriter_end_stream :: "bytes \<Rightarrow> u16 \<Rightarrow> RecordType \<Rightarrow> unit iom" where
  "FCGIWriter_end_stream buf rid rt =
     (if length buf < HEADER_LEN then io_fail (Panicked SubOverflow)
      else
        io_bind
          (if length buf - HEADER_LEN > 0 then
             let last_head = Header_new rt rid (of_nat (length buf - HEADER_LEN));
                 pad = unat (Header_get_padding last_head);
                 buf = put_header last_head buf in
             io_bind (FCGIWriter_write_whole_buf buf) (\<lambda>_. FCGIWriter_write_whole_buf (take pad buf))
           else io_return ())
          (\<lambda>_. FCGIWriter_write_whole_buf (Header_write_into (Header_new rt rid 0))))"

definition FCGIWriter_encode_data :: "(nat \<Rightarrow> u8) \<Rightarrow> u16 \<Rightarrow> RecordType \<Rightarrow> bytes \<Rightarrow> unit iom" where
  "FCGIWriter_encode_data uninit rid rt data =
     io_bind (FCGIWriter_append_to_stream uninit data (reserve_header uninit) rid rt) (\<lambda>buf.
       FCGIWriter_end_stream buf rid rt)"

section \<open>Name-value pairs\<close>

text \<open>\<open>NameValuePairWriter\<close>: the writer it borrows is the transport of the computation.\<close>

record NameValuePairWriter =
  w_request_id :: u16
  w_rtype :: RecordType
  w_buf :: bytes

definition FCGIWriter_kv_stream :: "(nat \<Rightarrow> u8) \<Rightarrow> u16 \<Rightarrow> RecordType \<Rightarrow> NameValuePairWriter" where
  "FCGIWriter_kv_stream uninit rid rt =
     \<lparr>w_request_id = rid, w_rtype = rt, w_buf = reserve_header uninit\<rparr>"

definition NameValuePairWriter_flush :: "NameValuePairWriter \<Rightarrow> unit iom" where
  "NameValuePairWriter_flush self = FCGIWriter_end_stream (w_buf self) (w_request_id self) (w_rtype self)"

definition NameValuePairWriter_append ::
  "(nat \<Rightarrow> u8) \<Rightarrow> bytes \<Rightarrow> NameValuePairWriter \<Rightarrow> NameValuePairWriter iom" where
  "NameValuePairWriter_append uninit val self =
     io_bind (FCGIWriter_append_to_stream uninit val (w_buf self) (w_request_id self) (w_rtype self))
       (\<lambda>buf. io_return (self\<lparr>w_buf := buf\<rparr>))"

definition NameValuePairWriter_add_kv ::
  "(nat \<Rightarrow> u8) \<Rightarrow> bytes \<Rightarrow> bytes \<Rightarrow> NameValuePairWriter \<Rightarrow> NameValuePairWriter iom" where
  "NameValuePairWriter_add_kv uninit name val self =
     (let ln = length name; lv = length val in
      if ln > 0x7f \<and> ln > 0x7fffffff then io_fail (Panicked LengthTooBig)
      else
        let bn = (if ln > 0x7f then put_u32 (of_nat (ln OR 0x80000000)) else [of_nat ln]) in
        if lv > 0x7f \<and> lv > 0x7fffffff then io_fail (Panicked LengthTooBig)
        else
          let bv = (if lv > 0x7f then put_u32 (of_nat (lv OR 0x80000000)) else [of_nat lv]) in
          io_bind (NameValuePairWriter_append uninit (bn @ bv) self) (\<lambda>self.
          io_bind (NameValuePairWriter_append uninit name self) (\<lambda>self.
            NameValuePairWriter_append uninit val self)))"

definition NameValuePairWriter_add ::
  "(nat \<Rightarrow> u8) \<Rightarrow> NameValuePair \<Rightarrow> NameValuePairWriter \<Rightarrow> NameValuePairWriter iom" where
  "NameValuePairWriter_add uninit pair self =
     NameValuePairWriter_add_kv uninit (name_data pair) (value_data pair) self"

definition NameValuePairWriter_extend ::
  "(nat \<Rightarrow> u8) \<Rightarrow> (bytes \<times> bytes) list \<Rightarrow> NameValuePairWriter \<Rightarrow> NameValuePairWriter iom" where
  "NameValuePairWriter_extend uninit iter self =
     io_fold (\<lambda>(k, v) self. NameValuePairWriter_add_kv uninit k v self) iter self"

definition FCGIWriter_encode_kvp ::
  "(nat \<Rightarrow> u8) \<Rightarrow> u16 \<Rightarrow> RecordType \<Rightarrow> NameValuePair list \<Rightarrow> unit iom" where
  "FCGIWriter_encode_kvp uninit rid rt p =
     io_bind (io_fold (NameValuePairWriter_add uninit) p (FCGIWriter_kv_stream uninit rid rt))
       NameValuePairWriter_flush"

section \<open>Items\<close>

definition FCGIWriter_encode :: "(nat \<Rightarrow> u8) \<Rightarrow> FCGIType \<Rightarrow> unit iom" where
  "FCGIWriter_encode uninit item =
     (case item of
        FCGIType.BeginRequest rid role' flags' \<Rightarrow>
          FCGIWriter_write_whole_buf
            (Header_write_into (Header_new RecordType.BeginRequest rid 8) @
             put_u16 (FastCGIRole_code role') @ [flags'] @ replicate 5 0)
      | FCGIType.AbortRequest rid \<Rightarrow>
          FCGIWriter_write_whole_buf (Header_write_into (Header_new RecordType.AbortRequest rid 0))
      | FCGIType.EndRequest rid app st \<Rightarrow>
          FCGIWriter_write_whole_buf
            (Header_write_into (Header_new RecordType.EndRequest rid 8) @
             put_u32 app @ [st] @ replicate 3 0)
      | FCGIType.Params rid p \<Rightarrow> FCGIWriter_encode_kvp uninit rid RecordType.Params p
      | FCGIType.STDIN rid data \<Rightarrow> FCGIWriter_encode_data uninit rid RecordType.StdIn data
      | FCGIType.STDOUT rid data \<Rightarrow> FCGIWriter_encode_data uninit rid RecordType.StdOut data
      | FCGIType.STDERR rid data \<Rightarrow> FCGIWriter_encode_data uninit rid RecordType.StdErr data
      | FCGIType.DATA rid data \<Rightarrow> FCGIWriter_encode_data uninit rid RecordType.Data data
      | FCGIType.GetValues p \<Rightarrow> FCGIWriter_encode_kvp uninit MGMT_REQUEST_ID RecordType.GetValues p
      | FCGIType.GetValuesResult p \<Rightarrow>
          FCGIWriter_encode_kvp uninit MGMT_REQUEST_ID RecordType.GetValuesResult p)"

section \<open>Bodies that arrive in pieces\<close>

text \<open>
  A body is the sequence of what its \<open>data()\<close> future yields, errors included, to the end of the
  stream. \<open>data_stream\<close> skips the errors; a body shorter than announced aborts the request.
\<close>

fun FCGIWriter_data_loop ::
  "(nat \<Rightarrow> u8) \<Rightarrow> ('e + bytes) list \<Rightarrow> u16 \<Rightarrow> RecordType \<Rightarrow> nat \<Rightarrow> bytes \<Rightarrow> (nat \<times> bytes) iom" where
  "FCGIWriter_data_loop uninit [] rid rt togo buf = io_return (togo, buf)"
| "FCGIWriter_data_loop uninit (Inl e # chunks) rid rt togo buf =
     FCGIWriter_data_loop uninit chunks rid rt togo buf"
| "FCGIWriter_data_loop uninit (Inr val # chunks) rid rt togo buf =
     io_bind (FCGIWriter_append_to_stream uninit val buf rid rt) (\<lambda>buf.
       FCGIWriter_data_loop uninit chunks rid rt (togo - length val) buf)"

definition FCGIWriter_data_stream ::
  "(nat \<Rightarrow> u8) \<Rightarrow> ('e + bytes) list \<Rightarrow> u16 \<Rightarrow> RecordType \<Rightarrow> nat \<Rightarrow> unit iom" where
  "FCGIWriter_data_stream uninit chunks rid rt togo =
     io_bind (FCGIWriter_data_loop uninit chunks rid rt togo (reserve_header uninit)) (\<lambda>(togo, buf).
       if togo > 0 then
         io_bind (FCGIWriter_encode uninit (FCGIType.AbortRequest rid)) (\<lambda>_.
           io_fail (Io (IoError ConnectionAborted ''body too short'')))
       else FCGIWriter_end_stream buf rid rt)"

function FCGIWriter_flush_data_chunk :: "bytes \<Rightarrow> u16 \<Rightarrow> RecordType \<Rightarrow> unit iom" where
  "FCGIWriter_flush_data_chunk data rid rt =
     (if length data > BUF_LEN - HEADER_LEN then
        io_bind (FCGIWriter_write_whole_buf
          (Header_write_into (Header_new rt rid (of_nat (BUF_LEN - HEADER_LEN))))) (\<lambda>_.
        io_bind (FCGIWriter_write_whole_buf (take (BUF_LEN - HEADER_LEN) data)) (\<lambda>_.
          FCGIWriter_flush_data_chunk (drop (BUF_LEN - HEADER_LEN) data) rid rt))
      else
        let last_head = Header_new rt rid (of_nat (length data));
            pad = unat (Header_get_padding last_head);
            buf = Header_write_into last_head in
        if data = [] then FCGIWriter_write_whole_buf buf
        else
          io_bind (FCGIWriter_write_whole_buf buf) (\<lambda>_.
          io_bind (FCGIWriter_write_whole_buf data) (\<lambda>_.
            FCGIWriter_write_whole_buf (take pad buf))))"
  by pat_completeness auto
termination
  by (relation "measure (\<lambda>(data, rid, rt). length data)") (auto simp: BUF_LEN_def HEADER_LEN_def)

declare FCGIWriter_flush_data_chunk.simps [simp del]

end
