(* ===== verification/Codec_Correct.thy ===== *)
theory Codec_Correct
  imports Codec
begin

text \<open>
  \<open>src/codec.rs\<close>: what the writer sends. The wire form of a stream (\<open>stream_wire\<close>) is defined
  without buffers; \<open>append_to_stream\<close> and \<open>end_stream\<close> keep an invariant that ties the buffer to
  it, both writers interpret the locale \<open>stream_writer\<close> with it, and every item is shown to go out
  in its wire form, on every transport. At the end the reader of \<open>src/fastcgi.rs\<close> meets the
  writer: what one sends, the other delivers.
\<close>

section \<open>The wire form of a stream\<close>

text \<open>
  The specification: a payload is cut into pieces of \<open>MAX_CHUNK\<close> bytes, each is one record, and
  an empty record ends the stream. The padding repeats the first bytes of the record's header.
\<close>

definition MAX_CHUNK :: nat where
  "MAX_CHUNK = 65528"

definition frame :: "RecordType \<Rightarrow> u16 \<Rightarrow> bytes \<Rightarrow> bytes" where
  "frame rt rid p =
     (let h = Header_new rt rid (of_nat (length p)) in
      Header_write_into h @ p @ take (unat (padding_length h)) (Header_write_into h))"

function chunks_of :: "bytes \<Rightarrow> bytes list" where
  "chunks_of p = (if p = [] then [] else take MAX_CHUNK p # chunks_of (drop MAX_CHUNK p))"
  by pat_completeness auto
termination
  by (relation "measure length") (auto simp: MAX_CHUNK_def)

declare chunks_of.simps [simp del]

definition frames :: "RecordType \<Rightarrow> u16 \<Rightarrow> bytes \<Rightarrow> bytes" where
  "frames rt rid p = concat (map (frame rt rid) (chunks_of p))"

definition stream_wire :: "RecordType \<Rightarrow> u16 \<Rightarrow> bytes \<Rightarrow> bytes" where
  "stream_wire rt rid p = frames rt rid p @ frame rt rid []"

lemma BUF_LEN_simps: "BUF_LEN = 65536" "HEADER_LEN = 8" "BUF_LEN - HEADER_LEN = MAX_CHUNK"
  by (simp_all add: BUF_LEN_def HEADER_LEN_def MAX_CHUNK_def)

lemma length_reserve_header [simp]: "length (reserve_header uninit) = 8"
  by (simp add: reserve_header_def HEADER_LEN_def)

lemma chunks_of_Nil [simp]: "chunks_of [] = []"
  by (simp add: chunks_of.simps)

lemma chunks_of_small: "p \<noteq> [] \<Longrightarrow> length p \<le> MAX_CHUNK \<Longrightarrow> chunks_of p = [p]"
  by (simp add: chunks_of.simps [of p])

lemma chunks_of_full: "length q = MAX_CHUNK \<Longrightarrow> chunks_of (q @ p) = q # chunks_of p"
  by (subst chunks_of.simps) (auto simp: MAX_CHUNK_def)

lemma concat_chunks_of: "concat (chunks_of p) = p"
  by (induction p rule: chunks_of.induct) (subst chunks_of.simps, simp)

lemma chunks_of_bounds: "c \<in> set (chunks_of p) \<Longrightarrow> c \<noteq> [] \<and> length c \<le> MAX_CHUNK"
proof (induction p rule: chunks_of.induct)
  case (1 p)
  show ?case
  proof (cases "p = []")
    case True
    with "1.prems" show ?thesis by simp
  next
    case False
    with "1.prems" have "c = take MAX_CHUNK p \<or> c \<in> set (chunks_of (drop MAX_CHUNK p))"
      by (subst (asm) chunks_of.simps) simp
    with "1.IH" False show ?thesis by (auto simp: MAX_CHUNK_def)
  qed
qed

text \<open>Records of the full size have no padding; neither has the empty one.\<close>

lemma frame_full:
  "length p = MAX_CHUNK \<Longrightarrow>
     frame rt rid p = Header_write_into (Header_new rt rid (of_nat (BUF_LEN - HEADER_LEN))) @ p"
  by (simp add: frame_def BUF_LEN_simps Let_def Header_new_def MAX_CHUNK_def align_padding_0)

lemma frame_Nil: "frame rt rid [] = Header_write_into (Header_new rt rid 0)"
  by (simp add: frame_def Let_def Header_new_def align_padding_0)

lemma frames_full: "length q = MAX_CHUNK \<Longrightarrow> frames rt rid (q @ p) = frame rt rid q @ frames rt rid p"
  by (simp add: frames_def chunks_of_full)

lemma frames_small: "p \<noteq> [] \<Longrightarrow> length p \<le> MAX_CHUNK \<Longrightarrow> frames rt rid p = frame rt rid p"
  by (simp add: frames_def chunks_of_small)

lemma frames_Nil [simp]: "frames rt rid [] = []"
  by (simp add: frames_def)

text \<open>The wire form is a multiple of eight bytes long.\<close>

lemma length_frame:
  assumes "length p < 65536"
  shows "length (frame rt rid p) mod 8 = 0"
proof -
  let ?pad = "unat (align_padding (of_nat (length p)))"
  have "?pad < 8" by (rule align_padding_lt)
  then have "length (frame rt rid p) = 8 + (length p + ?pad)"
    by (simp add: frame_def Let_def Header_new_def)
  moreover have "(length p + ?pad) mod 8 = 0"
    using align_padding_sum [of "of_nat (length p)"] assms by simp
  ultimately show ?thesis by simp
qed

section \<open>What a reader sees in it\<close>

lemma scan_frame:
  assumes "length p < 65536"
  shows "wire_scan (InHead []) (frame rt rid p) =
    (InHead [], Head (RecordType_code rt) # map (Content (RecordType_code rt) rid) p)"
proof -
  let ?h = "Header_new rt rid (of_nat (length p))"
  let ?pad = "take (unat (padding_length ?h)) (Header_write_into ?h)"
  have l: "length p = unat (content_length ?h)" using assms by (simp add: Header_new_def)
  have "length ?pad = unat (padding_length ?h)"
    using align_padding_lt [of "of_nat (length p)"] by (simp add: Header_new_def)
  from scan_record [OF l this] show ?thesis
    by (simp add: frame_def Let_def Header_write_into_bytes wire_scan_append scan_header_bytes)
      (simp add: Header_new_def)
qed

lemma MAX_CHUNK_lt: "length p \<le> MAX_CHUNK \<Longrightarrow> length p < 65536"
  by (simp add: MAX_CHUNK_def)

lemma scan_frames_concat:
  "(\<forall>c \<in> set cs. length c < 65536) \<Longrightarrow>
     wire_scan (InHead []) (concat (map (frame rt rid) cs)) =
       (InHead [], concat (map (\<lambda>c. Head (RecordType_code rt) # map (Content (RecordType_code rt) rid) c) cs))"
  by (induction cs) (simp_all add: wire_scan_append scan_frame)


section \<open>The buffer between two appends\<close>

text \<open>
  \<open>stream_buf rt rid buf p out\<close>: of the payload \<open>p\<close> taken so far, whole chunks are in \<open>out\<close>
  and the rest is in \<open>buf\<close>, behind the room for its header. \<open>stream_inv\<close> adds that a chunk only
  goes out when more payload follows, which is what keeps the last record from being empty.
\<close>

definition stream_buf :: "RecordType \<Rightarrow> u16 \<Rightarrow> bytes \<Rightarrow> bytes \<Rightarrow> bytes \<Rightarrow> bool" where
  "stream_buf rt rid buf p out \<longleftrightarrow> HEADER_LEN \<le> length buf \<and> length buf \<le> BUF_LEN \<and>
     (\<exists>cs. p = concat cs @ drop HEADER_LEN buf \<and> list_all (\<lambda>c. length c = MAX_CHUNK) cs \<and>
       out = concat (map (frame rt rid) cs))"

definition stream_inv :: "RecordType \<Rightarrow> u16 \<Rightarrow> bytes \<Rightarrow> bytes \<Rightarrow> bytes \<Rightarrow> bool" where
  "stream_inv rt rid buf p out \<longleftrightarrow> stream_buf rt rid buf p out \<and>
     (length buf = HEADER_LEN \<longrightarrow> out = [])"

lemma stream_inv_reserve: "stream_inv rt rid (reserve_header uninit) [] []"
  by (auto simp: stream_inv_def stream_buf_def BUF_LEN_simps intro!: exI [of _ "[]"])

lemma append_fits: "length buf + length val \<le> BUF_LEN \<Longrightarrow>
    FCGIWriter_append_to_stream uninit val buf rid rt = io_return (buf @ val)"
  by (simp add: FCGIWriter_append_to_stream.simps)

lemma append_overflows:
  assumes "BUF_LEN < length buf + length val" "HEADER_LEN \<le> length buf" "length buf \<le> BUF_LEN"
  shows "FCGIWriter_append_to_stream uninit val buf rid rt =
    io_bind (FCGIWriter_write_whole_buf
      (put_header (Header_new rt rid (of_nat (BUF_LEN - HEADER_LEN))) buf)) (\<lambda>_.
    io_bind (FCGIWriter_write_whole_buf (take (BUF_LEN - length buf) val)) (\<lambda>_.
      FCGIWriter_append_to_stream uninit (drop (BUF_LEN - length buf) val)
        (reserve_header uninit) rid rt))"
  using assms by (subst FCGIWriter_append_to_stream.simps) simp

lemma stream_buf_put:
  "stream_buf rt rid buf p out \<Longrightarrow> length buf + length val \<le> BUF_LEN \<Longrightarrow>
     stream_buf rt rid (buf @ val) (p @ val) out"
  by (auto simp: stream_buf_def BUF_LEN_simps)

text \<open>A full record: the buffer's header is filled in, and the value completes the content.\<close>

lemma full_record:
  assumes "HEADER_LEN \<le> length buf" "length buf \<le> BUF_LEN" "BUF_LEN < length buf + length val"
  defines "n \<equiv> BUF_LEN - length buf"
  shows "put_header (Header_new rt rid (of_nat (BUF_LEN - HEADER_LEN))) buf @ take n val =
      frame rt rid (drop HEADER_LEN buf @ take n val)"
    and "length (drop HEADER_LEN buf @ take n val) = MAX_CHUNK"
proof -
  show len: "length (drop HEADER_LEN buf @ take n val) = MAX_CHUNK"
    using assms(1-3) by (simp add: n_def BUF_LEN_simps MAX_CHUNK_def)
  show "put_header (Header_new rt rid (of_nat (BUF_LEN - HEADER_LEN))) buf @ take n val =
      frame rt rid (drop HEADER_LEN buf @ take n val)"
    unfolding frame_full [OF len] by (simp add: put_header_def)
qed

lemma stream_buf_record:
  assumes "stream_buf rt rid buf p out" "BUF_LEN < length buf + length val"
  defines "n \<equiv> BUF_LEN - length buf"
  shows "stream_buf rt rid (reserve_header uninit) (p @ take n val)
    (out @ frame rt rid (drop HEADER_LEN buf @ take n val))"
proof -
  from assms(1) obtain cs where "p = concat cs @ drop HEADER_LEN buf"
    "list_all (\<lambda>c. length c = MAX_CHUNK) cs" "out = concat (map (frame rt rid) cs)"
    and l: "HEADER_LEN \<le> length buf" "length buf \<le> BUF_LEN" by (auto simp: stream_buf_def)
  with full_record(2) [OF l assms(2)] show ?thesis
    unfolding stream_buf_def n_def
    by (intro conjI exI [of _ "cs @ [drop HEADER_LEN buf @ take (BUF_LEN - length buf) val]"])
      (simp_all add: BUF_LEN_simps)
qed

lemma append_sends_buf:
  "stream_buf rt rid buf p out \<Longrightarrow> (length buf = HEADER_LEN \<longrightarrow> out = [] \<or> val \<noteq> []) \<Longrightarrow>
     \<exists>buf' bs. sends (FCGIWriter_append_to_stream uninit val buf rid rt) bs buf' \<and>
       stream_inv rt rid buf' (p @ val) (out @ bs)"
proof (induction "length val + length buf" arbitrary: val buf p out rule: less_induct)
  case less
  have l: "HEADER_LEN \<le> length buf" "length buf \<le> BUF_LEN"
    using less.prems(1) by (auto simp: stream_buf_def)
  show ?case
  proof (cases "length buf + length val \<le> BUF_LEN")
    case True
    with less.prems stream_buf_put [OF less.prems(1) True] l show ?thesis
      by (rule_tac exI [of _ "buf @ val"], rule_tac exI [of _ "[]"]) (auto simp: append_fits stream_inv_def
        simp flip: length_greater_0_conv)
  next
    case False
    then have gt: "BUF_LEN < length buf + length val" by simp
    let ?n = "BUF_LEN - length buf" and ?hd = "put_header (Header_new rt rid (of_nat (BUF_LEN - HEADER_LEN))) buf"
    let ?c = "drop HEADER_LEN buf @ take ?n val"
    have "\<exists>buf' bs. sends (FCGIWriter_append_to_stream uninit (drop ?n val) (reserve_header uninit) rid rt) bs buf' \<and>
        stream_inv rt rid buf' ((p @ take ?n val) @ drop ?n val) ((out @ frame rt rid ?c) @ bs)"
      using gt l by (intro less.hyps stream_buf_record [OF less.prems(1) gt]) (auto simp: BUF_LEN_simps)
    then obtain buf' bs where
      1: "sends (FCGIWriter_append_to_stream uninit (drop ?n val) (reserve_header uninit) rid rt) bs buf'"
      and 2: "stream_inv rt rid buf' (p @ val) (out @ frame rt rid ?c @ bs)" by auto
    have "sends (FCGIWriter_append_to_stream uninit val buf rid rt) (?hd @ take ?n val @ bs) buf'"
      unfolding append_overflows [OF gt l] by (rule sends_then sends_write 1)+
    then have "sends (FCGIWriter_append_to_stream uninit val buf rid rt) (frame rt rid ?c @ bs) buf'"
      using full_record(1) [OF l gt, of rt rid] by (simp flip: append_assoc)
    with 2 show ?thesis by blast
  qed
qed

text \<open>So an append keeps the invariant and takes the value as the next part of the payload.\<close>

lemma append_sends:
  "stream_inv rt rid buf p out \<Longrightarrow>
     \<exists>buf' bs. sends (FCGIWriter_append_to_stream uninit val buf rid rt) bs buf' \<and>
       stream_inv rt rid buf' (p @ val) (out @ bs)"
  by (rule append_sends_buf) (auto simp: stream_inv_def)

lemma end_stream_empty: "length buf = HEADER_LEN \<Longrightarrow>
    FCGIWriter_end_stream buf rid rt = io_bind (io_return ()) (\<lambda>_.
      FCGIWriter_write_whole_buf (frame rt rid []))"
  by (simp add: FCGIWriter_end_stream_def frame_Nil)

lemma end_stream_frame:
  assumes "HEADER_LEN < length buf" "length buf \<le> BUF_LEN"
  shows "sends (FCGIWriter_end_stream buf rid rt)
    (frame rt rid (drop HEADER_LEN buf) @ frame rt rid []) ()"
proof -
  let ?h = "Header_new rt rid (of_nat (length buf - HEADER_LEN))"
  let ?b = "put_header ?h buf" and ?pad = "unat (Header_get_padding ?h)"
  have pad: "?pad < 8"
    using align_padding_lt [of "of_nat (length buf - HEADER_LEN)"]
    by (simp add: Header_new_def Header_get_padding_def)
  then have "take ?pad ?b = take ?pad (Header_write_into ?h)" by (simp add: put_header_def)
  then have f: "frame rt rid (drop HEADER_LEN buf) = ?b @ take ?pad ?b"
    by (simp add: frame_def Let_def put_header_def Header_get_padding_def)
  have "FCGIWriter_end_stream buf rid rt =
    io_bind (io_bind (FCGIWriter_write_whole_buf ?b) (\<lambda>_. FCGIWriter_write_whole_buf (take ?pad ?b)))
      (\<lambda>_. FCGIWriter_write_whole_buf (frame rt rid []))"
    using assms(1) by (simp add: FCGIWriter_end_stream_def Let_def frame_Nil)
  then show ?thesis unfolding f by (auto intro!: sends_then [OF sends_then] sends_write simp del: append_assoc)
qed

lemma end_stream_sends:
  assumes "stream_inv rt rid buf p out"
  shows "\<exists>bs. sends (FCGIWriter_end_stream buf rid rt) bs () \<and> out @ bs = stream_wire rt rid p"
proof -
  from assms obtain cs where p: "p = concat cs @ drop HEADER_LEN buf"
    and cs: "list_all (\<lambda>c. length c = MAX_CHUNK) cs" and out: "out = concat (map (frame rt rid) cs)"
    and l: "HEADER_LEN \<le> length buf" "length buf \<le> BUF_LEN"
    and e: "length buf = HEADER_LEN \<longrightarrow> out = []" by (auto simp: stream_inv_def stream_buf_def)
  have *: "frames rt rid (concat cs @ q) = concat (map (frame rt rid) cs) @ frames rt rid q" for q
    using cs by (induction cs) (simp_all add: frames_full)
  show ?thesis
  proof (cases "length buf = HEADER_LEN")
    case True
    with e out have "out = []" by simp
    moreover from this out have "cs = []"
      by (cases cs) (auto simp: frame_def Let_def Header_write_into_def)
    moreover have "sends (FCGIWriter_end_stream buf rid rt) ([] @ frame rt rid []) ()"
      unfolding end_stream_empty [OF True] by (rule sends_then [OF sends_return sends_write])
    ultimately show ?thesis using True by (auto simp: p stream_wire_def)
  next
    case False
    with l have l': "HEADER_LEN < length buf" by simp
    then have "frames rt rid p = out @ frame rt rid (drop HEADER_LEN buf)"
      using l by (simp add: p * out frames_small BUF_LEN_simps MAX_CHUNK_def)
    with end_stream_frame [OF l' l(2)] show ?thesis by (auto simp: stream_wire_def)
  qed
qed


section \<open>Both writers are stream writers\<close>

definition pair_ok :: "NameValuePair \<Rightarrow> bool" where
  "pair_ok p \<longleftrightarrow> length (name_data p) \<le> 0x7fffffff \<and> length (value_data p) \<le> 0x7fffffff"

definition writer_inv ::
  "RecordType \<Rightarrow> u16 \<Rightarrow> NameValuePairWriter \<Rightarrow> bytes \<Rightarrow> bytes \<Rightarrow> bool" where
  "writer_inv rt rid w p out \<longleftrightarrow> w_request_id w = rid \<and> w_rtype w = rt \<and> stream_inv rt rid (w_buf w) p out"

lemma writer_append_sends:
  assumes "writer_inv rt rid w p out"
  shows "\<exists>w' bs. sends (NameValuePairWriter_append uninit val w) bs w' \<and>
    writer_inv rt rid w' (p @ val) (out @ bs)"
proof -
  from assms append_sends [of rt rid "w_buf w" p out uninit val] obtain buf bs where
    1: "sends (FCGIWriter_append_to_stream uninit val (w_buf w) rid rt) bs buf"
    and 2: "stream_inv rt rid buf (p @ val) (out @ bs)" by (auto simp: writer_inv_def)
  from sends_bind_return [OF 1, of "\<lambda>buf. w\<lparr>w_buf := buf\<rparr>"] assms
  have "sends (NameValuePairWriter_append uninit val w) bs (w\<lparr>w_buf := buf\<rparr>)"
    by (simp add: writer_inv_def NameValuePairWriter_append_def)
  moreover have "writer_inv rt rid (w\<lparr>w_buf := buf\<rparr>) (p @ val) (out @ bs)"
    using 2 assms by (simp add: writer_inv_def)
  ultimately show ?thesis by blast
qed

lemma put_len_code: "n \<le> 0x7fffffff \<Longrightarrow>
    put_len n = (if n > 0x7f then put_u32 (of_nat (n OR 0x80000000)) else [of_nat n])"
  using or_bit_31 [of n] by (simp add: put_len_def)

lemma add_kv_ok:
  assumes "length name \<le> 0x7fffffff" "length val \<le> 0x7fffffff"
  shows "NameValuePairWriter_add_kv uninit name val self =
    io_bind (NameValuePairWriter_append uninit (put_len (length name) @ put_len (length val)) self) (\<lambda>self.
    io_bind (NameValuePairWriter_append uninit name self) (\<lambda>self.
      NameValuePairWriter_append uninit val self))"
  using assms by (simp add: NameValuePairWriter_add_kv_def put_len_code Let_def)

lemma writer_add_kv_sends:
  assumes "writer_inv rt rid w p out" "pair_ok (NameValuePair_new name val)"
  shows "\<exists>w' bs. sends (NameValuePairWriter_add_kv uninit name val w) bs w' \<and>
    writer_inv rt rid w' (p @ pair_wire (NameValuePair_new name val)) (out @ bs)"
proof -
  let ?ls = "put_len (length name) @ put_len (length val)"
  from writer_append_sends [OF assms(1), of uninit ?ls] obtain w1 bs1 where
    1: "sends (NameValuePairWriter_append uninit ?ls w) bs1 w1" "writer_inv rt rid w1 (p @ ?ls) (out @ bs1)" by blast
  from writer_append_sends [OF 1(2), of uninit name] obtain w2 bs2 where
    2: "sends (NameValuePairWriter_append uninit name w1) bs2 w2"
      "writer_inv rt rid w2 ((p @ ?ls) @ name) ((out @ bs1) @ bs2)" by blast
  from writer_append_sends [OF 2(2), of uninit val] obtain w3 bs3 where
    3: "sends (NameValuePairWriter_append uninit val w2) bs3 w3"
      "writer_inv rt rid w3 (((p @ ?ls) @ name) @ val) (((out @ bs1) @ bs2) @ bs3)" by blast
  have "sends (NameValuePairWriter_add_kv uninit name val w) (bs1 @ bs2 @ bs3) w3"
    using assms(2) 1(1) 2(1) 3(1)
    by (simp add: add_kv_ok pair_ok_def NameValuePair_new_def sends_bind)
  with 3(2) show ?thesis by (force simp: pair_wire_def NameValuePair_new_def)
qed

lemma writer_flush_sends:
  "writer_inv rt rid w p out \<Longrightarrow>
     \<exists>bs. sends (NameValuePairWriter_flush w) bs () \<and> out @ bs = stream_wire rt rid p"
  using end_stream_sends [of rt rid "w_buf w" p out]
  by (auto simp: writer_inv_def NameValuePairWriter_flush_def)

interpretation kvw: stream_writer pair_ok pair_wire "FCGIWriter_kv_stream uninit rid rt"
    "NameValuePairWriter_add uninit" NameValuePairWriter_flush "writer_inv rt rid" "stream_wire rt rid"
  for uninit rid rt
proof
  show "writer_inv rt rid (FCGIWriter_kv_stream uninit rid rt) [] []"
    by (simp add: writer_inv_def FCGIWriter_kv_stream_def stream_inv_reserve)
next
  fix w p out a
  assume "writer_inv rt rid w p out" "pair_ok a"
  then show "\<exists>w' bs. sends (NameValuePairWriter_add uninit a w) bs w' \<and>
      writer_inv rt rid w' (p @ pair_wire a) (out @ bs)"
    using writer_add_kv_sends [of rt rid w p out "name_data a" "value_data a" uninit]
    by (cases a) (simp add: NameValuePairWriter_add_def NameValuePair_new_def)
qed (rule writer_flush_sends)

interpretation dataw: stream_writer "\<lambda>_. True" "\<lambda>val. val" "reserve_header uninit"
    "\<lambda>val buf. FCGIWriter_append_to_stream uninit val buf rid rt"
    "\<lambda>buf. FCGIWriter_end_stream buf rid rt" "stream_inv rt rid" "stream_wire rt rid"
  for uninit rid rt
  by unfold_locales (auto intro: stream_inv_reserve append_sends end_stream_sends)

lemma io_bind_return_id [simp]: "io_bind m io_return = m"
  by (rule ext) (simp add: io_bind_def io_return_def split: prod.split sum.split)

lemma io_fold_Nil [simp]: "io_fold f [] = io_return"
  by (rule ext) simp

lemma io_bind_assoc: "io_bind (io_bind m f) g = io_bind m (\<lambda>x. io_bind (f x) g)"
  by (rule ext) (simp add: io_bind_def split: prod.split sum.split)

lemma io_bind_fun: "(\<And>x. f x = g x) \<Longrightarrow> io_bind m f = io_bind m g"
  by presburger

lemma io_bind_return_left [simp]: "io_bind (io_return x) f = f x"
  by (rule ext) (simp add: io_bind_def io_return_def)

lemma encode_data_sends:
  "sends (FCGIWriter_encode_data uninit rid rt data) (stream_wire rt rid data) ()"
  using dataw.stream_sends [of "[data]" uninit rid rt] by (simp add: FCGIWriter_encode_data_def)

lemma encode_kvp_sends:
  "list_all pair_ok p \<Longrightarrow>
     sends (FCGIWriter_encode_kvp uninit rid rt p) (stream_wire rt rid (concat (map pair_wire p))) ()"
  using kvw.stream_sends [of p uninit rid rt] by (simp add: FCGIWriter_encode_kvp_def)

text \<open>The same for pairs of a name and a value, as \<open>extend\<close> takes them.\<close>

definition kv_ok :: "bytes \<times> bytes \<Rightarrow> bool" where
  "kv_ok = (\<lambda>(k, v). length k \<le> 0x7fffffff \<and> length v \<le> 0x7fffffff)"

definition kv_wire :: "(bytes \<times> bytes) list \<Rightarrow> bytes" where
  "kv_wire iter = concat (map pair_wire (map (\<lambda>(k, v). NameValuePair_new k v) iter))"

lemma extend_fold:
  "NameValuePairWriter_extend uninit iter w =
     io_fold (NameValuePairWriter_add uninit) (map (\<lambda>(k, v). NameValuePair_new k v) iter) w"
  unfolding NameValuePairWriter_extend_def
  by (induction iter arbitrary: w)
    (auto simp: NameValuePairWriter_add_def NameValuePair_new_def intro!: io_bind_fun)

lemma kv_map: "list_all kv_ok iter \<Longrightarrow> list_all pair_ok (map (\<lambda>(k, v). NameValuePair_new k v) iter)"
  by (auto simp: list_all_iff pair_ok_def kv_ok_def NameValuePair_new_def)

lemma extend_sends:
  assumes "list_all kv_ok iter"
  shows "\<exists>w bs. sends (NameValuePairWriter_extend uninit iter (FCGIWriter_kv_stream uninit rid rt)) bs w \<and>
    writer_inv rt rid w (kv_wire iter) bs"
  unfolding extend_fold kv_wire_def
  using kvw.fold_sends [OF kvw.inv_opened [of rt rid uninit] kv_map [OF assms], where uninit = uninit] by simp

lemma extend_flush_sends:
  "list_all kv_ok iter \<Longrightarrow>
     sends (io_bind (NameValuePairWriter_extend uninit iter (FCGIWriter_kv_stream uninit rid rt))
       NameValuePairWriter_flush) (stream_wire rt rid (kv_wire iter)) ()"
  unfolding extend_fold kv_wire_def by (rule kvw.stream_sends [OF kv_map])

section \<open>The wire form of an item\<close>

text \<open>The pairs an item carries, its content, and whether it is a whole stream.\<close>

definition item_pairs :: "FCGIType \<Rightarrow> NameValuePair list" where
  "item_pairs item =
     (case item of FCGIType.Params _ p \<Rightarrow> p | FCGIType.GetValues p \<Rightarrow> p
      | FCGIType.GetValuesResult p \<Rightarrow> p | _ \<Rightarrow> [])"

definition item_stream :: "FCGIType \<Rightarrow> (RecordType \<times> u16 \<times> bytes) option" where
  "item_stream item =
     (case item of
        FCGIType.Params rid p \<Rightarrow> Some (RecordType.Params, rid, concat (map pair_wire p))
      | FCGIType.STDIN rid d \<Rightarrow> Some (RecordType.StdIn, rid, d)
      | FCGIType.STDOUT rid d \<Rightarrow> Some (RecordType.StdOut, rid, d)
      | FCGIType.STDERR rid d \<Rightarrow> Some (RecordType.StdErr, rid, d)
      | FCGIType.DATA rid d \<Rightarrow> Some (RecordType.Data, rid, d)
      | FCGIType.GetValues p \<Rightarrow> Some (RecordType.GetValues, 0, concat (map pair_wire p))
      | FCGIType.GetValuesResult p \<Rightarrow> Some (RecordType.GetValuesResult, 0, concat (map pair_wire p))
      | _ \<Rightarrow> None)"

definition item_wire :: "FCGIType \<Rightarrow> bytes" where
  "item_wire item =
     (case item of
        FCGIType.BeginRequest rid r fl \<Rightarrow>
          frame RecordType.BeginRequest rid (put_u16 (FastCGIRole_code r) @ [fl] @ replicate 5 0)
      | FCGIType.AbortRequest rid \<Rightarrow> frame RecordType.AbortRequest rid []
      | FCGIType.EndRequest rid app st \<Rightarrow>
          frame RecordType.EndRequest rid (put_u32 app @ [st] @ replicate 3 0)
      | _ \<Rightarrow> (case item_stream item of Some (rt, rid, p) \<Rightarrow> stream_wire rt rid p | None \<Rightarrow> []))"

lemma frame_8: "length p = 8 \<Longrightarrow> frame rt rid p = Header_write_into (Header_new rt rid 8) @ p"
  by (simp add: frame_def Let_def Header_new_def align_padding_0)

lemma encode_sends:
  assumes "list_all pair_ok (item_pairs item)"
  shows "sends (FCGIWriter_encode uninit item) (item_wire item) ()"
  using assms
  by (cases item) (simp_all add: FCGIWriter_encode_def item_wire_def item_pairs_def item_stream_def
    encode_kvp_sends encode_data_sends frame_8 frame_Nil sends_write MGMT_REQUEST_ID_def)


section \<open>Bodies in pieces\<close>

text \<open>The pieces that arrived; errors are skipped.\<close>

definition received :: "('e + bytes) list \<Rightarrow> bytes list" where
  "received chunks = concat (map (\<lambda>c. case c of Inl e \<Rightarrow> [] | Inr v \<Rightarrow> [v]) chunks)"

lemma received_simps [simp]:
  "received [] = []" "received (Inl e # cs) = received cs" "received (Inr v # cs) = v # received cs"
  by (simp_all add: received_def)

lemma data_loop_fold:
  "FCGIWriter_data_loop uninit chunks rid rt togo buf =
     io_bind (io_fold (\<lambda>val buf. FCGIWriter_append_to_stream uninit val buf rid rt) (received chunks) buf)
       (\<lambda>buf. io_return (togo - length (concat (received chunks)), buf))"
  by (induction uninit chunks rid rt togo buf rule: FCGIWriter_data_loop.induct)
    (auto simp: io_bind_assoc intro!: io_bind_fun)

lemma data_loop_sends:
  "\<exists>buf bs. sends (FCGIWriter_data_loop uninit chunks rid rt togo (reserve_header uninit)) bs
      (togo - length (concat (received chunks)), buf) \<and>
    stream_inv rt rid buf (concat (received chunks)) bs"
proof -
  have "\<exists>buf bs. sends (io_fold (\<lambda>val buf. FCGIWriter_append_to_stream uninit val buf rid rt)
      (received chunks) (reserve_header uninit)) bs buf \<and> stream_inv rt rid buf (concat (received chunks)) bs"
    using dataw.fold_sends [OF stream_inv_reserve [of rt rid uninit], where xs = "received chunks" and uninit = uninit]
    by (simp add: list_all_iff)
  then obtain buf bs where
    "sends (io_fold (\<lambda>val buf. FCGIWriter_append_to_stream uninit val buf rid rt) (received chunks)
       (reserve_header uninit)) bs buf" "stream_inv rt rid buf (concat (received chunks)) bs" by blast
  from sends_bind_return [OF this(1), of "\<lambda>buf. (togo - length (concat (received chunks)), buf)"] this(2)
  show ?thesis by (auto simp: data_loop_fold)
qed

lemma data_stream_sends:
  assumes "togo \<le> length (concat (received chunks))"
  shows "sends (FCGIWriter_data_stream uninit chunks rid rt togo)
    (stream_wire rt rid (concat (received chunks))) ()"
proof -
  from data_loop_sends [of uninit chunks rid rt togo] assms obtain buf bs where
    1: "sends (FCGIWriter_data_loop uninit chunks rid rt togo (reserve_header uninit)) bs (0, buf)"
    and 2: "stream_inv rt rid buf (concat (received chunks)) bs" by auto
  from end_stream_sends [OF 2] obtain bs' where "sends (FCGIWriter_end_stream buf rid rt) bs' ()"
    "bs @ bs' = stream_wire rt rid (concat (received chunks))" by blast
  with sends_bind [OF 1, of "\<lambda>(togo, buf). if togo > 0 then
      io_bind (FCGIWriter_encode uninit (FCGIType.AbortRequest rid)) (\<lambda>_.
        io_fail (Io (IoError ConnectionAborted ''body too short''))) else FCGIWriter_end_stream buf rid rt"]
  show ?thesis by (fastforce simp: FCGIWriter_data_stream_def)
qed

text \<open>What the buffer still holds is not sent: every chunk but the last one went out.\<close>

lemma chunks_of_full_list:
  "list_all (\<lambda>c. length c = MAX_CHUNK) cs \<Longrightarrow> chunks_of (concat cs @ q) = cs @ chunks_of q"
  by (induction cs) (simp_all add: chunks_of_full)

lemma stream_inv_out:
  assumes "stream_inv rt rid buf p out"
  shows "out = concat (map (frame rt rid) (butlast (chunks_of p)))"
proof -
  from assms obtain cs where p: "p = concat cs @ drop HEADER_LEN buf"
    and cs: "list_all (\<lambda>c. length c = MAX_CHUNK) cs" and out: "out = concat (map (frame rt rid) cs)"
    and l: "HEADER_LEN \<le> length buf" "length buf \<le> BUF_LEN"
    and e: "length buf = HEADER_LEN \<longrightarrow> out = []" by (auto simp: stream_inv_def stream_buf_def)
  show ?thesis
  proof (cases "length buf = HEADER_LEN")
    case True
    with e out have "cs = []" by (cases cs) (auto simp: frame_def Let_def Header_write_into_def)
    with True show ?thesis by (simp add: p out)
  next
    case False
    with l have "chunks_of (drop HEADER_LEN buf) = [drop HEADER_LEN buf]"
      by (intro chunks_of_small) (auto simp: BUF_LEN_simps MAX_CHUNK_def)
    with cs show ?thesis by (simp add: p out chunks_of_full_list butlast_append)
  qed
qed

lemma abort_sends:
  "sends (FCGIWriter_encode uninit (FCGIType.AbortRequest rid)) (frame RecordType.AbortRequest rid []) ()"
  using encode_sends [of "FCGIType.AbortRequest rid"] by (simp add: item_pairs_def item_wire_def)

lemma abort_fails:
  "fails_after (io_bind (FCGIWriter_encode uninit (FCGIType.AbortRequest rid)) (\<lambda>_. io_fail e))
     (frame RecordType.AbortRequest rid []) e"
  using sends_fails [OF abort_sends, of "\<lambda>_. io_fail e" "[]" e uninit rid] by (simp add: fails_io_fail)

lemma data_stream_short:
  assumes "length (concat (received chunks)) < togo"
  shows "fails_after (FCGIWriter_data_stream uninit chunks rid rt togo)
    (concat (map (frame rt rid) (butlast (chunks_of (concat (received chunks))))) @
      frame RecordType.AbortRequest rid []) (Io (IoError ConnectionAborted ''body too short''))"
proof -
  from data_loop_sends [of uninit chunks rid rt togo] obtain buf bs where
    1: "sends (FCGIWriter_data_loop uninit chunks rid rt togo (reserve_header uninit)) bs
      (togo - length (concat (received chunks)), buf)"
    and 2: "stream_inv rt rid buf (concat (received chunks)) bs" by blast
  show ?thesis
    unfolding FCGIWriter_data_stream_def stream_inv_out [OF 2, symmetric]
    using assms abort_fails by (intro sends_fails [OF 1]) simp
qed

lemma flush_data_chunk_sends:
  "sends (FCGIWriter_flush_data_chunk data rid rt) (if data = [] then frame rt rid [] else frames rt rid data) ()"
proof (induction data rid rt rule: FCGIWriter_flush_data_chunk.induct)
  case (1 data rid rt)
  let ?n = "BUF_LEN - HEADER_LEN"
  show ?case
  proof (cases "length data > ?n")
    case True
    let ?h = "Header_write_into (Header_new rt rid (of_nat ?n))"
    have "drop ?n data \<noteq> []" "data \<noteq> []" "length (take ?n data) = MAX_CHUNK"
      using True by (auto simp: BUF_LEN_simps MAX_CHUNK_def)
    moreover from this have "frames rt rid data = ?h @ take ?n data @ frames rt rid (drop ?n data)"
      using frames_full [of "take ?n data" rt rid "drop ?n data"] frame_full [of "take ?n data" rt rid] by simp
    moreover have "FCGIWriter_flush_data_chunk data rid rt = io_bind (FCGIWriter_write_whole_buf ?h) (\<lambda>_.
        io_bind (FCGIWriter_write_whole_buf (take ?n data)) (\<lambda>_. FCGIWriter_flush_data_chunk (drop ?n data) rid rt))"
      using True by (subst FCGIWriter_flush_data_chunk.simps) simp
    ultimately show ?thesis
      using sends_then [OF sends_write sends_then [OF sends_write "1.IH" [OF True]], of ?h "take ?n data"]
      by simp
  next
    case False
    then have f: "frames rt rid data = frame rt rid data" if "data \<noteq> []"
      using that by (simp add: frames_small BUF_LEN_simps MAX_CHUNK_def)
    show ?thesis
    proof (cases "data = []")
      case True
      then show ?thesis
        using sends_write by (subst FCGIWriter_flush_data_chunk.simps) (simp add: Let_def frame_Nil)
    next
      case nonempty: False
      with False sends_then [OF sends_write sends_then [OF sends_write sends_write]] show ?thesis
        by (subst FCGIWriter_flush_data_chunk.simps)
          (simp add: Let_def f frame_def Header_get_padding_def)
    qed
  qed
qed

section \<open>The reader at the other end\<close>

lemma scan_stream_wire:
  "\<exists>es. wire_scan (InHead []) (stream_wire rt rid p) = (InHead [], es) \<and>
    content_of es = map (\<lambda>b. (RecordType_code rt, rid, b)) p \<and>
    (\<forall>t. Head t \<in> set es \<longrightarrow> t = RecordType_code rt)"
proof -
  let ?ev = "\<lambda>c. Head (RecordType_code rt) # map (Content (RecordType_code rt) rid) c"
  have "wire_scan (InHead []) (frames rt rid p) = (InHead [], concat (map ?ev (chunks_of p)))"
    unfolding frames_def by (rule scan_frames_concat) (blast dest: chunks_of_bounds MAX_CHUNK_lt)
  moreover have "wire_scan (InHead []) (frame rt rid []) = (InHead [], ?ev [])"
    using scan_frame [of "[]" rt rid] by simp
  ultimately have "wire_scan (InHead []) (stream_wire rt rid p) =
      (InHead [], concat (map ?ev (chunks_of p)) @ ?ev [])"
    unfolding stream_wire_def by (rule wire_scan_append2)
  moreover have "content_of (concat (map ?ev cs)) = map (\<lambda>b. (RecordType_code rt, rid, b)) (concat cs)" for cs
    by (induction cs) (simp_all add: content_of_def o_def)
  ultimately show ?thesis
    by (intro exI [of _ "concat (map ?ev (chunks_of p)) @ ?ev []"])
      (auto simp: content_of_def concat_chunks_of)
qed

lemma feed_streams:
  assumes "wire_scan (InHead []) (concat chunks) = (InHead [], es)" "stream_heads es"
  shows "\<exists>rs self left. RecordReader_feed RecordReader_new [] chunks = Inr (rs, self, left) \<and>
    concat (map record_content rs) = stream_content es"
proof -
  have n: "reader_abs RecordReader_new = InHead []" "reader_streams RecordReader_new"
    by (simp_all add: RecordReader_new_def reader_streams_def)
  from feed_total [OF n(2), of "[]" chunks] assms obtain rs self left where
    f: "RecordReader_feed RecordReader_new [] chunks = Inr (rs, self, left)" by (auto simp: n(1))
  from feed_sound [OF this] obtain used es' where u: "concat chunks = used @ left"
    "wire_scan (InHead []) used = (reader_abs self, es')"
    "stream_content es' = concat (map record_content rs)" "snd (wire_scan (reader_abs self) left) = []"
    by (auto simp: n(1))
  with assms(1) have "es = es'" by (simp add: wire_scan_append split: prod.splits)
  with f u(3) show ?thesis by auto
qed


section \<open>Properties\<close>

text \<open>
  \<open>encode\<close> sends an item in its wire form, on every transport: when it returns, exactly these
  bytes were sent; when it fails, the transport failed and a prefix of them was sent; and it does
  return when every write takes at least one byte.
\<close>

lemma FCGIWriter_encode_sends:
  assumes "list_all pair_ok (item_pairs item)"
  shows "sends (FCGIWriter_encode uninit item) (item_wire item) ()"
  using assms by (rule encode_sends)

lemma FCGIWriter_encode_sends_example:
  "sends (FCGIWriter_encode (\<lambda>_. 0) (FCGIType.Params 1 [\<lparr>name_data = [65], value_data = [66]\<rparr>]))
    (item_wire (FCGIType.Params 1 [\<lparr>name_data = [65], value_data = [66]\<rparr>])) ()"
  by (rule FCGIWriter_encode_sends) (simp add: item_pairs_def pair_ok_def)

text \<open>
  C18. End to end: what \<open>encode\<close> sent for a stream that the reader knows, cut into any pieces on the
  way, the incremental reader delivers: records of this type and request id, whose bodies put
  together are the content of the item.
\<close>

theorem FCGIWriter_encode_delivered:
  assumes "item_stream item = Some (rt, rid, p)" "stream_type rt" "list_all pair_ok (item_pairs item)"
    and "FCGIWriter_encode uninit item \<lparr>sent = [], script = sc\<rparr> = (Inr (), s)"
    and "concat chunks = sent s"
  shows "\<exists>rs self left. RecordReader_feed RecordReader_new [] chunks = Inr (rs, self, left) \<and>
    concat (map record_content rs) = map (\<lambda>b. (RecordType_code rt, rid, b)) p"
proof -
  have w: "concat chunks = stream_wire rt rid p"
    using sends_successD [OF encode_sends [OF assms(3)] assms(4)] assms(1,5)
    by (cases item) (simp_all add: item_wire_def item_stream_def)
  from scan_stream_wire [of rt rid p] obtain es where
    es: "wire_scan (InHead []) (concat chunks) = (InHead [], es)"
    "content_of es = map (\<lambda>b. (RecordType_code rt, rid, b)) p"
    "\<forall>t. Head t \<in> set es \<longrightarrow> t = RecordType_code rt" by (auto simp: w)
  then have "stream_heads es" using assms(2) by (auto simp: stream_heads_def stream_code_type)
  moreover have "stream_content es = map (\<lambda>b. (RecordType_code rt, rid, b)) p"
    using assms(2) by (simp add: stream_content_def es(2) filter_map o_def stream_code_type)
  ultimately show ?thesis using feed_streams [OF es(1)] by simp
qed

theorem FCGIWriter_encode_delivered_witness:
  "\<exists>rs self left. RecordReader_feed RecordReader_new []
      [[1, 6, 0], [1, 0, 2, 6, 0, 104], [105, 1, 6, 0, 1, 0, 2, 1, 6, 0, 1, 0, 0, 0, 0]] = Inr (rs, self, left) \<and>
    concat (map record_content rs) = map (\<lambda>b. (RecordType_code RecordType.StdOut, 1, b)) [104, 105]"
  by (rule FCGIWriter_encode_delivered [of "FCGIType.STDOUT 1 [104, 105]" _ _ _ "\<lambda>_. 0"
        "[Inr 3, Inr 7, Inr 100, Inr 9]"
        "\<lparr>sent = [1, 6, 0, 1, 0, 2, 6, 0, 104, 105, 1, 6, 0, 1, 0, 2, 1, 6, 0, 1, 0, 0, 0, 0], script = []\<rparr>"])
    (simp_all add: item_stream_def item_pairs_def stream_type_def FCGIWriter_encode_def
      FCGIWriter_encode_data_def append_fits BUF_LEN_simps FCGIWriter_end_stream_def Let_def
      io_bind_def io_return_def FCGIWriter_write_whole_buf_def put_header_def Header_write_into_def
      Header_new_def VERSION_1_def put_u16_def align_padding_def Header_get_padding_def
      unat_of_nat reserve_header_def)

text \<open>
  \<open>encode\<close> returns, and everything is out, on every transport that takes at least one byte per
  write and is called no more often than there are bytes.
\<close>

lemma FCGIWriter_encode_returns:
  assumes "list_all pair_ok (item_pairs item)" "ample (length (item_wire item)) (script s)"
  shows "\<exists>s'. FCGIWriter_encode uninit item s = (Inr (), s') \<and> sent s' = sent s @ item_wire item"
  using sends_ample [OF encode_sends [OF assms(1)], of 0 s uninit] assms(2)
    sends_successD [OF encode_sends [OF assms(1)]] by fastforce

lemma FCGIWriter_encode_returns_example:
  "\<exists>s'. FCGIWriter_encode (\<lambda>_. 0) (FCGIType.AbortRequest 1) \<lparr>sent = [], script = replicate 8 (Inr 1)\<rparr> =
      (Inr (), s') \<and> sent s' = [] @ item_wire (FCGIType.AbortRequest 1)"
  using FCGIWriter_encode_returns [of "FCGIType.AbortRequest 1" "\<lparr>sent = [], script = replicate 8 (Inr 1)\<rparr>"]
  by (simp add: item_pairs_def item_wire_def frame_Nil ample_def Header_write_into_def)

text \<open>
  The name-value writer does not depend on how pairs fall into its buffer: opened, extended by
  any pairs and flushed, it sends their encodings as one stream, cut into records of 65528 bytes
  and closed by an empty record.
\<close>

lemma NameValuePairWriter_stream:
  assumes "\<forall>(k, v) \<in> set iter. length k \<le> 0x7fffffff \<and> length v \<le> 0x7fffffff"
  shows "sends (io_bind (NameValuePairWriter_extend uninit iter (FCGIWriter_kv_stream uninit rid rt))
      NameValuePairWriter_flush)
    (stream_wire rt rid (concat (map (\<lambda>(k, v). pair_wire (NameValuePair_new k v)) iter))) ()"
  using extend_flush_sends [of iter uninit rid rt] assms
  by (simp add: kv_ok_def kv_wire_def list_all_iff o_def case_prod_beta')

lemma NameValuePairWriter_stream_example:
  "sends (io_bind (NameValuePairWriter_extend (\<lambda>_. 0) [([65], [66])] (FCGIWriter_kv_stream (\<lambda>_. 0) 1 RecordType.Params))
      NameValuePairWriter_flush)
    (stream_wire RecordType.Params 1 [1, 1, 65, 66]) ()"
  using NameValuePairWriter_stream [of "[([65], [66])]" "\<lambda>_. 0" 1 RecordType.Params]
  by (simp add: pair_wire_def NameValuePair_new_def put_len_def)

text \<open>A name or a value longer than 0x7fffffff bytes panics in the writer before anything is sent.\<close>

lemma NameValuePairWriter_too_long:
  assumes "0x7fffffff < length name \<or> 0x7fffffff < length val"
  shows "NameValuePairWriter_add_kv uninit name val self s = (Inl (Panicked LengthTooBig), s)"
  using assms by (auto simp: NameValuePairWriter_add_kv_def io_fail_def Let_def)

lemma NameValuePairWriter_too_long_example:
  "NameValuePairWriter_add_kv (\<lambda>_. 0) [65] (replicate (2 ^ 31) 0)
     (FCGIWriter_kv_stream (\<lambda>_. 0) 1 RecordType.Params) \<lparr>sent = [], script = []\<rparr> =
   (Inl (Panicked LengthTooBig), \<lparr>sent = [], script = []\<rparr>)"
  by (rule NameValuePairWriter_too_long) simp

text \<open>
  \<open>data_stream\<close> with at least the announced number of bytes: the pieces that arrived, joined,
  go out as one stream (the errors between them are skipped, surplus bytes are sent too).
\<close>

lemma FCGIWriter_data_stream_complete:
  assumes "togo \<le> length (concat (received chunks))"
  shows "sends (FCGIWriter_data_stream uninit chunks rid rt togo)
    (stream_wire rt rid (concat (received chunks))) ()"
  using assms by (rule data_stream_sends)

lemma FCGIWriter_data_stream_complete_example:
  "sends (FCGIWriter_data_stream (\<lambda>_. 0) [Inr [1, 2], Inl (), Inr [3]] 7 RecordType.StdIn 3)
    (stream_wire RecordType.StdIn 7 [1, 2, 3]) ()"
  using FCGIWriter_data_stream_complete [of 3 "[Inr [1, 2], Inl (), Inr [3]]"] by simp

text \<open>
  \<open>data_stream\<close> with fewer bytes than announced never succeeds: the full records are out, the
  rest of the body is dropped, the request is aborted, and the call reports an aborted connection.
\<close>

lemma FCGIWriter_data_stream_too_short:
  assumes "length (concat (received chunks)) < togo"
  shows "fails_after (FCGIWriter_data_stream uninit chunks rid rt togo)
    (concat (map (frame rt rid) (butlast (chunks_of (concat (received chunks))))) @
      frame RecordType.AbortRequest rid []) (Io (IoError ConnectionAborted ''body too short''))"
  using assms by (rule data_stream_short)

lemma FCGIWriter_data_stream_too_short_example:
  "fails_after (FCGIWriter_data_stream (\<lambda>_. 0) [Inr [1, 2], Inl ()] 7 RecordType.StdIn 3)
    [1, 2, 0, 7, 0, 0, 0, 0] (Io (IoError ConnectionAborted ''body too short''))"
  using FCGIWriter_data_stream_too_short [of "[Inr [1, 2], Inl ()]" 3 "\<lambda>_. 0" 7 RecordType.StdIn]
  by (simp add: chunks_of_small MAX_CHUNK_def frame_Nil Header_write_into_def
    Header_new_def VERSION_1_def put_u16_def align_padding_def)

text \<open>
  \<open>flush_data_chunk\<close> sends the chunk as records of at most 65528 bytes and leaves the stream
  open; but an empty chunk is sent as an empty record, which is the end of the stream.
\<close>

lemma FCGIWriter_flush_data_chunk_sends:
  "sends (FCGIWriter_flush_data_chunk data rid rt)
    (if data = [] then frame rt rid [] else concat (map (frame rt rid) (chunks_of data))) ()"
  using flush_data_chunk_sends [of data rid rt] unfolding frames_def .

text \<open>
  A write that takes nothing and reports no error is repeated for ever: after any number \<open>n\<close> of
  such writes nothing was sent and the loop of \<open>write_whole_buf\<close> still runs.
\<close>

lemma FCGIWriter_write_zero_spins:
  assumes "buf \<noteq> []"
  shows "FCGIWriter_write_whole_buf buf \<lparr>sent = out, script = replicate n (Inr 0)\<rparr> =
    (Inl Stalled, \<lparr>sent = out, script = []\<rparr>)"
proof -
  from assms obtain b bs where "buf = b # bs" by (cases buf) auto
  moreover have "write_loop (b # bs) out (replicate n (Inr 0)) =
      (Inl Stalled, \<lparr>sent = out, script = []\<rparr>)" for b bs
    by (induction n) simp_all
  ultimately show ?thesis by (simp add: FCGIWriter_write_whole_buf_def)
qed

lemma FCGIWriter_write_zero_spins_example:
  "FCGIWriter_write_whole_buf [1] \<lparr>sent = [], script = replicate 1000 (Inr 0)\<rparr> =
    (Inl Stalled, \<lparr>sent = [], script = []\<rparr>)"
  by (rule FCGIWriter_write_zero_spins) simp

text \<open>
  The two serialisers of the crate agree: \<open>Record::append\<close> of a \<open>BeginRequest\<close> record writes
  the bytes that \<open>encode\<close> sends for the same request, and \<open>Record::read\<close> gets an \<open>EndRequest\<close>
  item back, whatever follows it.
\<close>

lemma serialisers_agree:
  "(\<exists>bs. Record_append dbg uninit (BeginRequestBody_new r fl rid) = Inr bs \<and>
     sends (FCGIWriter_encode uninit' (FCGIType.BeginRequest rid r fl)) bs ()) \<and>
   Record_read (item_wire (FCGIType.EndRequest rid app st) @ rest) =
    (case ProtoStatus_try_from st of
       Inl x \<Rightarrow> Inl (NotFcgiStatus x)
     | Inr ps \<Rightarrow> Inr (Some \<lparr>header = Header_new RecordType.EndRequest rid 8,
         body = Body.EndRequest \<lparr>app_status = app, protocol_status = ps\<rparr>\<rparr>, rest))"
proof (rule conjI)
  have "Record_append dbg uninit (BeginRequestBody_new r fl rid) = Inr (item_wire (FCGIType.BeginRequest rid r fl))"
    by (simp add: Record_append_def BeginRequestBody_new_def Let_def item_wire_def frame_8
      BeginRequestBody_write_into_def Header_new_def align_padding_def)
  then show "\<exists>bs. Record_append dbg uninit (BeginRequestBody_new r fl rid) = Inr bs \<and>
     sends (FCGIWriter_encode uninit' (FCGIType.BeginRequest rid r fl)) bs ()"
    using encode_sends [of "FCGIType.BeginRequest rid r fl"] by (simp add: item_pairs_def)
  let ?h = "Header_new RecordType.EndRequest rid 8"
  let ?b = "put_u32 app @ [st] @ replicate 3 0"
  have "Record_read (header_bytes ?h 0 @ ?b @ [] @ rest) =
      rbind (Record_parse_body ?b (rtype ?h)) (\<lambda>b. Inr (Some \<lparr>header = ?h, body = b\<rparr>, rest))"
    by (rule Record_read_whole) (simp_all add: Header_new_def align_padding_def)
  then show "Record_read (item_wire (FCGIType.EndRequest rid app st) @ rest) =
    (case ProtoStatus_try_from st of
       Inl x \<Rightarrow> Inl (NotFcgiStatus x)
     | Inr ps \<Rightarrow> Inr (Some \<lparr>header = ?h,
         body = Body.EndRequest \<lparr>app_status = app, protocol_status = ps\<rparr>\<rparr>, rest))"
    by (simp add: item_wire_def frame_8 Header_write_into_bytes Record_parse_body_def
      EndRequestBody_parse_def advance_def Header_new_def split: sum.split)
qed

end
