(* ===== verification/Slab.thy ===== *)
theory Slab
  imports Prelude
begin

text \<open>
  The store of running requests: \<open>slab::Slab\<close>, a library type. Its documented behaviour is the
  locale \<open>slab_store\<close>: a partial map from keys to values that hands out a key itself when a value
  is inserted. Which vacant key it takes is a parameter of the model (an argument of the insertion).
  The list of the occupied slots is the representation that the model computes with; it
  interprets the locale.
\<close>

locale slab_store =
  fixes wf :: "'s \<Rightarrow> bool"
    and look :: "'s \<Rightarrow> nat \<Rightarrow> 'v option"
    and ins :: "nat \<Rightarrow> 'v \<Rightarrow> 's \<Rightarrow> 's"
    and put :: "nat \<Rightarrow> 'v \<Rightarrow> 's \<Rightarrow> 's"
    and del :: "nat \<Rightarrow> 's \<Rightarrow> 's"
    and each :: "('v \<Rightarrow> 'v) \<Rightarrow> 's \<Rightarrow> 's"
    and size :: "'s \<Rightarrow> nat"
  assumes look_ins: "look (ins k v s) = (look s)(k \<mapsto> v)"
    and look_put: "look s k \<noteq> None \<Longrightarrow> look (put k v s) = (look s)(k \<mapsto> v)"
    and look_del: "look (del k s) = (look s)(k := None)"
    and look_each: "look (each f s) = map_option f \<circ> look s"
    and size_ins: "size (ins k v s) = Suc (size s)"
    and size_put: "size (put k v s) = size s"
    and size_del: "wf s \<Longrightarrow> look s k \<noteq> None \<Longrightarrow> Suc (size (del k s)) = size s"
    and size_each: "size (each f s) = size s"
    and wf_ins: "wf s \<Longrightarrow> look s k = None \<Longrightarrow> wf (ins k v s)"
    and wf_put: "wf s \<Longrightarrow> wf (put k v s)"
    and wf_del: "wf s \<Longrightarrow> wf (del k s)"
    and wf_each: "wf s \<Longrightarrow> wf (each f s)"
begin

lemma dom_put: "look s k \<noteq> None \<Longrightarrow> dom (look (put k v s)) = dom (look s)"
  by (auto simp: look_put)

lemma dom_each: "dom (look (each f s)) = dom (look s)"
  by (auto simp: look_each)

lemma put_other: "look s k \<noteq> None \<Longrightarrow> j \<noteq> k \<Longrightarrow> look (put k v s) j = look s j"
  by (simp add: look_put)

lemma put_same: "look s k \<noteq> None \<Longrightarrow> look (put k v s) k = Some v"
  by (simp add: look_put)

text \<open>A property of all values: what keeps it.\<close>

definition all_values :: "('v \<Rightarrow> bool) \<Rightarrow> 's \<Rightarrow> bool" where
  "all_values P s \<longleftrightarrow> (\<forall>k v. look s k = Some v \<longrightarrow> P v)"

lemma all_values_put: "look s k \<noteq> None \<Longrightarrow> all_values P s \<Longrightarrow> P v \<Longrightarrow> all_values P (put k v s)"
  by (auto simp: all_values_def look_put)

lemma all_values_ins: "all_values P s \<Longrightarrow> P v \<Longrightarrow> all_values P (ins k v s)"
  by (auto simp: all_values_def look_ins)

lemma all_values_del: "all_values P s \<Longrightarrow> all_values P (del k s)"
  by (auto simp: all_values_def look_del)

lemma all_values_each: "all_values P s \<Longrightarrow> (\<And>v. P v \<Longrightarrow> P (f v)) \<Longrightarrow> all_values P (each f s)"
  by (auto simp: all_values_def look_each)

end

section \<open>The representation\<close>

type_synonym 'v slots = "(nat \<times> 'v) list"

definition Slab_get :: "'v slots \<Rightarrow> nat \<Rightarrow> 'v option" where
  "Slab_get s = map_of s"

definition Slab_insert :: "nat \<Rightarrow> 'v \<Rightarrow> 'v slots \<Rightarrow> 'v slots" where
  "Slab_insert k v s = (k, v) # s"

text \<open>Assignment through \<open>get_mut\<close>, and \<open>iter_mut\<close>.\<close>

definition Slab_put :: "nat \<Rightarrow> 'v \<Rightarrow> 'v slots \<Rightarrow> 'v slots" where
  "Slab_put k v s = map (\<lambda>(k', v'). (k', if k' = k then v else v')) s"

definition Slab_each :: "('v \<Rightarrow> 'v) \<Rightarrow> 'v slots \<Rightarrow> 'v slots" where
  "Slab_each f s = map (\<lambda>(k, v). (k, f v)) s"

definition Slab_delete :: "nat \<Rightarrow> 'v slots \<Rightarrow> 'v slots" where
  "Slab_delete k s = filter (\<lambda>(k', _). k' \<noteq> k) s"

text \<open>\<open>remove\<close> panics on a vacant key; so does indexing.\<close>

definition Slab_remove :: "nat \<Rightarrow> 'v slots \<Rightarrow> panic + 'v slots" where
  "Slab_remove k s =
     (case Slab_get s k of None \<Rightarrow> Inl InvalidSlabKey | Some _ \<Rightarrow> Inr (Slab_delete k s))"

definition Slab_index :: "'v slots \<Rightarrow> nat \<Rightarrow> panic + 'v" where
  "Slab_index s k = (case Slab_get s k of None \<Rightarrow> Inl InvalidSlabKey | Some v \<Rightarrow> Inr v)"

definition Slab_wf :: "'v slots \<Rightarrow> bool" where
  "Slab_wf s \<longleftrightarrow> distinct (map fst s)"

lemma Slab_get_put: "Slab_get s k \<noteq> None \<Longrightarrow> Slab_get (Slab_put k v s) = (Slab_get s)(k \<mapsto> v)"
proof
  fix j
  assume "Slab_get s k \<noteq> None"
  moreover have "Slab_get s k \<noteq> None \<Longrightarrow> Slab_get (Slab_put k v s) k = Some v"
    by (induction s) (auto simp: Slab_get_def Slab_put_def split: if_splits)
  moreover have "j \<noteq> k \<Longrightarrow> Slab_get (Slab_put k v s) j = Slab_get s j"
    by (induction s) (auto simp: Slab_get_def Slab_put_def)
  ultimately show "Slab_get (Slab_put k v s) j = ((Slab_get s)(k \<mapsto> v)) j" by auto
qed

lemma Slab_get_each: "Slab_get (Slab_each f s) = map_option f \<circ> Slab_get s"
  by (rule ext) (simp add: Slab_get_def Slab_each_def map_of_map)

lemma Slab_get_delete: "Slab_get (Slab_delete k s) = (Slab_get s)(k := None)"
  unfolding Slab_get_def Slab_delete_def by (induction s) (auto simp: fun_eq_iff)

lemma length_delete:
  "Slab_wf s \<Longrightarrow> Slab_get s k \<noteq> None \<Longrightarrow> Suc (length (Slab_delete k s)) = length s"
proof (induction s)
  case (Cons e s)
  obtain j v where e: "e = (j, v)" by (cases e)
  show ?case
  proof (cases "j = k")
    case True
    with Cons.prems(1) have "Slab_delete k s = s"
      by (auto simp: e Slab_wf_def Slab_delete_def filter_id_conv image_iff)
    with True show ?thesis by (simp add: e Slab_delete_def)
  next
    case False
    with Cons show ?thesis by (simp add: e Slab_wf_def Slab_get_def Slab_delete_def)
  qed
qed (simp add: Slab_get_def)

lemma fst_put: "map fst (Slab_put k v s) = map fst s"
  by (induction s) (auto simp: Slab_put_def)

lemma fst_each: "map fst (Slab_each f s) = map fst s"
  by (induction s) (auto simp: Slab_each_def)

interpretation slab: slab_store Slab_wf Slab_get Slab_insert Slab_put Slab_delete Slab_each length
proof
  fix s :: "'v slots" and k v f
  show "Slab_get (Slab_insert k v s) = (Slab_get s)(k \<mapsto> v)"
    by (simp add: Slab_get_def Slab_insert_def)
  show "Slab_wf s \<Longrightarrow> Slab_get s k = None \<Longrightarrow> Slab_wf (Slab_insert k v s)"
    by (simp add: Slab_wf_def Slab_get_def Slab_insert_def map_of_eq_None_iff)
  show "Slab_wf s \<Longrightarrow> Slab_wf (Slab_delete k s)"
    unfolding Slab_wf_def Slab_delete_def by (induction s) auto
  show "Slab_wf s \<Longrightarrow> Slab_wf (Slab_put k v s)" "Slab_wf s \<Longrightarrow> Slab_wf (Slab_each f s)"
    by (simp_all add: Slab_wf_def fst_put fst_each)
  show "length (Slab_insert k v s) = Suc (length s)" "length (Slab_put k v s) = length s"
    "length (Slab_each f s) = length s"
    by (simp_all add: Slab_insert_def Slab_put_def Slab_each_def)
qed (rule Slab_get_put Slab_get_delete Slab_get_each length_delete; assumption?)+

lemma Slab_remove_Inr: "Slab_get s k \<noteq> None \<Longrightarrow> Slab_remove k s = Inr (Slab_delete k s)"
  by (auto simp: Slab_remove_def)

lemma Slab_remove_InrD: "Slab_remove k s = Inr s' \<Longrightarrow> Slab_get s k \<noteq> None \<and> s' = Slab_delete k s"
  by (auto simp: Slab_remove_def split: option.splits)

lemmas slab_simps = slab.look_ins slab.look_put slab.look_del slab.look_each
  slab.size_ins slab.size_put slab.size_each

end
