(* ===== verification/Httpparse.thy ===== *)
theory Httpparse
  imports Prelude
begin

text \<open>
  \<open>src/httpparse.rs\<close>: the CGI header block of a response.

  \<open>httparse::parse_headers\<close> and \<open>HeaderName::from_bytes\<close> are library code: parameters. A parsed
  header is its name with the place of its value in the buffer (the source computes the offset from
  the addresses). The header map is the list of its names and values; \<open>insert\<close> replaces.
\<close>

definition MAX_HEADERS :: nat where
  "MAX_HEADERS = 100"

datatype parse_status =
    Complete nat "(bytes \<times> nat \<times> nat) list"
  | Partial

type_synonym HeaderMap = "(bytes \<times> bytes) list"

definition HeaderMap_insert :: "bytes \<Rightarrow> bytes \<Rightarrow> HeaderMap \<Rightarrow> HeaderMap" where
  "HeaderMap_insert name val m = filter (\<lambda>(n, _). n \<noteq> name) m @ [(name, val)]"

definition HeaderMap_get :: "bytes \<Rightarrow> HeaderMap \<Rightarrow> bytes option" where
  "HeaderMap_get name m = map_of m name"

datatype ParseResult =
    Ok bytes
  | Pending
  | Err

fun add_headers ::
  "(bytes \<Rightarrow> bytes option) \<Rightarrow> bytes \<Rightarrow> (bytes \<times> nat \<times> nat) list \<Rightarrow> HeaderMap \<Rightarrow> panic + HeaderMap" where
  "add_headers from_bytes bs [] m = Inr m"
| "add_headers from_bytes bs ((name, value_start, n) # hs) m =
     (case from_bytes name of
        None \<Rightarrow> Inl InvalidHeaderName
      | Some name \<Rightarrow>
          rbind (slice value_start (value_start + n) bs) (\<lambda>val.
            add_headers from_bytes bs hs (HeaderMap_insert name val m)))"

definition parse ::
  "(nat \<Rightarrow> bytes \<Rightarrow> parse_status option) \<Rightarrow> (bytes \<Rightarrow> bytes option) \<Rightarrow>
     bytes \<Rightarrow> HeaderMap \<Rightarrow> panic + ParseResult \<times> HeaderMap" where
  "parse parse_headers from_bytes bs m =
     (case parse_headers MAX_HEADERS bs of
        Some (Complete pos hs) \<Rightarrow>
          rbind (add_headers from_bytes bs hs m) (\<lambda>m.
          rbind (advance pos bs) (\<lambda>bs.
            Inr (Ok bs, m)))
      | Some Partial \<Rightarrow> Inr (Pending, m)
      | None \<Rightarrow> Inr (Err, m))"

text \<open>
  What the crate relies on: the values and the end of the block lie within the buffer (the types of
  \<open>httparse\<close> say so: slices of the buffer). It also relies on every name that \<open>httparse\<close> accepts being a
  \<open>HeaderName\<close> (\<open>expect\<close>); that is not assumed, it fails for names of more than 65535 bytes.
\<close>

definition header_within :: "bytes \<Rightarrow> bytes \<times> nat \<times> nat \<Rightarrow> bool" where
  "header_within bs = (\<lambda>(name, value_start, n). value_start + n \<le> length bs)"

definition parses_within :: "(nat \<Rightarrow> bytes \<Rightarrow> parse_status option) \<Rightarrow> bool" where
  "parses_within parse_headers \<longleftrightarrow>
     (\<forall>n bs pos hs. parse_headers n bs = Some (Complete pos hs) \<longrightarrow>
        pos \<le> length bs \<and> list_all (header_within bs) hs)"

definition name_refused ::
  "(nat \<Rightarrow> bytes \<Rightarrow> parse_status option) \<Rightarrow> (bytes \<Rightarrow> bytes option) \<Rightarrow> bytes \<Rightarrow> bool" where
  "name_refused parse_headers from_bytes bs \<longleftrightarrow>
     (case parse_headers MAX_HEADERS bs of
        Some (Complete pos hs) \<Rightarrow> list_ex (\<lambda>h. from_bytes (fst h) = None) hs
      | _ \<Rightarrow> False)"

lemma HeaderMap_get_insert:
  "HeaderMap_get n (HeaderMap_insert name val m) = (if n = name then Some val else HeaderMap_get n m)"
proof -
  have "map_of (filter (\<lambda>(n, _). n \<noteq> name) m) n = (if n = name then None else map_of m n)"
    by (induction m) auto
  then show ?thesis
    by (auto simp: HeaderMap_get_def HeaderMap_insert_def map_add_def split: option.split)
qed

lemma add_headers_panic:
  "add_headers from_bytes bs hs m = Inl e \<Longrightarrow> list_all (header_within bs) hs \<Longrightarrow>
    e = InvalidHeaderName \<and> list_ex (\<lambda>h. from_bytes (fst h) = None) hs"
  by (induction hs arbitrary: m) (auto simp: header_within_def slice_def split: option.splits)

lemma parse_headers_panic:
  assumes "parses_within parse_headers" "parse parse_headers from_bytes bs m = Inl e"
  shows "e = InvalidHeaderName \<and> name_refused parse_headers from_bytes bs"
proof -
  from assms(2) obtain pos hs where p: "parse_headers MAX_HEADERS bs = Some (Complete pos hs)"
    by (auto simp: parse_def split: option.splits parse_status.splits)
  with assms(1) have w: "pos \<le> length bs" "list_all (header_within bs) hs" by (auto simp: parses_within_def)
  with assms(2) p have "add_headers from_bytes bs hs m = Inl e"
    by (cases "add_headers from_bytes bs hs m") (auto simp: parse_def advance_def)
  from add_headers_panic [OF this w(2)] p show ?thesis by (simp add: name_refused_def)
qed

end
