(* ===== verification/Connection.thy ===== *)
theory Connection
  imports Fcgi_Reader Slab Io Httpparse
begin

text \<open>
  \<open>src/client/connection.rs\<close>: one connection, shared by the requests that are multiplexed on it.

  Everything that runs while the mutex of \<open>InnerConnection\<close> is held is one operation here.
  \<open>fill\<close> is what the next read of the stream would give; \<open>dbg\<close> says whether debug assertions are
  on; a waker is the number of the task it wakes. \<open>sem\<close> counts the free permits of the
  connection's semaphore: a request holds one while it is in the slab, and dropping it from the
  slab gives it back. \<open>woken\<close> lists the tasks that were woken, by a request's waker or by the
  stream. \<open>io_tx\<close> is what was written to the stream since it was connected.
\<close>

section \<open>State\<close>

record FCGIRequest =
  rq_buf :: BufList
  rq_waker :: "nat option"
  rq_ended :: bool
  rq_aborted :: bool

record InnerConnection =
  io_rx :: bytes
  io_tx :: bytes
  io_waker :: "nat option"
  running_requests :: "FCGIRequest slots"
  fcgi_parser :: RecordReader
  sem :: nat
  woken :: "nat list"

definition FCGIRequest_new :: FCGIRequest where
  "FCGIRequest_new = \<lparr>rq_buf = BufList_new, rq_waker = None, rq_ended = False, rq_aborted = False\<rparr>"

datatype 'a poll = Pending | Ready 'a

datatype fill = FillPending | FillErr IoError | FillData bytes

text \<open>\<open>waker.take()\<close> and \<open>wake()\<close>\<close>

definition wake :: "FCGIRequest \<Rightarrow> nat list" where
  "wake q = (case rq_waker q of None \<Rightarrow> [] | Some t \<Rightarrow> [t])"

text \<open>
  \<open>BufReader::poll_fill_buf\<close> returns the internal buffer, and reads the stream only when that
  is empty.
\<close>

definition poll_fill_buf :: "fill \<Rightarrow> bytes \<Rightarrow> fill" where
  "poll_fill_buf fill rx = (if rx \<noteq> [] then FillData rx else fill)"

text \<open>
  The stream remembers one waker, that of the last task whose poll was pending; when it becomes
  readable or fails it wakes this task, once. A poll that is served from the internal buffer does
  not reach the stream.
\<close>

definition register_io :: "nat \<Rightarrow> fill \<Rightarrow> InnerConnection \<Rightarrow> InnerConnection" where
  "register_io task fill self =
     (if io_rx self \<noteq> [] then self
      else if fill = FillPending then self\<lparr>io_waker := Some task\<rparr>
      else self\<lparr>io_waker := None,
        woken := woken self @ (case io_waker self of None \<Rightarrow> [] | Some t \<Rightarrow> [t])\<rparr>)"

lemma register_io_simps [simp]:
  "io_rx (register_io task fill c) = io_rx c" "io_tx (register_io task fill c) = io_tx c"
  "running_requests (register_io task fill c) = running_requests c"
  "fcgi_parser (register_io task fill c) = fcgi_parser c" "sem (register_io task fill c) = sem c"
  by (simp_all add: register_io_def)

section \<open>\<open>InnerConnection\<close>\<close>

definition notify_request :: "FCGIRequest \<Rightarrow> FCGIRequest" where
  "notify_request q =
     (let q = q\<lparr>rq_waker := None\<rparr> in if rq_aborted q then q else q\<lparr>rq_ended := True\<rparr>)"

definition InnerConnection_notify_everyone :: "InnerConnection \<Rightarrow> InnerConnection" where
  "InnerConnection_notify_everyone self =
     self\<lparr>running_requests := Slab_each notify_request (running_requests self),
       woken := woken self @ concat (map (\<lambda>(_, q). wake q) (running_requests self))\<rparr>"

text \<open>The body of the loop in \<open>parse_and_distribute\<close>.\<close>

definition InnerConnection_distribute ::
  "bool \<Rightarrow> Record \<Rightarrow> InnerConnection \<Rightarrow> panic + InnerConnection" where
  "InnerConnection_distribute dbg r self =
     (let rid = Record_get_request_id r; req_no = unat (rid - 1) in
      if rid = 0 then Inr self
      else
        case Slab_get (running_requests self) req_no of
          None \<Rightarrow> Inr self
        | Some mpxs \<Rightarrow>
            (case body r of
               Body.EndRequest status \<Rightarrow>
                 let self = self\<lparr>running_requests :=
                         Slab_put req_no (mpxs\<lparr>rq_ended := True, rq_waker := None\<rparr>) (running_requests self),
                       woken := woken self @ wake mpxs\<rparr> in
                 if rq_aborted mpxs then
                   rbind (Slab_remove req_no (running_requests self)) (\<lambda>s.
                     Inr (self\<lparr>running_requests := s, sem := sem self + 1\<rparr>))
                 else Inr self
             | _ \<Rightarrow>
                 if rq_aborted mpxs then Inr self
                 else
                   (case body r of
                      Body.StdOut s \<Rightarrow>
                        if s \<noteq> [] then
                          rbind (BufList_push dbg (rq_buf mpxs) s) (\<lambda>b.
                            Inr (self\<lparr>running_requests :=
                                Slab_put req_no (mpxs\<lparr>rq_buf := b, rq_waker := None\<rparr>) (running_requests self),
                              woken := woken self @ wake mpxs\<rparr>))
                        else Inr self
                    | _ \<Rightarrow> Inr self)))"

lemma distribute_parser:
  "InnerConnection_distribute dbg r self = Inr self' \<Longrightarrow> fcgi_parser self' = fcgi_parser self"
  by (auto simp: InnerConnection_distribute_def Let_def rbind_Inr_iff split: if_splits option.splits Body.splits)

function InnerConnection_parse_and_distribute ::
  "bool \<Rightarrow> bytes \<Rightarrow> InnerConnection \<Rightarrow> panic + bytes \<times> InnerConnection" where
  "InnerConnection_parse_and_distribute dbg data self =
     (case RecordReader_read (fcgi_parser self) data of
        Inl e \<Rightarrow> Inl e
      | Inr (None, p, data) \<Rightarrow> Inr (data, self\<lparr>fcgi_parser := p\<rparr>)
      | Inr (Some r, p, data) \<Rightarrow>
          rbind (InnerConnection_distribute dbg r (self\<lparr>fcgi_parser := p\<rparr>)) (\<lambda>self.
            InnerConnection_parse_and_distribute dbg data self))"
  by pat_completeness auto
termination
  by (relation "measure (\<lambda>(dbg, data, self). reader_size (fcgi_parser self) data)")
    (auto dest!: RecordReader_read_progress distribute_parser)

declare InnerConnection_parse_and_distribute.simps [simp del]

definition InnerConnection_poll_resp ::
  "bool \<Rightarrow> nat \<Rightarrow> fill \<Rightarrow> InnerConnection \<Rightarrow> panic + (IoError + unit) option poll \<times> InnerConnection" where
  "InnerConnection_poll_resp dbg task fill self =
     (let self = register_io task fill self in
      case poll_fill_buf fill (io_rx self) of
        FillPending \<Rightarrow> Inr (Pending, self)
      | FillErr e \<Rightarrow> Inr (Ready (Some (Inl e)), InnerConnection_notify_everyone self)
      | FillData rbuf \<Rightarrow>
          let self = self\<lparr>io_rx := rbuf\<rparr> in
          rbind (if rbuf = [] then Inr (0, self)
             else rbind (InnerConnection_parse_and_distribute dbg rbuf self) (\<lambda>(data, self).
               Inr (length rbuf - length data, self)))
            (\<lambda>(read, self).
             if read = 0 then Inr (Ready None, InnerConnection_notify_everyone self)
             else Inr (Ready (Some (Inr ())), self\<lparr>io_rx := drop read (io_rx self)\<rparr>)))"

definition CheckAlive_poll ::
  "bool \<Rightarrow> nat \<Rightarrow> fill \<Rightarrow> InnerConnection \<Rightarrow> panic + (IoError + bool) \<times> InnerConnection" where
  "CheckAlive_poll dbg task fill self =
     rbind (InnerConnection_poll_resp dbg task fill self) (\<lambda>(p, self).
       Inr (case p of
              Ready None \<Rightarrow> Inr False
            | Ready (Some (Inl (IoError k m))) \<Rightarrow>
                if k = NotConnected then Inr False else Inl (IoError k m)
            | _ \<Rightarrow> Inr True, self))"

section \<open>\<open>FCGIBody\<close>: the response body of one request\<close>

record FCGIBody =
  fb_rid :: u16
  fb_done :: bool
  fb_was_returned :: bool

text \<open>
  \<open>poll_frame\<close>: \<open>lock\<close> says whether the mutex is free. The future of \<open>con.lock()\<close> lives for this one
  poll only, so a poll that finds the mutex taken leaves no waker behind, neither with the mutex
  nor with the request.
\<close>

definition FCGIBody_poll_frame ::
  "bool \<Rightarrow> bool \<Rightarrow> nat \<Rightarrow> fill \<Rightarrow> FCGIBody \<Rightarrow> InnerConnection \<Rightarrow>
     panic + bytes option poll \<times> FCGIBody \<times> InnerConnection" where
  "FCGIBody_poll_frame dbg lock task fill self con =
     (if fb_done self then Inr (Ready None, self, con)
      else if \<not> lock then Inr (Pending, self, con)
      else
        rbind (InnerConnection_poll_resp dbg task fill con) (\<lambda>(con_stat, con).
        let rid = unat (fb_rid self);
            release = (\<lambda>res con. rbind (Slab_remove rid (running_requests con)) (\<lambda>s.
              Inr (res, self\<lparr>fb_done := True\<rparr>, con\<lparr>running_requests := s, sem := sem con + 1\<rparr>))) in
        case Slab_get (running_requests con) rid of
          None \<Rightarrow> Inr (Ready None, self\<lparr>fb_done := True\<rparr>, con)
        | Some slab \<Rightarrow>
            if BufList_remaining (rq_buf slab) \<ge> 1 then
              (case BufList_oldest (rq_buf slab) of
                 (None, _) \<Rightarrow> Inl UnwrapNone
               | (Some d, rest) \<Rightarrow>
                   let con = con\<lparr>running_requests :=
                     Slab_put rid (slab\<lparr>rq_buf := rest\<rparr>) (running_requests con)\<rparr> in
                   if fb_was_returned self \<and> rq_ended slab \<and> BufList_remaining rest < 1
                   then release (Ready (Some d)) con
                   else Inr (Ready (Some d), self, con))
            else if rq_ended slab then
              (if fb_was_returned self then release (Ready None) con
               else Inr (Ready None, self, con))
            else Inr (Pending, self, con\<lparr>running_requests :=
                Slab_put rid (slab\<lparr>rq_waker := Some task\<rparr>) (running_requests con)\<rparr>)))"

definition FCGIBody_drop :: "bool \<Rightarrow> FCGIBody \<Rightarrow> InnerConnection \<Rightarrow> InnerConnection" where
  "FCGIBody_drop lock self con =
     (if fb_done self then con
      else if lock then
        (case Slab_get (running_requests con) (unat (fb_rid self)) of
           Some req \<Rightarrow> con\<lparr>running_requests :=
             Slab_put (unat (fb_rid self)) (req\<lparr>rq_aborted := True, rq_waker := None\<rparr>) (running_requests con)\<rparr>
         | None \<Rightarrow> con)
      else con)"

section \<open>\<open>create_response\<close>\<close>

text \<open>
  The future of \<open>create_response\<close> gives the mutex away between two reads, and between the end of
  the header block and the return of what follows it to the request's buffer. Its states: reading
  the header (with the header bytes that are not complete yet), waiting to put back the rest of
  the fragment, and returned. \<open>StatusCode::from_bytes\<close> is library code: a parameter.
\<close>

datatype response =
    Reading FCGIBody "bytes option" HeaderMap
  | PuttingBack FCGIBody bytes HeaderMap
  | Returned FCGIBody u16 HeaderMap

definition create_response_start :: "u16 \<Rightarrow> response" where
  "create_response_start rid =
     Reading \<lparr>fb_rid = rid - 1, fb_done = False, fb_was_returned = False\<rparr> None []"

definition response_status :: "(bytes \<Rightarrow> u16 option) \<Rightarrow> HeaderMap \<Rightarrow> u16" where
  "response_status status_code m =
     (case HeaderMap_get (bstr ''status'') m of
        Some stat \<Rightarrow>
          if length stat \<ge> 3 then (case status_code (take 3 stat) of Some s \<Rightarrow> s | None \<Rightarrow> 200) else 200
      | None \<Rightarrow> 200)"

definition response_return :: "FCGIBody \<Rightarrow> u16 \<Rightarrow> HeaderMap \<Rightarrow> response" where
  "response_return fcgibody status m = Returned (fcgibody\<lparr>fb_was_returned := True\<rparr>) status m"

definition create_response_fragment ::
  "(bytes \<Rightarrow> HeaderMap \<Rightarrow> panic + ParseResult \<times> HeaderMap) \<Rightarrow> (bytes \<Rightarrow> u16 option) \<Rightarrow>
     FCGIBody \<Rightarrow> bytes option \<Rightarrow> HeaderMap \<Rightarrow> bytes \<Rightarrow> panic + response" where
  "create_response_fragment prs status_code fcgibody buf m b =
     (let b = (case buf of Some left \<Rightarrow> left @ b | None \<Rightarrow> b) in
      rbind (prs b m) (\<lambda>(res, m).
        case res of
          ParseResult.Ok bodydata \<Rightarrow>
            if bodydata \<noteq> [] then Inr (PuttingBack fcgibody bodydata m)
            else Inr (response_return fcgibody (response_status status_code m) m)
        | ParseResult.Pending \<Rightarrow> Inr (Reading fcgibody (Some b) m)
        | ParseResult.Err \<Rightarrow> Inr (response_return fcgibody 500 m)))"

text \<open>One poll of the future under the mutex.\<close>

definition create_response_poll ::
  "(bytes \<Rightarrow> HeaderMap \<Rightarrow> panic + ParseResult \<times> HeaderMap) \<Rightarrow> (bytes \<Rightarrow> u16 option) \<Rightarrow>
     bool \<Rightarrow> bool \<Rightarrow> nat \<Rightarrow> fill \<Rightarrow> response \<Rightarrow> InnerConnection \<Rightarrow> panic + response \<times> InnerConnection" where
  "create_response_poll prs status_code dbg lock task fill self con =
     (case self of
        Reading fcgibody buf m \<Rightarrow>
          rbind (FCGIBody_poll_frame dbg lock task fill fcgibody con) (\<lambda>(p, fcgibody, con).
            case p of
              Pending \<Rightarrow> Inr (Reading fcgibody buf m, con)
            | Ready None \<Rightarrow> Inr (response_return fcgibody 200 m, con)
            | Ready (Some b) \<Rightarrow>
                rbind (create_response_fragment prs status_code fcgibody buf m b) (\<lambda>self. Inr (self, con)))
      | PuttingBack fcgibody bodydata m \<Rightarrow>
          if \<not> lock then Inr (self, con)
          else
            rbind (Slab_index (running_requests con) (unat (fb_rid fcgibody))) (\<lambda>req.
            rbind (BufList_push dbg (rq_buf req) bodydata) (\<lambda>b.
              Inr (response_return fcgibody (response_status status_code m) m,
                con\<lparr>running_requests := Slab_put (unat (fb_rid fcgibody)) (req\<lparr>rq_buf := b\<rparr>)
                  (running_requests con)\<rparr>)))
      | Returned fcgibody status m \<Rightarrow> Inr (self, con))"

section \<open>Admission of a request\<close>

text \<open>
  The first part of \<open>forward\<close>: wait for a permit; then, with the mutex, check that the connection is
  alive, reconnect if it is not (\<open>reconnect\<close>: what \<open>Stream::connect\<close> returns; the error of the old
  stream's shutdown is only logged), and put the request in the slab. \<open>alloc\<close> is the key that the
  slab chooses. An error before the insertion drops the request, and with it the permit.
\<close>

definition Connection_acquire :: "InnerConnection \<Rightarrow> InnerConnection poll" where
  "Connection_acquire self = (if sem self = 0 then Pending else Ready (self\<lparr>sem := sem self - 1\<rparr>))"

definition Connection_admit ::
  "bool \<Rightarrow> (FCGIRequest slots \<Rightarrow> nat) \<Rightarrow> nat \<Rightarrow> fill \<Rightarrow> IoError + unit \<Rightarrow> InnerConnection \<Rightarrow>
     panic + (IoError + u16) \<times> InnerConnection" where
  "Connection_admit dbg alloc task fill reconnect self =
     rbind (CheckAlive_poll dbg task fill self) (\<lambda>(alive, self).
     let fail = (\<lambda>e self. Inr (Inl e, self\<lparr>sem := sem self + 1\<rparr>));
         insert = (\<lambda>self.
           let key = alloc (running_requests self) in
           Inr (Inr (of_nat (key + 1)),
             self\<lparr>running_requests := Slab_insert key FCGIRequest_new (running_requests self)\<rparr>)) in
     case alive of
       Inl e \<Rightarrow> fail e self
     | Inr True \<Rightarrow> insert self
     | Inr False \<Rightarrow>
         let self = InnerConnection_notify_everyone self in
         (case reconnect of
            Inl e \<Rightarrow> fail e self
          | Inr _ \<Rightarrow> insert (self\<lparr>io_rx := [], io_tx := [], io_waker := None,
              fcgi_parser := RecordReader_new\<rparr>)))"

definition Connection_is_ready :: "InnerConnection \<Rightarrow> bool" where
  "Connection_is_ready self \<longleftrightarrow> sem self > 0"

text \<open>The connection inside a \<open>Connection\<close>, once the stream is connected.\<close>

definition Connection_new :: "u16 \<Rightarrow> InnerConnection" where
  "Connection_new max_req_per_con = \<lparr>io_rx = [], io_tx = [], io_waker = None, running_requests = [],
     fcgi_parser = RecordReader_new, sem = unat max_req_per_con, woken = []\<rparr>"

text \<open>\<open>close\<close>: when the shutdown of the stream succeeds, everyone is notified.\<close>

definition Connection_close :: "IoError + unit \<Rightarrow> InnerConnection \<Rightarrow> (IoError + unit) \<times> InnerConnection" where
  "Connection_close shutdown self =
     (case shutdown of Inl e \<Rightarrow> (Inl e, self) | Inr _ \<Rightarrow> (Inr (), InnerConnection_notify_everyone self))"

section \<open>\<open>Connection\<close>\<close>

datatype MultiHeaderStrategy = Combine | OnlyFirst | OnlyLast

datatype HeaderMultilineStrategy = Ignore | ReturnError

record Connection =
  conn_inner :: InnerConnection
  header_mul :: MultiHeaderStrategy
  header_nl :: HeaderMultilineStrategy

text \<open>\<open>connected\<close>: what \<open>Stream::connect\<close> returns.\<close>

definition Connection_connect_with_strategy ::
  "IoError + unit \<Rightarrow> u16 \<Rightarrow> MultiHeaderStrategy \<Rightarrow> HeaderMultilineStrategy \<Rightarrow> IoError + Connection" where
  "Connection_connect_with_strategy connected max_req_per_con mul nl =
     (case connected of
        Inl e \<Rightarrow> Inl e
      | Inr _ \<Rightarrow> Inr \<lparr>conn_inner = Connection_new max_req_per_con, header_mul = mul, header_nl = nl\<rparr>)"

definition Connection_connect :: "IoError + unit \<Rightarrow> u16 \<Rightarrow> IoError + Connection" where
  "Connection_connect connected max_req_per_con =
     Connection_connect_with_strategy connected max_req_per_con OnlyFirst Ignore"

end
