(* ===== verification/Decimal.thy ===== *)
theory Decimal
  imports Prelude
begin

text \<open>
  Numbers as decimal text, from Rust's standard library: \<open>to_string\<close> of an unsigned integer, as
  \<open>src/client/connection.rs\<close> uses it for \<open>CONTENT_LENGTH\<close>, and \<open>str::parse\<close> of an unsigned integer
  type, as \<open>src/client/con_pool.rs\<close> uses it for the answers of the server. Parsing accepts a leading
  plus sign and at least one digit, and fails when the value exceeds the type.
\<close>

fun to_decimal :: "nat \<Rightarrow> bytes" where
  "to_decimal n = (if n < 10 then [of_nat (48 + n)] else to_decimal (n div 10) @ [of_nat (48 + n mod 10)])"

declare to_decimal.simps [simp del]

definition is_digit :: "u8 \<Rightarrow> bool" where
  "is_digit c \<longleftrightarrow> 48 \<le> unat c \<and> unat c \<le> 57"

definition from_digits :: "bytes \<Rightarrow> nat" where
  "from_digits ds = foldl (\<lambda>n c. n * 10 + (unat c - 48)) 0 ds"

definition parse_unsigned :: "nat \<Rightarrow> bytes \<Rightarrow> nat option" where
  "parse_unsigned limit s =
     (let ds = (case s of c # r \<Rightarrow> if c = 43 then r else s | [] \<Rightarrow> []) in
      if ds \<noteq> [] \<and> list_all is_digit ds \<and> from_digits ds \<le> limit then Some (from_digits ds) else None)"

lemma unat_digit: "n < 10 \<Longrightarrow> unat (of_nat (48 + n) :: u8) = 48 + n"
  by (rule unat_of_nat_u8) simp

lemma to_decimal_digits: "to_decimal n \<noteq> [] \<and> list_all is_digit (to_decimal n) \<and> from_digits (to_decimal n) = n"
proof (induction n rule: to_decimal.induct)
  case (1 n)
  have m: "n mod 10 < 10" by simp
  show ?case
  proof (cases "n < 10")
    case True
    then show ?thesis
      using unat_digit [OF True] by (simp add: to_decimal.simps [of n] is_digit_def from_digits_def)
  next
    case False
    from 1 [OF False] have ih: "list_all is_digit (to_decimal (n div 10))"
      "from_digits (to_decimal (n div 10)) = n div 10" by simp_all
    then have "from_digits (to_decimal n) = n div 10 * 10 + n mod 10"
      using False unat_digit [OF m] by (simp add: to_decimal.simps [of n] from_digits_def)
    moreover have "list_all is_digit (to_decimal n)"
      using False ih(1) unat_digit [OF m] by (simp add: to_decimal.simps [of n] is_digit_def)
    ultimately show ?thesis using False by (simp add: to_decimal.simps [of n])
  qed
qed

lemma parse_to_decimal: "parse_unsigned limit (to_decimal n) = (if n \<le> limit then Some n else None)"
proof -
  obtain c r where cr: "to_decimal n = c # r" using to_decimal_digits [of n] by (cases "to_decimal n") auto
  with to_decimal_digits [of n] have "is_digit c" by simp
  then have "c \<noteq> 43" by (auto simp: is_digit_def)
  with to_decimal_digits [of n] show ?thesis by (simp add: parse_unsigned_def cr)
qed

end
