(* ===== verification/Forward.thy ===== *)
theory Forward
  imports Codec_Correct Connection Decimal
begin

text \<open>
  \<open>src/client/connection.rs\<close>, the sending half of \<open>forward\<close>: the head of a request (which turns
  HTTP headers into CGI variables) and \<open>send_body\<close>.

  The parts of an \<open>http::Request\<close> that are read: the query, the method, the headers (for every
  distinct name, in lower case, its values in order) and the bounds of the size hint of the body.
  Lengths are \<open>usize\<close> of a 64-bit target.
\<close>

section \<open>Requests\<close>

record HttpRequest =
  uri_query :: "bytes option"
  req_method :: bytes
  req_headers :: "(bytes \<times> bytes list) list"
  hint_lower :: nat
  hint_upper :: "nat option"

definition QUERY_STRING :: bytes where "QUERY_STRING = bstr ''QUERY_STRING''"
definition REQUEST_METHOD :: bytes where "REQUEST_METHOD = bstr ''REQUEST_METHOD''"
definition CONTENT_TYPE :: bytes where "CONTENT_TYPE = bstr ''CONTENT_TYPE''"
definition CONTENT_LENGTH :: bytes where "CONTENT_LENGTH = bstr ''CONTENT_LENGTH''"
definition NULL :: bytes where "NULL = []"

section \<open>One HTTP header as a CGI variable\<close>

definition upper_char :: "u8 \<Rightarrow> u8" where
  "upper_char c = (if c = 45 then 95 else if 97 \<le> c \<and> c \<le> 122 then c - (97 - 65) else c)"

definition header_variable :: "bytes \<Rightarrow> bytes" where
  "header_variable key = bstr ''HTTP_'' @ map upper_char key"

fun combine_loop :: "bytes list \<Rightarrow> bool \<Rightarrow> bytes \<Rightarrow> bytes" where
  "combine_loop [] fst_seen value_buf = value_buf"
| "combine_loop (v # vs) fst_seen value_buf =
     (let value_buf = (if \<not> fst_seen then value_buf else value_buf @ [44]) in
      combine_loop vs True (value_buf @ v))"

definition header_value :: "MultiHeaderStrategy \<Rightarrow> bytes list \<Rightarrow> bytes" where
  "header_value mul vs =
     (case mul of
        Combine \<Rightarrow> combine_loop vs False []
      | OnlyFirst \<Rightarrow> (case vs of v # _ \<Rightarrow> v | [] \<Rightarrow> NULL)
      | OnlyLast \<Rightarrow> (if vs = [] then NULL else last vs))"

definition skipped_headers :: "bytes list" where
  "skipped_headers = [bstr ''authorization'', bstr ''content-length'', bstr ''content-type'']"

fun forward_headers ::
  "(nat \<Rightarrow> u8) \<Rightarrow> MultiHeaderStrategy \<Rightarrow> HeaderMultilineStrategy \<Rightarrow> u16 \<Rightarrow> (bytes \<times> bytes list) list \<Rightarrow>
     NameValuePairWriter \<Rightarrow> NameValuePairWriter iom" where
  "forward_headers uninit mul nl rid [] kvw = io_return kvw"
| "forward_headers uninit mul nl rid ((key, vs) # hs) kvw =
     (if key \<in> set skipped_headers then forward_headers uninit mul nl rid hs kvw
      else
        let k = header_variable key; value = header_value mul vs in
        if nl = ReturnError \<and> 10 \<in> set value then
          io_bind (FCGIWriter_encode uninit (FCGIType.AbortRequest rid)) (\<lambda>_.
            io_fail (Io (IoError InvalidData ''multiline headers are not allowed'')))
        else
          io_bind (NameValuePairWriter_add_kv uninit k value kvw) (\<lambda>kvw.
            forward_headers uninit mul nl rid hs kvw))"

section \<open>The head of a request\<close>

definition header_get :: "bytes \<Rightarrow> (bytes \<times> bytes list) list \<Rightarrow> bytes option" where
  "header_get name hs = (case map_of hs name of Some (v # _) \<Rightarrow> Some v | _ \<Rightarrow> None)"

definition forward_len :: "HttpRequest \<Rightarrow> nat option" where
  "forward_len req = (if hint_upper req = Some 0 then None else Some (hint_lower req))"

definition forward_head ::
  "(nat \<Rightarrow> u8) \<Rightarrow> MultiHeaderStrategy \<Rightarrow> HeaderMultilineStrategy \<Rightarrow> HttpRequest \<Rightarrow>
     (bytes \<times> bytes) list \<Rightarrow> u16 \<Rightarrow> nat option iom" where
  "forward_head uninit mul nl req dyn_headers rid =
     io_bind (FCGIWriter_encode uninit (FCGIType.BeginRequest rid Responder KEEP_CONN)) (\<lambda>_.
     let kvw = FCGIWriter_kv_stream uninit rid RecordType.Params in
     io_bind (NameValuePairWriter_extend uninit dyn_headers kvw) (\<lambda>kvw.
     io_bind (case uri_query req of
                Some query \<Rightarrow> NameValuePairWriter_add_kv uninit QUERY_STRING query kvw
              | None \<Rightarrow> NameValuePairWriter_add_kv uninit QUERY_STRING NULL kvw) (\<lambda>kvw.
     io_bind (NameValuePairWriter_add_kv uninit REQUEST_METHOD (req_method req) kvw) (\<lambda>kvw.
     io_bind (case header_get (bstr ''content-type'') (req_headers req) of
                Some value \<Rightarrow> NameValuePairWriter_add_kv uninit CONTENT_TYPE value kvw
              | None \<Rightarrow> io_return kvw) (\<lambda>kvw.
     io_bind (case forward_len req of
                None \<Rightarrow> io_return kvw
              | Some value \<Rightarrow> NameValuePairWriter_add_kv uninit CONTENT_LENGTH (to_decimal value) kvw) (\<lambda>kvw.
     io_bind (forward_headers uninit mul nl rid (req_headers req) kvw) (\<lambda>kvw.
     io_bind (NameValuePairWriter_flush kvw) (\<lambda>_.
       io_return (forward_len req)))))))))"

section \<open>The body\<close>

text \<open>
  \<open>len -= s\<close> on a \<open>usize\<close>: the subtraction panics with overflow checks (\<open>dbg\<close>) and wraps without.
\<close>

fun send_body_loop :: "bool \<Rightarrow> u16 \<Rightarrow> ('e + bytes) list \<Rightarrow> usize \<Rightarrow> usize iom" where
  "send_body_loop dbg rid [] len' = io_return len'"
| "send_body_loop dbg rid (Inl e # chunks) len' = send_body_loop dbg rid chunks len'"
| "send_body_loop dbg rid (Inr data # chunks) len' =
     (let s = length data in
      if s = 0 then send_body_loop dbg rid chunks len'
      else if dbg \<and> unat len' < s then io_fail (Panicked SubOverflow)
      else
        let len' = len' - of_nat s in
        io_bind (FCGIWriter_flush_data_chunk data rid RecordType.StdIn) (\<lambda>_.
          send_body_loop dbg rid chunks len'))"

definition send_body :: "bool \<Rightarrow> (nat \<Rightarrow> u8) \<Rightarrow> u16 \<Rightarrow> usize \<Rightarrow> ('e + bytes) list \<Rightarrow> unit iom" where
  "send_body dbg uninit rid len' body' =
     io_bind (send_body_loop dbg rid body' len') (\<lambda>len'.
       if len' > 0 then
         io_bind (FCGIWriter_encode uninit (FCGIType.AbortRequest rid)) (\<lambda>_.
           io_fail (Io (IoError ConnectionAborted ''body too short'')))
       else FCGIWriter_flush_data_chunk NULL rid RecordType.StdIn)"

text \<open>
  All that \<open>forward\<close> writes for one request. Between the head and the end of the body it gives the
  mutex away; the records of other requests may come between those of this one.
\<close>

definition forward_write ::
  "bool \<Rightarrow> (nat \<Rightarrow> u8) \<Rightarrow> MultiHeaderStrategy \<Rightarrow> HeaderMultilineStrategy \<Rightarrow> HttpRequest \<Rightarrow>
     ('e + bytes) list \<Rightarrow> (bytes \<times> bytes) list \<Rightarrow> u16 \<Rightarrow> unit iom" where
  "forward_write dbg uninit mul nl req body' dyn_headers rid =
     io_bind (forward_head uninit mul nl req dyn_headers rid) (\<lambda>len'.
       case len' of
         Some len' \<Rightarrow> send_body dbg uninit rid (of_nat len') body'
       | None \<Rightarrow> FCGIWriter_flush_data_chunk NULL rid RecordType.StdIn)"

end
