(* ===== verification/Forward_Correct.thy ===== *)
theory Forward_Correct
  imports Forward
begin

text \<open>
  \<open>src/client/connection.rs\<close>, \<open>forward\<close> and \<open>send_body\<close>: what a request looks like on the wire.

  The specification is the list of CGI variables of a request (\<open>request_env\<close>); the head that is sent
  is a \<open>BeginRequest\<close> record and these variables as one stream, the body is a stream of \<open>StdIn\<close>
  records. The error paths (a header that is refused, a body that is too short or too long) are
  stated with the records that do go out.
\<close>

section \<open>The variables of a request\<close>

definition http_env :: "MultiHeaderStrategy \<Rightarrow> (bytes \<times> bytes list) list \<Rightarrow> (bytes \<times> bytes) list" where
  "http_env mul hs = map (\<lambda>(key, vs). (header_variable key, header_value mul vs))
     (filter (\<lambda>(key, _). key \<notin> set skipped_headers) hs)"

definition request_meta :: "HttpRequest \<Rightarrow> (bytes \<times> bytes) list" where
  "request_meta req =
     [(QUERY_STRING, case uri_query req of Some q \<Rightarrow> q | None \<Rightarrow> []), (REQUEST_METHOD, req_method req)] @
     (case header_get (bstr ''content-type'') (req_headers req) of Some v \<Rightarrow> [(CONTENT_TYPE, v)] | None \<Rightarrow> []) @
     (case forward_len req of Some n \<Rightarrow> [(CONTENT_LENGTH, to_decimal n)] | None \<Rightarrow> [])"

definition request_env ::
  "MultiHeaderStrategy \<Rightarrow> HttpRequest \<Rightarrow> (bytes \<times> bytes) list \<Rightarrow> (bytes \<times> bytes) list" where
  "request_env mul req dyn_headers = dyn_headers @ request_meta req @ http_env mul (req_headers req)"

definition refused ::
  "MultiHeaderStrategy \<Rightarrow> HeaderMultilineStrategy \<Rightarrow> bytes \<times> bytes list \<Rightarrow> bool" where
  "refused mul nl = (\<lambda>(key, vs). key \<notin> set skipped_headers \<and> nl = ReturnError \<and> 10 \<in> set (header_value mul vs))"

text \<open>Combining joins the values with commas.\<close>

lemma combine_loop_seen: "combine_loop vs True b = b @ concat (map (\<lambda>v. 44 # v) vs)"
  by (induction vs arbitrary: b) simp_all

lemma header_value_Combine:
  "header_value Combine [] = []"
  "header_value Combine (v # vs) = v @ concat (map (\<lambda>v. 44 # v) vs)"
  by (simp_all add: header_value_def combine_loop_seen)

section \<open>The head is one \<open>extend\<close>\<close>

lemma extend_simps:
  "NameValuePairWriter_extend uninit [] = io_return"
  "NameValuePairWriter_extend uninit ((k, v) # kvs) w =
     io_bind (NameValuePairWriter_add_kv uninit k v w) (NameValuePairWriter_extend uninit kvs)"
  by (simp_all add: NameValuePairWriter_extend_def [abs_def])

lemma extend_append:
  "NameValuePairWriter_extend uninit (xs @ ys) w =
     io_bind (NameValuePairWriter_extend uninit xs w) (NameValuePairWriter_extend uninit ys)"
proof (induction xs arbitrary: w)
  case (Cons x xs)
  then show ?case by (cases x) (auto simp: extend_simps io_bind_assoc intro!: io_bind_fun)
qed (simp add: extend_simps)

lemma add_kv_extend: "NameValuePairWriter_add_kv uninit k v = NameValuePairWriter_extend uninit [(k, v)]"
  by (rule ext) (simp add: extend_simps)

lemma forward_headers_ok:
  "list_all (\<lambda>h. \<not> refused mul nl h) hs \<Longrightarrow>
     forward_headers uninit mul nl rid hs w = NameValuePairWriter_extend uninit (http_env mul hs) w"
proof (induction hs arbitrary: w)
  case (Cons h hs)
  then show ?case
    by (cases h) (auto simp: refused_def http_env_def extend_simps Let_def intro!: io_bind_fun)
qed (simp add: http_env_def extend_simps)

lemma forward_headers_refused:
  "list_all (\<lambda>h. \<not> refused mul nl h) hs \<Longrightarrow> refused mul nl h \<Longrightarrow>
     forward_headers uninit mul nl rid (hs @ h # hs') w =
       io_bind (NameValuePairWriter_extend uninit (http_env mul hs) w) (\<lambda>_.
       io_bind (FCGIWriter_encode uninit (FCGIType.AbortRequest rid)) (\<lambda>_.
         io_fail (Io (IoError InvalidData ''multiline headers are not allowed''))))"
proof (induction hs arbitrary: w)
  case Nil
  then show ?case by (cases h) (simp add: refused_def http_env_def extend_simps)
next
  case (Cons g hs)
  then show ?case
    by (cases g) (auto simp: refused_def http_env_def extend_simps Let_def io_bind_assoc intro!: io_bind_fun)
qed

text \<open>Whatever comes after the variables that \<open>forward_head\<close> writes itself.\<close>

lemma forward_head_extend:
  "forward_head uninit mul nl req dyn_headers rid =
     io_bind (FCGIWriter_encode uninit (FCGIType.BeginRequest rid Responder KEEP_CONN)) (\<lambda>_.
     io_bind (NameValuePairWriter_extend uninit (dyn_headers @ request_meta req)
       (FCGIWriter_kv_stream uninit rid RecordType.Params)) (\<lambda>kvw.
     io_bind (forward_headers uninit mul nl rid (req_headers req) kvw) (\<lambda>kvw.
     io_bind (NameValuePairWriter_flush kvw) (\<lambda>_. io_return (forward_len req)))))"
  unfolding forward_head_def Let_def
  by (cases "uri_query req"; cases "header_get (bstr ''content-type'') (req_headers req)"; cases "forward_len req")
    (simp_all add: request_meta_def extend_append extend_simps io_bind_assoc NULL_def)

lemma begin_sends:
  "sends (FCGIWriter_encode uninit (FCGIType.BeginRequest rid Responder KEEP_CONN))
    (item_wire (FCGIType.BeginRequest rid Responder KEEP_CONN)) ()"
  by (rule encode_sends) (simp add: item_pairs_def)

lemma forward_head_sends:
  assumes "list_all (\<lambda>h. \<not> refused mul nl h) (req_headers req)"
    and "list_all kv_ok (request_env mul req dyn_headers)"
  shows "sends (forward_head uninit mul nl req dyn_headers rid)
    (item_wire (FCGIType.BeginRequest rid Responder KEEP_CONN) @
     stream_wire RecordType.Params rid (kv_wire (request_env mul req dyn_headers))) (forward_len req)"
proof -
  have "forward_head uninit mul nl req dyn_headers rid =
      io_bind (FCGIWriter_encode uninit (FCGIType.BeginRequest rid Responder KEEP_CONN)) (\<lambda>_.
      io_bind (io_bind (NameValuePairWriter_extend uninit (request_env mul req dyn_headers)
        (FCGIWriter_kv_stream uninit rid RecordType.Params)) NameValuePairWriter_flush) (\<lambda>_.
        io_return (forward_len req)))"
    unfolding forward_head_extend
    by (auto simp: forward_headers_ok [OF assms(1)] request_env_def extend_append io_bind_assoc
      intro!: io_bind_fun)
  with sends_then [OF begin_sends sends_bind_return [OF extend_flush_sends [OF assms(2)], where g = "\<lambda>_. forward_len req"]]
  show ?thesis by simp
qed

lemma forward_head_refuses:
  assumes "req_headers req = hs @ h # hs'" "list_all (\<lambda>h. \<not> refused mul nl h) hs" "refused mul nl h"
    and "list_all kv_ok (dyn_headers @ request_meta req @ http_env mul hs)"
  shows "fails_after (forward_head uninit mul nl req dyn_headers rid)
    (item_wire (FCGIType.BeginRequest rid Responder KEEP_CONN) @
     concat (map (frame RecordType.Params rid)
       (butlast (chunks_of (kv_wire (dyn_headers @ request_meta req @ http_env mul hs))))) @
     frame RecordType.AbortRequest rid [])
    (Io (IoError InvalidData ''multiline headers are not allowed''))"
proof -
  let ?env = "dyn_headers @ request_meta req @ http_env mul hs"
  let ?e = "Io (IoError InvalidData ''multiline headers are not allowed'')"
  from extend_sends [OF assms(4), of uninit rid RecordType.Params] obtain w bs where
    1: "sends (NameValuePairWriter_extend uninit ?env (FCGIWriter_kv_stream uninit rid RecordType.Params)) bs w"
    and 2: "writer_inv RecordType.Params rid w (kv_wire ?env) bs" by blast
  from 2 have bs: "bs = concat (map (frame RecordType.Params rid) (butlast (chunks_of (kv_wire ?env))))"
    by (auto simp: writer_inv_def intro: stream_inv_out)
  have io_fail_bind: "io_bind (io_fail e) f = io_fail e" for e and f :: "'a \<Rightarrow> 'b iom"
    by (rule ext) (simp add: io_bind_def io_fail_def)
  have "forward_head uninit mul nl req dyn_headers rid =
      io_bind (FCGIWriter_encode uninit (FCGIType.BeginRequest rid Responder KEEP_CONN)) (\<lambda>_.
      io_bind (NameValuePairWriter_extend uninit ?env (FCGIWriter_kv_stream uninit rid RecordType.Params)) (\<lambda>_.
      io_bind (FCGIWriter_encode uninit (FCGIType.AbortRequest rid)) (\<lambda>_. io_fail ?e)))"
    unfolding forward_head_extend
    by (auto simp: assms(1) forward_headers_refused [OF assms(2,3)] extend_append io_bind_assoc io_fail_bind
      intro!: io_bind_fun)
  with sends_fails [OF begin_sends sends_fails [OF 1 abort_fails]] show ?thesis by (simp add: bs)
qed


section \<open>The body\<close>

definition body_wire :: "u16 \<Rightarrow> bytes list \<Rightarrow> bytes" where
  "body_wire rid vs = concat (map (frames RecordType.StdIn rid) vs)"

lemma body_wire_simps [simp]:
  "body_wire rid [] = []" "body_wire rid (v # vs) = frames RecordType.StdIn rid v @ body_wire rid vs"
  by (simp_all add: body_wire_def)

lemma flush_nonempty:
  "data \<noteq> [] \<Longrightarrow> sends (FCGIWriter_flush_data_chunk data rid rt) (frames rt rid data) ()"
  using flush_data_chunk_sends [of data rid rt] by simp

lemma flush_end: "sends (FCGIWriter_flush_data_chunk NULL rid rt) (frame rt rid []) ()"
  using flush_data_chunk_sends [of NULL rid rt] by (simp add: NULL_def)

lemma unat_minus_of_nat: "s \<le> unat (w :: usize) \<Longrightarrow> unat (w - of_nat s) = unat w - s"
proof -
  assume s: "s \<le> unat w"
  have "unat w < 2 ^ 64" using unsigned_less [of w, where 'a = nat] by simp
  with s have "unat (of_nat s :: usize) = s" by (simp add: unat_of_nat take_bit_nat_eq_self)
  with s show ?thesis by (simp add: unat_sub word_le_nat_alt)
qed

lemma send_body_loop_sends:
  "(dbg \<longrightarrow> length (concat (received chunks)) \<le> unat len') \<Longrightarrow>
     sends (send_body_loop dbg rid chunks len') (body_wire rid (received chunks))
       (len' - of_nat (length (concat (received chunks))))"
proof (induction dbg rid chunks len' rule: send_body_loop.induct)
  case (3 dbg rid data chunks len')
  show ?case
  proof (cases "length data = 0")
    case True
    with 3 show ?thesis by simp
  next
    case False
    have no: "\<not> (dbg \<and> unat len' < length data)" using "3.prems" by auto
    have "dbg \<longrightarrow> length (concat (received chunks)) \<le> unat (len' - of_nat (length data))"
      using "3.prems" by (auto simp: unat_minus_of_nat)
    from "3.IH"(2) [OF refl False no refl this] False
    have "sends (send_body_loop dbg rid chunks (len' - of_nat (length data))) (body_wire rid (received chunks))
        (len' - of_nat (length data) - of_nat (length (concat (received chunks))))" by simp
    from sends_then [OF flush_nonempty this, of data rid RecordType.StdIn] False no show ?thesis
      by (auto simp: diff_diff_eq Let_def)
  qed
qed simp_all

lemma send_body_enough:
  assumes "length (concat (received chunks)) = unat len'"
  shows "sends (send_body dbg uninit rid len' chunks)
    (body_wire rid (received chunks) @ frame RecordType.StdIn rid []) ()"
proof -
  have "len' - of_nat (length (concat (received chunks))) = 0" by (simp only: assms) simp
  with send_body_loop_sends [of dbg chunks len' rid] assms
  have 1: "sends (send_body_loop dbg rid chunks len') (body_wire rid (received chunks)) 0" by simp
  show ?thesis unfolding send_body_def by (rule sends_bind [OF 1]) (simp add: flush_end)
qed

lemma send_body_wrong:
  assumes "length (concat (received chunks)) \<noteq> unat len'" "length (concat (received chunks)) < 2 ^ 64"
    and "dbg \<longrightarrow> length (concat (received chunks)) \<le> unat len'"
  shows "fails_after (send_body dbg uninit rid len' chunks)
    (body_wire rid (received chunks) @ frame RecordType.AbortRequest rid [])
    (Io (IoError ConnectionAborted ''body too short''))"
proof -
  let ?n = "length (concat (received chunks))"
  have "unat (of_nat ?n :: usize) = ?n"
    using assms(2) by (simp add: unat_of_nat take_bit_nat_eq_self)
  with assms(1) have "len' - of_nat ?n \<noteq> 0" by auto
  then have pos: "len' - of_nat ?n > 0" by (simp only: word_gt_0)
  show ?thesis
    unfolding send_body_def
    by (rule sends_fails [OF send_body_loop_sends [OF assms(3)]]) (simp only: pos if_True abort_fails)
qed

lemma send_body_loop_overrun:
  "received chunks = pre @ v # post \<Longrightarrow> length (concat pre) \<le> unat len' \<Longrightarrow>
   unat len' < length (concat pre) + length v \<Longrightarrow>
     fails_after (send_body_loop True rid chunks len') (body_wire rid pre) (Panicked SubOverflow)"
proof (induction True rid chunks len' arbitrary: pre rule: send_body_loop.induct)
  case (3 rid data chunks len')
  show ?case
  proof (cases pre)
    case Nil
    with "3.prems" have "data = v" "unat len' < length data" by simp_all
    with Nil show ?thesis by (auto simp: fails_io_fail Let_def)
  next
    case (Cons d pre')
    with "3.prems" have d: "d = data" "received chunks = pre' @ v # post" by simp_all
    show ?thesis
    proof (cases "length data = 0")
      case True
      with "3.hyps"(1) [OF refl True d(2)] "3.prems" Cons d(1) show ?thesis by simp
    next
      case False
      have le: "length data \<le> unat len'" using "3.prems"(2) Cons d(1) by simp
      have "fails_after (send_body_loop True rid chunks (len' - of_nat (length data))) (body_wire rid pre')
          (Panicked SubOverflow)"
        using "3.prems" Cons d le
        by (intro "3.hyps"(2) [OF refl False _ refl d(2)]) (auto simp: unat_minus_of_nat)
      from sends_fails [OF flush_nonempty this, of data rid RecordType.StdIn] False le Cons d(1)
      show ?thesis by (simp add: Let_def)
    qed
  qed
qed simp_all

lemma content_of_Cons [simp]:
  "content_of (Head t # es) = content_of es"
  "content_of (Content t i b # es) = (t, i, b) # content_of es"
  by (simp_all add: content_of_def)

section \<open>Header names\<close>

lemma upper_char_inj:
  "\<not> (65 \<le> c \<and> c \<le> 90) \<Longrightarrow> upper_char c = x \<Longrightarrow> 65 \<le> x \<and> x \<le> 90 \<Longrightarrow> c = x + 32"
  by (auto simp: upper_char_def split: if_splits)

lemma upper_chars:
  "map upper_char key = xs \<Longrightarrow> \<forall>c \<in> set key. \<not> (65 \<le> c \<and> c \<le> 90) \<Longrightarrow>
     list_all (\<lambda>x. 65 \<le> x \<and> x \<le> 90) xs \<Longrightarrow> key = map (\<lambda>x. x + 32) xs"
proof (induction key arbitrary: xs)
  case (Cons c key)
  then obtain x ys where "xs = x # ys" by (cases xs) auto
  with Cons.prems have "key = map (\<lambda>x. x + 32) ys" "c = x + 32"
    by (intro Cons.IH upper_char_inj; simp)+
  with \<open>xs = x # ys\<close> show ?case by simp
qed simp

lemma replicate_5: "replicate 5 x = [x, x, x, x, x]"
  by (simp add: eval_nat_numeral)

section \<open>Properties\<close>

definition request_wire ::
  "MultiHeaderStrategy \<Rightarrow> HttpRequest \<Rightarrow> (bytes \<times> bytes) list \<Rightarrow> u16 \<Rightarrow> bytes list \<Rightarrow> bytes" where
  "request_wire mul req dyn_headers rid vs =
     item_wire (FCGIType.BeginRequest rid Responder KEEP_CONN) @
     stream_wire RecordType.Params rid (kv_wire (request_env mul req dyn_headers)) @
     body_wire rid vs @ frame RecordType.StdIn rid []"

text \<open>
  C11. A request as the server sees it: with no header refused and a body of the announced length,
  \<open>forward\<close> sends a \<open>BeginRequest\<close> record (responder, connection kept), the CGI variables as one
  \<open>Params\<close> stream and the body as one \<open>StdIn\<close> stream; a byte-wise scan of it finds the eight bytes of
  the first, the encoded variables and the body, each under its type and the request id.
\<close>

theorem forward_write_sends:
  assumes "list_all (\<lambda>h. \<not> refused mul nl h) (req_headers req)"
    and "list_all kv_ok (request_env mul req dyn_headers)"
    and "forward_len req = Some n" "length (concat (received body')) = n" "n < 2 ^ 64"
  shows "sends (forward_write dbg uninit mul nl req body' dyn_headers rid)
      (request_wire mul req dyn_headers rid (received body')) () \<and>
    content_of (snd (wire_scan (InHead []) (request_wire mul req dyn_headers rid (received body')))) =
      map (\<lambda>b. (1, rid, b)) [0, 1, 1, 0, 0, 0, 0, 0] @
      map (\<lambda>b. (4, rid, b)) (kv_wire (request_env mul req dyn_headers)) @
      map (\<lambda>b. (5, rid, b)) (concat (received body'))"
proof (rule conjI)
  have "unat (of_nat n :: usize) = n" using assms(5) by (simp add: unat_of_nat take_bit_nat_eq_self)
  with assms(4) have "sends (send_body dbg uninit rid (of_nat n) body')
      (body_wire rid (received body') @ frame RecordType.StdIn rid []) ()"
    by (intro send_body_enough) simp
  with sends_bind [OF forward_head_sends [OF assms(1,2), of uninit rid], of "\<lambda>len'. case len' of
      Some len' \<Rightarrow> send_body dbg uninit rid (of_nat len') body'
    | None \<Rightarrow> FCGIWriter_flush_data_chunk NULL rid RecordType.StdIn"] assms(3)
  show "sends (forward_write dbg uninit mul nl req body' dyn_headers rid)
      (request_wire mul req dyn_headers rid (received body')) ()"
    by (simp add: forward_write_def request_wire_def)
  let ?ev = "\<lambda>rt c. Head (RecordType_code rt) # map (Content (RecordType_code rt) rid) c"
  have scan: "wire_scan (InHead []) (frames RecordType.StdIn rid v) =
      (InHead [], concat (map (?ev RecordType.StdIn) (chunks_of v)))" for v
    unfolding frames_def by (rule scan_frames_concat) (blast dest: chunks_of_bounds MAX_CHUNK_lt)
  have content: "content_of (concat (map (?ev rt) cs)) = map (\<lambda>b. (RecordType_code rt, rid, b)) (concat cs)" for rt cs
    by (induction cs) (simp_all add: content_of_def o_def)
  have body: "\<exists>es. wire_scan (InHead []) (body_wire rid vs) = (InHead [], es) \<and>
      content_of es = map (\<lambda>b. (5, rid, b)) (concat vs)" for vs
  proof (induction vs)
    case (Cons v vs)
    then show ?case
      using scan [of v] content [of RecordType.StdIn "chunks_of v"]
      by (auto simp: wire_scan_append concat_chunks_of)
  qed (simp add: content_of_def)
  then obtain eb where b: "wire_scan (InHead []) (body_wire rid (received body')) = (InHead [], eb)"
    "content_of eb = map (\<lambda>b. (5, rid, b)) (concat (received body'))" by blast
  from scan_stream_wire [of RecordType.Params rid "kv_wire (request_env mul req dyn_headers)"] obtain ep where
    p: "wire_scan (InHead []) (stream_wire RecordType.Params rid (kv_wire (request_env mul req dyn_headers))) = (InHead [], ep)"
    "content_of ep = map (\<lambda>b. (4, rid, b)) (kv_wire (request_env mul req dyn_headers))" by auto
  show "content_of (snd (wire_scan (InHead []) (request_wire mul req dyn_headers rid (received body')))) =
      map (\<lambda>b. (1, rid, b)) [0, 1, 1, 0, 0, 0, 0, 0] @
      map (\<lambda>b. (4, rid, b)) (kv_wire (request_env mul req dyn_headers)) @
      map (\<lambda>b. (5, rid, b)) (concat (received body'))"
    by (simp add: request_wire_def item_wire_def wire_scan_append scan_frame b p KEEP_CONN_def put_u16_def
      replicate_5)
qed


definition example_request :: "bytes \<Rightarrow> nat \<Rightarrow> HttpRequest" where
  "example_request v n = \<lparr>uri_query = None, req_method = bstr ''GET'',
     req_headers = [(bstr ''x-a'', [v])], hint_lower = n, hint_upper = Some n\<rparr>"

lemma example_request_ok:
  "list_all kv_ok (request_env OnlyFirst (example_request [65] 2) [])"
  by (simp add: request_env_def request_meta_def http_env_def kv_ok_def example_request_def
    forward_len_def header_get_def header_value_def header_variable_def bstr_def QUERY_STRING_def
    REQUEST_METHOD_def CONTENT_LENGTH_def to_decimal.simps skipped_headers_def)

theorem forward_write_sends_witness:
  "sends (forward_write True (\<lambda>_. 0) OnlyFirst ReturnError (example_request [65] 2) [Inr [1], Inl (), Inr [2]] [] 1)
      (request_wire OnlyFirst (example_request [65] 2) [] 1 [[1], [2]]) () \<and>
    content_of (snd (wire_scan (InHead []) (request_wire OnlyFirst (example_request [65] 2) [] 1 [[1], [2]]))) =
      map (\<lambda>b. (1, 1, b)) [0, 1, 1, 0, 0, 0, 0, 0] @
      map (\<lambda>b. (4, 1, b)) (kv_wire (request_env OnlyFirst (example_request [65] 2) [])) @
      map (\<lambda>b. (5, 1, b)) [1, 2]"
  using forward_write_sends [of OnlyFirst ReturnError "example_request [65] 2" "[]" 2
      "[Inr [1], Inl (), Inr [2]]" True "\<lambda>_. 0" 1] example_request_ok
  by (simp add: example_request_def refused_def header_value_def forward_len_def)

text \<open>
  C35. A header whose value has a line feed, with the strategy that refuses it: \<open>forward\<close> fails with
  \<open>InvalidData\<close>. By then the \<open>BeginRequest\<close>, the full records of the variables before it and an
  \<open>AbortRequest\<close> are out; the \<open>Params\<close> stream is not ended and the header is not sent.
\<close>

theorem forward_refuses_header:
  assumes "req_headers req = hs @ h # hs'" "list_all (\<lambda>h. \<not> refused mul nl h) hs" "refused mul nl h"
    and "list_all kv_ok (dyn_headers @ request_meta req @ http_env mul hs)"
  shows "fails_after (forward_write dbg uninit mul nl req body' dyn_headers rid)
    (item_wire (FCGIType.BeginRequest rid Responder KEEP_CONN) @
     concat (map (frame RecordType.Params rid)
       (butlast (chunks_of (kv_wire (dyn_headers @ request_meta req @ http_env mul hs))))) @
     frame RecordType.AbortRequest rid [])
    (Io (IoError InvalidData ''multiline headers are not allowed''))"
  unfolding forward_write_def by (rule fails_bind) (rule forward_head_refuses [OF assms])

theorem forward_refuses_header_witness:
  "fails_after (forward_write True (\<lambda>_. 0) OnlyFirst ReturnError (example_request [65, 10] 2) [Inr [1]] [] 1)
    (item_wire (FCGIType.BeginRequest 1 Responder KEEP_CONN) @
     concat (map (frame RecordType.Params 1)
       (butlast (chunks_of (kv_wire ([] @ request_meta (example_request [65, 10] 2) @ http_env OnlyFirst []))))) @
     frame RecordType.AbortRequest 1 [])
    (Io (IoError InvalidData ''multiline headers are not allowed''))"
proof -
  have "(bstr ''x-a'') \<notin> set skipped_headers" by (simp add: skipped_headers_def bstr_def)
  then show ?thesis
    by (intro forward_refuses_header [where h = "(bstr ''x-a'', [[65, 10]])" and hs' = "[]"])
      (simp_all add: example_request_def refused_def header_value_def http_env_def request_meta_def kv_ok_def
        forward_len_def header_get_def bstr_def QUERY_STRING_def REQUEST_METHOD_def CONTENT_LENGTH_def
        to_decimal.simps)
qed

text \<open>
  C36. A body that has not the announced length makes \<open>send_body\<close> fail. Too short: what came is
  sent, then the request is aborted. Too long: without overflow checks the counter wraps around, so
  the whole body is sent and then the request is aborted as too short; with overflow checks the
  first piece that exceeds the length panics, after the pieces before it were sent.
\<close>

theorem send_body_wrong_length:
  assumes "length (concat (received body')) \<noteq> unat len'" "length (concat (received body')) < 2 ^ 64"
  shows "(length (concat (received body')) < unat len' \<or> \<not> dbg \<longrightarrow>
      fails_after (send_body dbg uninit rid len' body')
        (body_wire rid (received body') @ frame RecordType.AbortRequest rid [])
        (Io (IoError ConnectionAborted ''body too short''))) \<and>
    (dbg \<and> received body' = pre @ v # post \<and> length (concat pre) \<le> unat len' \<and>
        unat len' < length (concat pre) + length v \<longrightarrow>
      fails_after (send_body dbg uninit rid len' body') (body_wire rid pre) (Panicked SubOverflow))"
proof (intro conjI impI)
  assume "length (concat (received body')) < unat len' \<or> \<not> dbg"
  with assms show "fails_after (send_body dbg uninit rid len' body')
        (body_wire rid (received body') @ frame RecordType.AbortRequest rid [])
        (Io (IoError ConnectionAborted ''body too short''))"
    by (intro send_body_wrong) auto
next
  assume "dbg \<and> received body' = pre @ v # post \<and> length (concat pre) \<le> unat len' \<and>
        unat len' < length (concat pre) + length v"
  then show "fails_after (send_body dbg uninit rid len' body') (body_wire rid pre) (Panicked SubOverflow)"
    unfolding send_body_def using send_body_loop_overrun [of body' pre v post len' rid]
    by (intro fails_bind) simp
qed

theorem send_body_wrong_length_witness:
  "fails_after (send_body False (\<lambda>_. 0) 1 0 [Inr [65]])
      (body_wire 1 [[65]] @ frame RecordType.AbortRequest 1 []) (Io (IoError ConnectionAborted ''body too short'')) \<and>
    fails_after (send_body True (\<lambda>_. 0) 1 0 [Inr [65]]) (body_wire 1 []) (Panicked SubOverflow)"
  using send_body_wrong_length [of "[Inr [65]]" 0 False "\<lambda>_. 0" 1]
    send_body_wrong_length [of "[Inr [65]]" 0 True "\<lambda>_. 0" 1 "[]" "[65]" "[]"] by simp

text \<open>The request without the header \<open>Authorization\<close>.\<close>

definition without_credentials :: "HttpRequest \<Rightarrow> HttpRequest" where
  "without_credentials req =
     req\<lparr>req_headers := filter (\<lambda>(key, _). key \<noteq> bstr ''authorization'') (req_headers req)\<rparr>"

lemma authorization_skipped: "bstr ''authorization'' \<in> set skipped_headers"
  by (simp add: skipped_headers_def)

lemma forward_headers_credentials:
  "forward_headers uninit mul nl rid (filter (\<lambda>(key, _). key \<noteq> bstr ''authorization'') hs) kvw =
    forward_headers uninit mul nl rid hs kvw"
  by (induction hs arbitrary: kvw) (auto simp: authorization_skipped Let_def intro!: io_bind_fun)

lemma header_get_credentials:
  "name \<noteq> bstr ''authorization'' \<Longrightarrow>
    header_get name (filter (\<lambda>(key, _). key \<noteq> bstr ''authorization'') hs) = header_get name hs"
proof -
  assume "name \<noteq> bstr ''authorization''"
  then have "map_of (filter (\<lambda>(key, _). key \<noteq> bstr ''authorization'') hs) name = map_of hs name"
    by (induction hs) auto
  then show ?thesis by (simp add: header_get_def)
qed

lemma forward_head_credentials:
  "forward_head uninit mul nl (without_credentials req) dyn_headers rid = forward_head uninit mul nl req dyn_headers rid"
proof -
  have "bstr ''content-type'' \<noteq> bstr ''authorization''" by (simp add: bstr_def)
  from header_get_credentials [OF this] show ?thesis
    by (simp add: forward_head_def without_credentials_def forward_len_def forward_headers_credentials)
qed

text \<open>
  C37. The credentials of the client stay with the web server. What \<open>forward\<close> writes, on every transport and
  with its errors, does not depend on the header \<open>Authorization\<close>: it is what it writes for the request without
  this header. And no other header takes its place: the only name (names are in lower case) that becomes the
  variable \<open>HTTP_AUTHORIZATION\<close> is the name that is left out.
\<close>

theorem forward_ignores_credentials:
  shows "forward_write dbg uninit mul nl req body' dyn_headers rid =
      forward_write dbg uninit mul nl (without_credentials req) body' dyn_headers rid \<and>
    (\<forall>key. (\<forall>c \<in> set key. \<not> (65 \<le> c \<and> c \<le> 90)) \<and> header_variable key = bstr ''HTTP_AUTHORIZATION'' \<longrightarrow>
      key = bstr ''authorization'')"
proof -
  have "key = bstr ''authorization''"
    if "\<forall>c \<in> set key. \<not> (65 \<le> c \<and> c \<le> 90)" "header_variable key = bstr ''HTTP_AUTHORIZATION''" for key
  proof -
    have "map upper_char key = bstr ''AUTHORIZATION''" using that(2) by (simp add: header_variable_def bstr_def)
    then have "key = map (\<lambda>x. x + 32) (bstr ''AUTHORIZATION'')"
      using that(1) by (intro upper_chars) (simp_all add: bstr_def)
    then show ?thesis by (simp add: bstr_def)
  qed
  then show ?thesis by (simp add: forward_write_def forward_head_credentials)
qed

text \<open>The witness: two requests that differ in their credentials only.\<close>

definition example_secret :: "bytes \<Rightarrow> HttpRequest" where
  "example_secret secret = \<lparr>uri_query = None, req_method = bstr ''GET'',
     req_headers = [(bstr ''authorization'', [secret]), (bstr ''x-a'', [[66]])], hint_lower = 0, hint_upper = Some 0\<rparr>"

theorem forward_ignores_credentials_witness:
  "forward_write True (\<lambda>_. 0) Combine Ignore (example_secret [65]) ([] :: (unit + bytes) list) [] 1 =
    forward_write True (\<lambda>_. 0) Combine Ignore (example_secret [90, 90]) ([] :: (unit + bytes) list) [] 1 \<and>
    header_variable (bstr ''x-a'') \<noteq> bstr ''HTTP_AUTHORIZATION''"
proof -
  have w: "without_credentials (example_secret [65]) = without_credentials (example_secret [90, 90])"
    by (simp add: without_credentials_def example_secret_def)
  note c = forward_ignores_credentials [where body' = "[] :: (unit + bytes) list", of True "\<lambda>_. 0" Combine Ignore _ "[]" 1]
  note e = c [of "example_secret [65]", THEN conjunct1] c [of "example_secret [90, 90]", THEN conjunct1]
  have "forward_write True (\<lambda>_. 0) Combine Ignore (example_secret [65]) ([] :: (unit + bytes) list) [] 1 =
      forward_write True (\<lambda>_. 0) Combine Ignore (example_secret [90, 90]) ([] :: (unit + bytes) list) [] 1"
    by (subst e(1), subst e(2)) (simp only: w)
  moreover have "header_variable (bstr ''x-a'') \<noteq> bstr ''HTTP_AUTHORIZATION''"
    using c [THEN conjunct2, THEN spec, of "bstr ''x-a''"] by (auto simp: bstr_def)
  ultimately show ?thesis by blast
qed

end
