(* ===== verification/Forward_System.thy ===== *)
theory Forward_System
  imports Forward_Correct
begin

text \<open>
  \<open>src/client/connection.rs\<close>: many calls of \<open>forward\<close> on one connection.

  A call writes under the mutex and gives it away after the head and after each piece of the body
  (\<open>drop(mut_inner)\<close>, \<open>send_body\<close>), so what goes out is an interleaving of the steps of all calls.
  \<open>forward_steps\<close> cuts \<open>forward_write\<close> at these points; the request ids keep the requests apart.
\<close>

section \<open>The steps of one call\<close>

fun io_seq :: "unit iom list \<Rightarrow> unit iom" where
  "io_seq [] = io_return ()"
| "io_seq (m # ms) = io_bind m (\<lambda>_. io_seq ms)"

text \<open>
  \<open>send_body\<close>: the pieces of the body, with the count of what is still announced, its overflow check, and
  the end: the abort and the error if something is missing, otherwise the empty record.
\<close>

fun send_body_steps :: "bool \<Rightarrow> (nat \<Rightarrow> u8) \<Rightarrow> u16 \<Rightarrow> ('e + bytes) list \<Rightarrow> usize \<Rightarrow> unit iom list" where
  "send_body_steps dbg uninit rid [] len' =
     [if len' > 0 then
        io_bind (FCGIWriter_encode uninit (FCGIType.AbortRequest rid)) (\<lambda>_.
          io_fail (Io (IoError ConnectionAborted ''body too short'')))
      else FCGIWriter_flush_data_chunk NULL rid RecordType.StdIn]"
| "send_body_steps dbg uninit rid (Inl e # chunks) len' = send_body_steps dbg uninit rid chunks len'"
| "send_body_steps dbg uninit rid (Inr data # chunks) len' =
     (let s = length data in
      if s = 0 then send_body_steps dbg uninit rid chunks len'
      else if dbg \<and> unat len' < s then [io_fail (Panicked SubOverflow)]
      else FCGIWriter_flush_data_chunk data rid RecordType.StdIn #
        send_body_steps dbg uninit rid chunks (len' - of_nat s))"

definition forward_steps ::
  "bool \<Rightarrow> (nat \<Rightarrow> u8) \<Rightarrow> MultiHeaderStrategy \<Rightarrow> HeaderMultilineStrategy \<Rightarrow> HttpRequest \<Rightarrow> ('e + bytes) list \<Rightarrow>
     (bytes \<times> bytes) list \<Rightarrow> u16 \<Rightarrow> unit iom list" where
  "forward_steps dbg uninit mul nl req body' dyn_headers rid =
     (let head = forward_head uninit mul nl req dyn_headers rid in
      case forward_len req of
        None \<Rightarrow> [io_bind head (\<lambda>_. FCGIWriter_flush_data_chunk NULL rid RecordType.StdIn)]
      | Some len' \<Rightarrow> io_bind head (\<lambda>_. io_return ()) # send_body_steps dbg uninit rid body' (of_nat len'))"

lemma forward_head_returns:
  "forward_head uninit mul nl req dyn_headers rid s = (Inr r, s') \<Longrightarrow> r = forward_len req"
  by (auto simp: forward_head_extend io_bind_def io_return_def split: prod.splits sum.splits)

lemma io_bind_cong_value:
  assumes "\<And>s r s'. m s = (Inr r, s') \<Longrightarrow> f r = g r"
  shows "io_bind m f = io_bind m g"
proof (rule ext)
  fix s
  show "io_bind m f s = io_bind m g s"
    using assms [of s] by (cases "m s"; cases "fst (m s)") (auto simp: io_bind_def)
qed

lemma io_seq_append: "io_seq (ms @ ns) = io_bind (io_seq ms) (\<lambda>_. io_seq ns)"
proof (induction ms)
  case Nil
  show ?case by (rule ext) (simp add: io_bind_def io_return_def)
qed (simp add: io_bind_assoc)

lemma io_seq_single: "io_seq [m] = m"
  by (rule ext) (auto simp: io_bind_def io_return_def split: prod.split sum.split)

lemma io_fail_bind [simp]: "io_bind (io_fail e) f = io_fail e"
  by (rule ext) (simp add: io_bind_def io_fail_def)

lemma send_body_loop_steps:
  "io_bind (send_body_loop dbg rid chunks len') (\<lambda>len'. io_seq (send_body_steps dbg uninit rid [] len')) =
     io_seq (send_body_steps dbg uninit rid chunks len')"
proof (induction dbg rid chunks len' rule: send_body_loop.induct)
  case (3 dbg rid data chunks len')
  show ?case
  proof (cases "length data = 0 \<or> dbg \<and> unat len' < length data")
    case True
    with "3.IH"(1) [OF refl] show ?thesis by (auto simp: Let_def io_seq_single simp del: send_body_steps.simps(1))
  next
    case False
    with "3.IH"(2) [OF refl _ _ refl] show ?thesis
      by (auto simp: Let_def io_bind_assoc simp del: send_body_steps.simps(1) intro!: io_bind_fun)
  qed
qed simp_all

text \<open>The steps are those of the call: when nothing comes between them, they are \<open>forward_write\<close>.\<close>

lemma forward_write_steps:
  "forward_write dbg uninit mul nl req body' dyn_headers rid =
    io_seq (forward_steps dbg uninit mul nl req body' dyn_headers rid)"
proof -
  have "send_body dbg uninit rid len' body' = io_seq (send_body_steps dbg uninit rid body' len')" for len'
    using send_body_loop_steps [of dbg rid body' len' uninit] by (simp add: send_body_def io_seq_single)
  note b = this
  have "forward_write dbg uninit mul nl req body' dyn_headers rid =
      io_bind (forward_head uninit mul nl req dyn_headers rid) (\<lambda>_. case forward_len req of
        Some len' \<Rightarrow> send_body dbg uninit rid (of_nat len') body'
      | None \<Rightarrow> FCGIWriter_flush_data_chunk NULL rid RecordType.StdIn)"
    unfolding forward_write_def
    by (rule io_bind_cong_value) (drule forward_head_returns, simp)
  then show ?thesis
    by (simp add: b forward_steps_def io_seq_single io_bind_assoc split: option.split)
qed

section \<open>Blocks of one request\<close>

text \<open>
  \<open>rid_block rid w c\<close>: \<open>w\<close> is a sequence of whole records of the request \<open>rid\<close> with the content \<open>c\<close>.
  \<open>delivers rid ms c\<close>: the steps send such blocks, with the content \<open>c\<close> together.
\<close>

type_synonym wire_content = "(u8 \<times> u16 \<times> u8) list"

definition rid_block :: "u16 \<Rightarrow> bytes \<Rightarrow> wire_content \<Rightarrow> bool" where
  "rid_block rid w c \<longleftrightarrow> (\<exists>es. wire_scan (InHead []) w = (InHead [], es) \<and> content_of es = c) \<and>
     list_all (\<lambda>(t, i, b). i = rid) c"

fun delivers :: "u16 \<Rightarrow> unit iom list \<Rightarrow> wire_content \<Rightarrow> bool" where
  "delivers rid [] c \<longleftrightarrow> c = []"
| "delivers rid (m # ms) c \<longleftrightarrow>
     (\<exists>w c1 c2. c = c1 @ c2 \<and> sends m w () \<and> rid_block rid w c1 \<and> delivers rid ms c2)"

lemma content_of_append [simp]: "content_of (xs @ ys) = content_of xs @ content_of ys"
  by (induction xs) (simp_all add: content_of_def)

lemma rid_block_append:
  assumes "rid_block rid v c" "rid_block rid w d"
  shows "rid_block rid (v @ w) (c @ d)"
proof -
  from assms obtain es fs where "wire_scan (InHead []) v = (InHead [], es)" "content_of es = c"
    "wire_scan (InHead []) w = (InHead [], fs)" "content_of fs = d" by (auto simp: rid_block_def)
  then have "wire_scan (InHead []) (v @ w) = (InHead [], es @ fs)" "content_of (es @ fs) = c @ d"
    by (simp_all add: wire_scan_append)
  with assms show ?thesis by (auto simp: rid_block_def)
qed

lemma rid_block_frame:
  "length p < 65536 \<Longrightarrow> rid_block rid (frame rt rid p) (map (\<lambda>b. (RecordType_code rt, rid, b)) p)"
  by (simp add: rid_block_def scan_frame list_all_iff) (simp add: content_of_def o_def)

lemma rid_block_frame_concat:
  "\<forall>c \<in> set cs. length c < 65536 \<Longrightarrow>
     rid_block rid (concat (map (frame rt rid) cs)) (map (\<lambda>b. (RecordType_code rt, rid, b)) (concat cs))"
proof (induction cs)
  case Nil
  show ?case by (simp add: rid_block_def content_of_def)
next
  case (Cons c cs)
  then show ?case using rid_block_append [OF rid_block_frame [of c] Cons.IH] by simp
qed

lemma rid_block_frames:
  "rid_block rid (frames rt rid p) (map (\<lambda>b. (RecordType_code rt, rid, b)) p)"
proof -
  have "\<forall>c \<in> set (chunks_of p). length c < 65536" by (blast dest: chunks_of_bounds MAX_CHUNK_lt)
  from rid_block_frame_concat [OF this, of rid rt] show ?thesis by (simp add: frames_def concat_chunks_of)
qed

lemma rid_block_end: "rid_block rid (frame rt rid []) []"
  using rid_block_frame [of "[]" rid rt] by simp

lemma rid_block_stream:
  "rid_block rid (stream_wire rt rid p) (map (\<lambda>b. (RecordType_code rt, rid, b)) p)"
  unfolding stream_wire_def using rid_block_append [OF rid_block_frames rid_block_end] by simp

lemma rid_block_begin:
  "rid_block rid (item_wire (FCGIType.BeginRequest rid Responder KEEP_CONN))
    (map (\<lambda>b. (1, rid, b)) [0, 1, 1, 0, 0, 0, 0, 0])"
  using rid_block_frame [of "[0, 1, 1, 0, 0, 0, 0, 0]" rid RecordType.BeginRequest]
  by (simp add: item_wire_def KEEP_CONN_def put_u16_def replicate_5)

lemma delivers_append: "delivers rid ms c \<Longrightarrow> delivers rid ns d \<Longrightarrow> delivers rid (ms @ ns) (c @ d)"
proof (induction ms arbitrary: c)
  case (Cons m ms)
  from Cons.prems(1) obtain w c1 c2 where "c = c1 @ c2" "sends m w ()" "rid_block rid w c1" "delivers rid ms c2"
    by auto
  with Cons.IH [OF _ Cons.prems(2), of c2] have
    "c @ d = c1 @ (c2 @ d) \<and> sends m w () \<and> rid_block rid w c1 \<and> delivers rid (ms @ ns) (c2 @ d)" by simp
  then show ?case unfolding append_Cons delivers.simps by blast
qed simp

lemma delivers_single: "sends m w () \<Longrightarrow> rid_block rid w c \<Longrightarrow> delivers rid [m] c"
  by auto

section \<open>What the steps of a call deliver\<close>

definition request_ready ::
  "MultiHeaderStrategy \<Rightarrow> HeaderMultilineStrategy \<Rightarrow> HttpRequest \<Rightarrow> (bytes \<times> bytes) list \<Rightarrow> bool" where
  "request_ready mul nl req dyn_headers \<longleftrightarrow>
     list_all (\<lambda>h. \<not> refused mul nl h) (req_headers req) \<and> list_all kv_ok (request_env mul req dyn_headers)"

text \<open>The body is as long as announced.\<close>

definition body_announced :: "HttpRequest \<Rightarrow> ('e + bytes) list \<Rightarrow> bool" where
  "body_announced req body' \<longleftrightarrow>
     (case forward_len req of None \<Rightarrow> True | Some n \<Rightarrow> length (concat (received body')) = n \<and> n < 2 ^ 64)"

definition request_content ::
  "MultiHeaderStrategy \<Rightarrow> HttpRequest \<Rightarrow> bytes list \<Rightarrow> (bytes \<times> bytes) list \<Rightarrow> u16 \<Rightarrow> wire_content" where
  "request_content mul req vs dyn_headers rid =
     map (\<lambda>b. (1, rid, b)) [0, 1, 1, 0, 0, 0, 0, 0] @
     map (\<lambda>b. (4, rid, b)) (kv_wire (request_env mul req dyn_headers)) @
     (case forward_len req of None \<Rightarrow> [] | Some _ \<Rightarrow> map (\<lambda>b. (5, rid, b)) (concat vs))"

lemma body_delivers:
  "length (concat (received chunks)) = unat len' \<Longrightarrow>
     delivers rid (send_body_steps dbg uninit rid chunks len') (map (\<lambda>b. (5, rid, b)) (concat (received chunks)))"
proof (induction dbg uninit rid chunks len' rule: send_body_steps.induct)
  case (1 dbg uninit rid len')
  then have "len' = 0" by (simp add: unat_eq_0)
  then show ?case using delivers_single [OF flush_end rid_block_end] by simp
next
  case (3 dbg uninit rid data chunks len')
  show ?case
  proof (cases "length data = 0")
    case True
    with 3 show ?thesis by simp
  next
    case False
    from "3.prems" have l: "length data \<le> unat len'" by simp
    then have "length (concat (received chunks)) = unat (len' - of_nat (length data))"
      using "3.prems" by (simp add: unat_minus_of_nat)
    from "3.IH"(2) [OF refl False _ this] l have
      "delivers rid (send_body_steps dbg uninit rid chunks (len' - of_nat (length data)))
        (map (\<lambda>b. (5, rid, b)) (concat (received chunks)))" by auto
    from delivers_append [OF delivers_single [OF flush_nonempty rid_block_frames, of data rid RecordType.StdIn] this] False l
    show ?thesis by (auto simp: Let_def)
  qed
qed simp

lemma steps_deliver:
  assumes "request_ready mul nl req dyn_headers" "body_announced req body'"
  shows "delivers rid (forward_steps dbg uninit mul nl req body' dyn_headers rid)
    (request_content mul req (received body') dyn_headers rid)"
proof -
  let ?head = "forward_head uninit mul nl req dyn_headers rid"
  let ?stop = "FCGIWriter_flush_data_chunk NULL rid RecordType.StdIn"
  let ?hw = "item_wire (FCGIType.BeginRequest rid Responder KEEP_CONN) @
    stream_wire RecordType.Params rid (kv_wire (request_env mul req dyn_headers))"
  let ?hc = "map (\<lambda>b. (1, rid, b)) [0, 1, 1, 0, 0, 0, 0, 0] @
    map (\<lambda>b. (4, rid, b)) (kv_wire (request_env mul req dyn_headers))"
  have s: "sends ?head ?hw (forward_len req)"
    using assms by (intro forward_head_sends) (simp_all add: request_ready_def)
  have h: "rid_block rid ?hw ?hc"
    using rid_block_append [OF rid_block_begin rid_block_stream [of rid RecordType.Params]] by simp
  show ?thesis
  proof (cases "forward_len req")
    case None
    have "sends (io_bind ?head (\<lambda>_. ?stop)) (?hw @ frame RecordType.StdIn rid []) ()"
      by (rule sends_then [OF s flush_end])
    from delivers_single [OF this rid_block_append [OF h rid_block_end]] None show ?thesis
      by (simp only: forward_steps_def request_content_def Let_def option.case append_Nil2)
  next
    case (Some n)
    have hs: "sends (io_bind ?head (\<lambda>_. io_return ())) ?hw ()"
      using sends_bind_return [OF s, where g = "\<lambda>_. ()"] by simp
    have n: "length (concat (received body')) = unat (of_nat n :: usize)"
      using assms(2) Some by (simp add: body_announced_def unat_of_nat take_bit_nat_eq_self)
    from delivers_append [OF delivers_single [OF hs h] body_delivers [OF n]] Some
    show ?thesis
      by (simp only: forward_steps_def request_content_def Let_def option.case append_assoc append_Cons append_Nil)
  qed
qed

section \<open>Any interleaving\<close>

lemma interleaved_delivers:
  "(\<And>rid. delivers rid (map snd (filter (\<lambda>(r, _). r = rid) sched)) (content rid)) \<Longrightarrow>
     \<exists>w es. sends (io_seq (map snd sched)) w () \<and> wire_scan (InHead []) w = (InHead [], es) \<and>
       (\<forall>rid. filter (\<lambda>(t, i, b). i = rid) (content_of es) = content rid)"
proof (induction sched arbitrary: content)
  case Nil
  then show ?case by (auto intro!: exI [of _ "[]"] simp: content_of_def)
next
  case (Cons s sched)
  obtain r m where s: "s = (r, m)" by (cases s)
  with Cons.prems [of r] obtain w1 c1 c2 where
    c: "content r = c1 @ c2" and m: "sends m w1 ()" and b: "rid_block r w1 c1"
    and d: "delivers r (map snd (filter (\<lambda>(q, _). q = r) sched)) c2" by auto
  have "delivers rid (map snd (filter (\<lambda>(q, _). q = rid) sched)) ((content(r := c2)) rid)" for rid
    using Cons.prems [of rid] d s by (cases "rid = r") auto
  from Cons.IH [OF this] obtain w es where
    w: "sends (io_seq (map snd sched)) w ()" "wire_scan (InHead []) w = (InHead [], es)"
    and es: "\<forall>rid. filter (\<lambda>(t, i, b). i = rid) (content_of es) = (content(r := c2)) rid" by blast
  from b obtain fs where fs: "wire_scan (InHead []) w1 = (InHead [], fs)" "content_of fs = c1"
    "\<forall>x \<in> set c1. fst (snd x) = r" by (auto simp: rid_block_def list_all_iff case_prod_beta)
  have "filter (\<lambda>(t, i, b). i = rid) c1 = (if rid = r then c1 else [])" for rid
    using fs(3) by (auto simp: filter_id_conv filter_empty_conv)
  with es c have "\<forall>rid. filter (\<lambda>(t, i, b). i = rid) (content_of (fs @ es)) = content rid"
    by (simp add: fs(2))
  moreover have "wire_scan (InHead []) (w1 @ w) = (InHead [], fs @ es)"
    by (rule wire_scan_append2 [OF fs(1) w(2)])
  moreover have "sends (io_seq (map snd (s # sched))) (w1 @ w) ()"
    using sends_then [OF m w(1)] by (simp add: s)
  ultimately show ?case by blast
qed

section \<open>Properties\<close>

text \<open>
  C14. Requests that share a connection do not mix. The steps of any number of calls of \<open>forward\<close>, each with
  headers that are not refused, variables that can be encoded and a body (if any) of the announced length,
  in any interleaving that keeps the order of each call, succeed on a stream that takes what is written, and send
  bytes in which the server finds under every request id just what that request consists of: its
  \<open>BeginRequest\<close>, its variables and its body, in order, and under any other id nothing. The steps are those of
  the code: \<open>forward_write\<close> is their sequence, for every body.
\<close>

theorem requests_multiplexed:
  fixes calls :: "u16 \<Rightarrow> (HttpRequest \<times> ('e + bytes) list \<times> (bytes \<times> bytes) list) option"
  assumes "\<And>rid req body' dyn_headers. calls rid = Some (req, body', dyn_headers) \<Longrightarrow>
      request_ready mul nl req dyn_headers \<and> body_announced req body'"
    and "\<And>rid. map snd (filter (\<lambda>(r, _). r = rid) sched) = (case calls rid of None \<Rightarrow> []
      | Some (req, body', dyn_headers) \<Rightarrow> forward_steps dbg uninit mul nl req body' dyn_headers rid)"
  shows "(\<exists>w. sends (io_seq (map snd sched)) w () \<and>
    (\<forall>rid. filter (\<lambda>(t, i, b). i = rid) (content_of (snd (wire_scan (InHead []) w))) =
      (case calls rid of None \<Rightarrow> []
       | Some (req, body', dyn_headers) \<Rightarrow> request_content mul req (received body') dyn_headers rid))) \<and>
    (\<forall>req (body' :: ('e + bytes) list) dyn_headers rid. forward_write dbg uninit mul nl req body' dyn_headers rid =
      io_seq (forward_steps dbg uninit mul nl req body' dyn_headers rid))"
proof -
  let ?content = "\<lambda>rid. case calls rid of None \<Rightarrow> []
    | Some (req, body', dyn_headers) \<Rightarrow> request_content mul req (received body') dyn_headers rid"
  have "delivers rid (map snd (filter (\<lambda>(r, _). r = rid) sched)) (?content rid)" for rid
    unfolding assms(2) by (auto split: option.split intro!: steps_deliver dest: assms(1))
  from interleaved_delivers [of sched ?content, OF this] show ?thesis using forward_write_steps by auto
qed

text \<open>The witness: two requests with a body; the second starts before the body of the first is sent.\<close>

definition example_call :: "u16 \<Rightarrow> (HttpRequest \<times> (unit + bytes) list \<times> (bytes \<times> bytes) list) option" where
  "example_call rid = (if rid = 1 then Some (example_request [65] 2, [Inr [1], Inl (), Inr [2]], [])
     else if rid = 2 then Some (example_request [65] 2, [Inr [3, 4]], []) else None)"

definition example_schedule :: "(u16 \<times> unit iom) list" where
  "example_schedule =
     (let s1 = forward_steps True (\<lambda>_. 0) OnlyFirst ReturnError (example_request [65] 2) [Inr [1], Inl (), Inr [2]] [] 1;
          s2 = forward_steps True (\<lambda>_. 0) OnlyFirst ReturnError (example_request [65] 2) [Inr [3, 4] :: unit + bytes] [] 2 in
      [(1, s1 ! 0), (2, s2 ! 0), (1, s1 ! 1), (2, s2 ! 1), (1, s1 ! 2), (1, s1 ! 3), (2, s2 ! 2)])"

lemma example_ready: "request_ready OnlyFirst ReturnError (example_request [65] 2) []"
  using example_request_ok
  by (simp add: request_ready_def) (simp add: example_request_def refused_def header_value_def)

lemma example_calls_ready:
  "example_call rid = Some (req, body', dyn_headers) \<Longrightarrow>
    request_ready OnlyFirst ReturnError req dyn_headers \<and> body_announced req body'"
  using example_ready
  by (auto simp: example_call_def body_announced_def forward_len_def example_request_def split: if_splits)

lemma example_schedule_steps:
  "map snd (filter (\<lambda>(r, _). r = rid) example_schedule) = (case example_call rid of None \<Rightarrow> []
     | Some (req, body', dyn_headers) \<Rightarrow> forward_steps True (\<lambda>_. 0) OnlyFirst ReturnError req body' dyn_headers rid)"
  by (auto simp: example_call_def example_schedule_def forward_steps_def example_request_def forward_len_def Let_def)

theorem requests_multiplexed_witness:
  "\<exists>w. sends (io_seq (map snd example_schedule)) w () \<and>
    filter (\<lambda>(t, i, b). i = 1) (content_of (snd (wire_scan (InHead []) w))) =
      request_content OnlyFirst (example_request [65] 2) [[1], [2]] [] 1 \<and>
    filter (\<lambda>(t, i, b). i = 2) (content_of (snd (wire_scan (InHead []) w))) =
      request_content OnlyFirst (example_request [65] 2) [[3, 4]] [] 2"
proof -
  from requests_multiplexed [of example_call OnlyFirst ReturnError example_schedule True "\<lambda>_. 0"]
    example_calls_ready example_schedule_steps
  obtain w where w: "sends (io_seq (map snd example_schedule)) w ()"
    and f: "\<forall>rid. filter (\<lambda>(t, i, b). i = rid) (content_of (snd (wire_scan (InHead []) w))) =
      (case example_call rid of None \<Rightarrow> []
       | Some (req, body', dyn_headers) \<Rightarrow> request_content OnlyFirst req (received body') dyn_headers rid)" by blast
  from f [rule_format, of 1] f [rule_format, of 2] show ?thesis
    by (intro exI [of _ w]) (simp add: w example_call_def)
qed

end
