(* ===== verification/Connection_Inner.thy ===== *)
theory Connection_Inner
  imports Connection
begin

text \<open>
  \<open>src/client/connection.rs\<close>: what \<open>InnerConnection\<close> does to the requests on it.

  The specification looks at one request at a time: \<open>slot_step\<close> is what one record means for the
  slot of one request. Reading the connection refines it: every slot is stepped by the records
  that carry its id, in their order, and by no others.
\<close>

section \<open>One slot\<close>

definition for_request :: "nat \<Rightarrow> Record \<Rightarrow> bool" where
  "for_request k r \<longleftrightarrow> request_id (header r) \<noteq> 0 \<and> unat (request_id (header r) - 1) = k"

definition slot_step :: "Record \<Rightarrow> FCGIRequest option \<Rightarrow> FCGIRequest option" where
  "slot_step r slot =
     (case slot of
        None \<Rightarrow> None
      | Some q \<Rightarrow>
          (case body r of
             Body.EndRequest _ \<Rightarrow>
               if rq_aborted q then None else Some (q\<lparr>rq_ended := True, rq_waker := None\<rparr>)
           | Body.StdOut s \<Rightarrow>
               if rq_aborted q \<or> s = [] then Some q
               else Some (q\<lparr>rq_buf := rq_buf q @ [s], rq_waker := None\<rparr>)
           | _ \<Rightarrow> Some q))"

definition conn_slot :: "InnerConnection \<Rightarrow> nat \<Rightarrow> FCGIRequest option" where
  "conn_slot c = Slab_get (running_requests c)"

lemma conn_slot_simps [simp]:
  "conn_slot (c\<lparr>io_rx := x\<rparr>) = conn_slot c" "conn_slot (c\<lparr>fcgi_parser := p\<rparr>) = conn_slot c"
  "conn_slot (c\<lparr>sem := n\<rparr>) = conn_slot c" "conn_slot (c\<lparr>woken := w\<rparr>) = conn_slot c"
  "conn_slot (c\<lparr>running_requests := s\<rparr>) = Slab_get s"
  by (simp_all add: conn_slot_def)

lemma distribute_total:
  "\<exists>c'. InnerConnection_distribute dbg r c = Inr c' \<and>
    conn_slot c' = (\<lambda>k. if for_request k r then slot_step r (conn_slot c k) else conn_slot c k)"
proof (cases "request_id (header r) = 0")
  case True
  then show ?thesis
    by (simp add: InnerConnection_distribute_def Record_get_request_id_def for_request_def Let_def)
next
  case False
  let ?k = "unat (request_id (header r) - 1)"
  have f: "for_request k r \<longleftrightarrow> k = ?k" for k using False by (auto simp: for_request_def)
  show ?thesis
  proof (cases "Slab_get (running_requests c) ?k")
    case None
    with False show ?thesis
      by (auto simp: InnerConnection_distribute_def Record_get_request_id_def Let_def f conn_slot_def
        slot_step_def fun_eq_iff)
  next
    case (Some q)
    with False show ?thesis
      by (cases "body r")
        (auto simp: InnerConnection_distribute_def Record_get_request_id_def Let_def f conn_slot_def
          slot_step_def fun_eq_iff Slab_remove_Inr slab_simps)
  qed
qed

lemma distribute_frame:
  "InnerConnection_distribute dbg r c = Inr c' \<Longrightarrow>
     fcgi_parser c' = fcgi_parser c \<and> io_rx c' = io_rx c"
  by (auto simp: InnerConnection_distribute_def Let_def rbind_Inr_iff split: if_splits option.splits Body.splits)

section \<open>Reading is draining, then distributing\<close>

lemma parse_read:
  assumes "RecordReader_read (fcgi_parser c) data = Inr (Some r, p, data1)"
    and "InnerConnection_distribute dbg r (c\<lparr>fcgi_parser := p\<rparr>) = Inr c1"
  shows "InnerConnection_parse_and_distribute dbg data c = InnerConnection_parse_and_distribute dbg data1 c1"
  using assms by (subst InnerConnection_parse_and_distribute.simps) simp

lemma parse_done:
  "RecordReader_read (fcgi_parser c) data = Inr (None, p, data1) \<Longrightarrow>
     InnerConnection_parse_and_distribute dbg data c = Inr (data1, c\<lparr>fcgi_parser := p\<rparr>)"
  by (subst InnerConnection_parse_and_distribute.simps) simp

lemma parse_panic:
  "RecordReader_read (fcgi_parser c) data = Inl e \<Longrightarrow>
     InnerConnection_parse_and_distribute dbg data c = Inl e"
  by (subst InnerConnection_parse_and_distribute.simps) simp

text \<open>The records that one slot sees.\<close>

definition run_slot :: "nat \<Rightarrow> Record list \<Rightarrow> FCGIRequest option \<Rightarrow> FCGIRequest option" where
  "run_slot k rs = fold slot_step (filter (for_request k) rs)"

lemma run_slot_simps [simp]:
  "run_slot k [] s = s"
  "run_slot k (r # rs) s = run_slot k rs (if for_request k r then slot_step r s else s)"
  by (simp_all add: run_slot_def)

lemma parse_drain:
  "InnerConnection_parse_and_distribute dbg data c =
     (case RecordReader_drain (fcgi_parser c) data of
        Inl e \<Rightarrow> Inl e
      | Inr _ \<Rightarrow> InnerConnection_parse_and_distribute dbg data c) \<and>
   (\<forall>rs p rest. RecordReader_drain (fcgi_parser c) data = Inr (rs, p, rest) \<longrightarrow>
      (\<exists>c'. InnerConnection_parse_and_distribute dbg data c = Inr (rest, c') \<and> fcgi_parser c' = p \<and>
        io_rx c' = io_rx c \<and> conn_slot c' = (\<lambda>k. run_slot k rs (conn_slot c k))))"
proof (induction dbg data c rule: InnerConnection_parse_and_distribute.induct)
  case (1 dbg data c)
  show ?case
  proof (cases "RecordReader_read (fcgi_parser c) data")
    case (Inl e)
    then show ?thesis by (simp add: parse_panic drain_panic)
  next
    case (Inr res)
    obtain ro p data1 where res: "res = (ro, p, data1)" by (cases res)
    show ?thesis
    proof (cases ro)
      case None
      with Inr res show ?thesis by (simp add: parse_done drain_None)
    next
      case (Some r)
      obtain c1 where d: "InnerConnection_distribute dbg r (c\<lparr>fcgi_parser := p\<rparr>) = Inr c1"
        and s: "conn_slot c1 = (\<lambda>k. if for_request k r then slot_step r (conn_slot c k) else conn_slot c k)"
        using distribute_total [of dbg r "c\<lparr>fcgi_parser := p\<rparr>", unfolded conn_slot_simps] by blast
      have c1: "fcgi_parser c1 = p" "io_rx c1 = io_rx c" using distribute_frame [OF d] by simp_all
      note IH = "1.IH" [OF Inr res [symmetric] Some refl d, unfolded c1]
      note e = parse_read [OF Inr [unfolded res Some] d] drain_Some [OF Inr [unfolded res Some]]
      from IH show ?thesis unfolding e
        by (cases "RecordReader_drain p data1") (auto simp: s)
    qed
  qed
qed

lemma parse_InrD:
  assumes "InnerConnection_parse_and_distribute dbg data c = Inr (rest, c')"
  obtains rs where "RecordReader_drain (fcgi_parser c) data = Inr (rs, fcgi_parser c', rest)"
    "io_rx c' = io_rx c" "conn_slot c' = (\<lambda>k. run_slot k rs (conn_slot c k))"
proof (cases "RecordReader_drain (fcgi_parser c) data")
  case (Inl e)
  with parse_drain [of dbg data c] assms show thesis by simp
next
  case (Inr res)
  obtain rs p rest' where res: "res = (rs, p, rest')" by (cases res)
  with parse_drain [of dbg data c] assms Inr that [of rs] show thesis by auto
qed

section \<open>What a request gets\<close>

definition stdout_of :: "nat \<Rightarrow> Record list \<Rightarrow> bytes list" where
  "stdout_of k rs = concat (map (\<lambda>r. if for_request k r then
     (case body r of Body.StdOut s \<Rightarrow> if s = [] then [] else [s] | _ \<Rightarrow> []) else []) rs)"

definition ends :: "nat \<Rightarrow> Record list \<Rightarrow> bool" where
  "ends k rs \<longleftrightarrow> (\<exists>r \<in> set rs. for_request k r \<and> (\<exists>e. body r = Body.EndRequest e))"

lemma slot_step_running: "\<not> rq_aborted q \<Longrightarrow> \<exists>q'. slot_step r (Some q) = Some q' \<and> \<not> rq_aborted q'"
  by (auto simp: slot_step_def split: Body.splits)

lemma run_slot_running:
  "\<not> rq_aborted q \<Longrightarrow> run_slot k rs (Some q) = Some q' \<Longrightarrow>
     rq_buf q' = rq_buf q @ stdout_of k rs \<and> (rq_ended q' \<longleftrightarrow> rq_ended q \<or> ends k rs) \<and>
     \<not> rq_aborted q' \<and>
     rq_waker q' = (if stdout_of k rs = [] \<and> \<not> ends k rs then rq_waker q else None)"
proof (induction rs arbitrary: q)
  case Nil
  then show ?case by (simp add: stdout_of_def ends_def)
next
  case (Cons r rs)
  show ?case
  proof (cases "for_request k r")
    case False
    with Cons show ?thesis by (simp add: stdout_of_def ends_def)
  next
    case True
    obtain q1 where q1: "slot_step r (Some q) = Some q1" "\<not> rq_aborted q1"
      using slot_step_running [OF Cons.prems(1)] by blast
    with True Cons.prems(2) have "run_slot k rs (Some q1) = Some q'" by simp
    from Cons.IH [OF q1(2) this] q1(1) True Cons.prems(1) show ?thesis
      by (cases "body r") (auto simp: slot_step_def stdout_of_def ends_def split: if_splits)
  qed
qed

lemma run_slot_Some: "\<not> rq_aborted q \<Longrightarrow> \<exists>q'. run_slot k rs (Some q) = Some q' \<and> \<not> rq_aborted q'"
proof (induction rs arbitrary: q)
  case (Cons r rs)
  from Cons.IH slot_step_running [OF Cons.prems, of r] Cons.prems show ?case
    by (cases "for_request k r") auto
qed simp

lemma run_slot_None [simp]: "run_slot k rs None = None"
  by (induction rs) (simp_all add: slot_step_def)

text \<open>A request that was aborted gets nothing more, and goes with the \<open>EndRequest\<close> of the server.\<close>

lemma run_slot_aborted:
  "rq_aborted q \<Longrightarrow> run_slot k rs (Some q) = (if ends k rs then None else Some q)"
proof (induction rs)
  case (Cons r rs)
  then show ?case by (cases "body r") (auto simp: slot_step_def ends_def)
qed (simp add: ends_def)


text \<open>The bytes of standard output that a stream holds for a request.\<close>

definition stdout_bytes :: "nat \<Rightarrow> (u8 \<times> u16 \<times> u8) list \<Rightarrow> bytes" where
  "stdout_bytes k evs = concat (map (\<lambda>(t, rid, b). if t = 6 \<and> rid \<noteq> 0 \<and> unat (rid - 1) = k then [b] else []) evs)"

lemma stdout_bytes_append [simp]: "stdout_bytes k (xs @ ys) = stdout_bytes k xs @ stdout_bytes k ys"
  by (simp add: stdout_bytes_def)

definition record_typed :: "Record \<Rightarrow> bool" where
  "record_typed r \<longleftrightarrow> (\<exists>payload. Record_parse_body payload (rtype (header r)) = Inr (body r))"

lemma read_typed: "RecordReader_read self data = Inr (Some r, self', rest) \<Longrightarrow> record_typed r"
  using RecordReader_read_ok [of self data "(Some r, self', rest)"]
  by (auto simp: read_ok_def record_typed_def)

lemma drain_typed:
  "RecordReader_drain self data = Inr (rs, self', rest) \<Longrightarrow> list_all record_typed rs"
proof (induction self data arbitrary: rs rule: RecordReader_drain.induct)
  case (1 self data)
  show ?case
  proof (cases "RecordReader_read self data")
    case (Inl e)
    with "1.prems" show ?thesis by (simp add: drain_panic)
  next
    case (Inr res)
    obtain ro p data1 where res: "res = (ro, p, data1)" by (cases res)
    show ?thesis
    proof (cases ro)
      case None
      with Inr res "1.prems" show ?thesis by (simp add: drain_None)
    next
      case (Some r)
      with Inr res "1.prems" obtain rs1 where rs: "rs = r # rs1"
        and d: "RecordReader_drain p data1 = Inr (rs1, self', rest)"
        by (auto simp: drain_Some rbind_Inr_iff)
      from "1.IH" [OF Inr res [symmetric] Some refl d] read_typed Inr res Some rs
      show ?thesis by simp
    qed
  qed
qed

lemma stdout_bytes_record:
  assumes "record_typed r"
  shows "stdout_bytes k (record_content r) =
    (if for_request k r then case body r of Body.StdOut s \<Rightarrow> s | _ \<Rightarrow> [] else [])"
proof -
  from assms obtain payload where p: "Record_parse_body payload (rtype (header r)) = Inr (body r)"
    by (auto simp: record_typed_def)
  have c: "RecordType_code t = 6 \<longleftrightarrow> t = RecordType.StdOut" for t by (cases t) simp_all
  show ?thesis
  proof (cases "rtype (header r) = RecordType.StdOut")
    case True
    with p have "body r = Body.StdOut payload" by (simp add: Record_parse_body_def)
    with True show ?thesis
      by (auto simp: record_content_def stdout_bytes_def for_request_def o_def)
  next
    case False
    with p have "\<forall>s. body r \<noteq> Body.StdOut s"
      by (cases "rtype (header r)") (auto simp: Record_parse_body_def rbind_Inr_iff)
    with False show ?thesis
      by (cases "body r") (auto simp: record_content_def stdout_bytes_def c o_def)
  qed
qed

lemma concat_stdout_of:
  "list_all record_typed rs \<Longrightarrow> concat (stdout_of k rs) = stdout_bytes k (concat (map record_content rs))"
proof (induction rs)
  case Nil
  then show ?case by (simp add: stdout_of_def stdout_bytes_def)
next
  case (Cons r rs)
  then have "concat (stdout_of k rs) = stdout_bytes k (concat (map record_content rs))" by simp
  moreover have "stdout_of k (r # rs) = (if for_request k r then
      (case body r of Body.StdOut s \<Rightarrow> if s = [] then [] else [s] | _ \<Rightarrow> []) else []) @ stdout_of k rs"
    by (simp add: stdout_of_def)
  ultimately show ?case using Cons.prems stdout_bytes_record [of r k]
    by (cases "body r") auto
qed

section \<open>What \<open>poll_resp\<close> does\<close>

lemma notify_slot: "conn_slot (InnerConnection_notify_everyone c) = map_option notify_request \<circ> conn_slot c"
  by (simp add: InnerConnection_notify_everyone_def conn_slot_def slab_simps)

lemma notify_frame [simp]:
  "fcgi_parser (InnerConnection_notify_everyone c) = fcgi_parser c"
  "io_rx (InnerConnection_notify_everyone c) = io_rx c"
  "sem (InnerConnection_notify_everyone c) = sem c"
  by (simp_all add: InnerConnection_notify_everyone_def)

lemma register_slot [simp]:
  "conn_slot (register_io task fill c) = conn_slot c" "conn_slot (c\<lparr>io_tx := t\<rparr>) = conn_slot c"
  "conn_slot (c\<lparr>io_waker := tk\<rparr>) = conn_slot c"
  by (simp_all add: conn_slot_def)

text \<open>The four ways \<open>poll_resp\<close> can return.\<close>

lemma poll_resp_cases:
  assumes "InnerConnection_poll_resp dbg task fill c = Inr (st, c')"
  obtains (pending) "st = Pending" "c' = register_io task fill c" "poll_fill_buf fill (io_rx c) = FillPending"
  | (error) e where "st = Ready (Some (Inl e))" "c' = InnerConnection_notify_everyone (register_io task fill c)"
      "poll_fill_buf fill (io_rx c) = FillErr e"
  | (closed) "st = Ready None" "poll_fill_buf fill (io_rx c) = FillData []"
      "c' = InnerConnection_notify_everyone (register_io task fill c\<lparr>io_rx := []\<rparr>)"
  | (stuck) rbuf c1 where "st = Ready None" "rbuf \<noteq> []" "poll_fill_buf fill (io_rx c) = FillData rbuf"
      "InnerConnection_parse_and_distribute dbg rbuf (register_io task fill c\<lparr>io_rx := rbuf\<rparr>) = Inr (rbuf, c1)"
      "c' = InnerConnection_notify_everyone c1"
  | (data) rbuf rest c1 where "st = Ready (Some (Inr ()))" "poll_fill_buf fill (io_rx c) = FillData rbuf"
      "InnerConnection_parse_and_distribute dbg rbuf (register_io task fill c\<lparr>io_rx := rbuf\<rparr>) = Inr (rest, c1)"
      "length rest < length rbuf" "c' = c1\<lparr>io_rx := rest\<rparr>"
proof (cases "poll_fill_buf fill (io_rx c)")
  case FillPending
  with assms pending show thesis by (simp add: InnerConnection_poll_resp_def Let_def)
next
  case (FillErr e)
  with assms have "st = Ready (Some (Inl e))" "c' = InnerConnection_notify_everyone (register_io task fill c)"
    by (auto simp: InnerConnection_poll_resp_def Let_def)
  with FillErr error show thesis by blast
next
  case (FillData rbuf)
  show thesis
  proof (cases "rbuf = []")
    case True
    with assms FillData closed show thesis by (simp add: InnerConnection_poll_resp_def Let_def)
  next
    case False
    with assms FillData obtain rest c1 where
      p: "InnerConnection_parse_and_distribute dbg rbuf (register_io task fill c\<lparr>io_rx := rbuf\<rparr>) = Inr (rest, c1)"
      and r: "(if length rbuf - length rest = 0 then (Ready None, InnerConnection_notify_everyone c1)
        else (Ready (Some (Inr ())), c1\<lparr>io_rx := drop (length rbuf - length rest) (io_rx c1)\<rparr>)) = (st, c')"
      by (auto simp: InnerConnection_poll_resp_def Let_def rbind_Inr_iff split: if_splits)
    from parse_InrD [OF p] obtain rs where
      d: "RecordReader_drain (fcgi_parser c) rbuf = Inr (rs, fcgi_parser c1, rest)" and rx: "io_rx c1 = rbuf"
      by auto
    from drain_sound [OF d] obtain used where used: "rbuf = used @ rest" by blast
    then have dr: "drop (length rbuf - length rest) (io_rx c1) = rest" by (simp add: rx)
    show thesis
    proof (cases "length rbuf - length rest = 0")
      case True
      with used have "rest = rbuf" by simp
      with p r True stuck False FillData show thesis by simp
    next
      case l: False
      with p r dr data FillData show thesis by simp
    qed
  qed
qed

lemma poll_resp_panic:
  assumes "InnerConnection_poll_resp dbg task fill c = Inl e"
  shows "\<exists>data. poll_fill_buf fill (io_rx c) = FillData data \<and> RecordReader_drain (fcgi_parser c) data = Inl e"
proof (cases "poll_fill_buf fill (io_rx c)")
  case (FillData rbuf)
  with assms have p: "InnerConnection_parse_and_distribute dbg rbuf (register_io task fill c\<lparr>io_rx := rbuf\<rparr>) = Inl e"
    by (auto simp: InnerConnection_poll_resp_def rbind_Inl_iff Let_def split: if_splits)
  have "RecordReader_drain (fcgi_parser c) rbuf = Inl e"
  proof (cases "RecordReader_drain (fcgi_parser c) rbuf")
    case (Inr res)
    then show ?thesis using parse_drain [of dbg rbuf "register_io task fill c\<lparr>io_rx := rbuf\<rparr>"] p
      by (cases res) auto
  next
    case (Inl e')
    have "InnerConnection_parse_and_distribute dbg rbuf c' = Inl e'"
      if "RecordReader_drain (fcgi_parser c') rbuf = Inl e'" for c'
      using parse_drain [of dbg rbuf c'] that by simp
    with Inl p show ?thesis by simp
  qed
  with FillData show ?thesis by blast
qed (use assms in \<open>simp_all add: InnerConnection_poll_resp_def Let_def\<close>)


section \<open>The invariant of the connection\<close>

text \<open>
  \<open>request_ok\<close>: no empty fragment is buffered, and a task that waits has nothing to wait for:
  there is no data and the request has not ended. \<open>conn_ok n\<close>: all requests are like this, and
  every one of the \<open>n\<close> permits is either free or held by a request in the slab.
\<close>

definition request_ok :: "FCGIRequest \<Rightarrow> bool" where
  "request_ok q \<longleftrightarrow> BufList_wf (rq_buf q) \<and> (rq_waker q \<noteq> None \<longrightarrow> rq_buf q = [] \<and> \<not> rq_ended q)"

definition conn_ok :: "nat \<Rightarrow> InnerConnection \<Rightarrow> bool" where
  "conn_ok n c \<longleftrightarrow> Slab_wf (running_requests c) \<and> slab.all_values request_ok (running_requests c) \<and>
     sem c + length (running_requests c) = n"

text \<open>What an operation may do to the running requests of others.\<close>

definition request_kept :: "FCGIRequest \<Rightarrow> FCGIRequest \<Rightarrow> bool" where
  "request_kept q q' \<longleftrightarrow> \<not> rq_aborted q' \<and> prefix (rq_buf q) (rq_buf q') \<and>
     (rq_ended q \<longrightarrow> rq_ended q') \<and> (rq_waker q = None \<longrightarrow> rq_waker q' = None)"

definition slot_kept :: "FCGIRequest option \<Rightarrow> FCGIRequest option \<Rightarrow> bool" where
  "slot_kept s s' \<longleftrightarrow> (s = None \<longrightarrow> s' = None) \<and>
     (\<forall>q. s = Some q \<and> \<not> rq_aborted q \<longrightarrow> (\<exists>q'. s' = Some q' \<and> request_kept q q'))"

lemma request_kept_refl: "\<not> rq_aborted q \<Longrightarrow> request_kept q q"
  by (simp add: request_kept_def)

lemma request_kept_trans: "request_kept q q1 \<Longrightarrow> request_kept q1 q2 \<Longrightarrow> request_kept q q2"
  by (auto simp: request_kept_def intro: prefix_order.trans)

lemma slot_kept_refl [simp]: "slot_kept s s"
  by (auto simp: slot_kept_def request_kept_refl)

lemma slot_kept_trans: "slot_kept s s1 \<Longrightarrow> slot_kept s1 s2 \<Longrightarrow> slot_kept s s2"
  unfolding slot_kept_def by (metis request_kept_def request_kept_trans)

lemma slot_kept_step: "slot_kept s (slot_step r s)"
  by (auto simp: slot_kept_def slot_step_def request_kept_def split: option.splits Body.splits)

lemma slot_kept_notify: "slot_kept s (map_option notify_request s)"
  by (auto simp: slot_kept_def notify_request_def request_kept_def Let_def)

lemma slot_kept_run: "slot_kept s (run_slot k rs s)"
proof (induction rs arbitrary: s)
  case (Cons r rs)
  then show ?case using slot_kept_trans [OF slot_kept_step Cons.IH] by simp
qed simp

subsection \<open>Distribution keeps it\<close>

lemma conn_ok_simps [simp]:
  "conn_ok n (c\<lparr>io_rx := x\<rparr>) = conn_ok n c" "conn_ok n (c\<lparr>fcgi_parser := p\<rparr>) = conn_ok n c"
  "conn_ok n (c\<lparr>woken := w\<rparr>) = conn_ok n c" "conn_ok n (c\<lparr>io_tx := t\<rparr>) = conn_ok n c"
  "conn_ok n (c\<lparr>io_waker := tk\<rparr>) = conn_ok n c" "conn_ok n (register_io task fill c) = conn_ok n c"
  by (simp_all add: conn_ok_def)

lemma conn_ok_request: "conn_ok n c \<Longrightarrow> Slab_get (running_requests c) k = Some q \<Longrightarrow> request_ok q"
  by (auto simp: conn_ok_def slab.all_values_def)

lemma conn_ok_put:
  "conn_ok n c \<Longrightarrow> Slab_get (running_requests c) k = Some q0 \<Longrightarrow> request_ok q \<Longrightarrow>
     conn_ok n (c\<lparr>running_requests := Slab_put k q (running_requests c)\<rparr>)"
  by (simp add: conn_ok_def slab.wf_put slab.size_put slab.all_values_put)

lemma conn_ok_put_woken:
  "conn_ok n c \<Longrightarrow> Slab_get (running_requests c) k = Some q0 \<Longrightarrow> request_ok q \<Longrightarrow>
     conn_ok n (c\<lparr>running_requests := Slab_put k q (running_requests c), woken := w\<rparr>)"
  using conn_ok_put [of n c k q0 q] by (simp add: conn_ok_def)

lemma conn_ok_release:
  "conn_ok n c \<Longrightarrow> Slab_get (running_requests c) k = Some q \<Longrightarrow>
     conn_ok n (c\<lparr>running_requests := Slab_delete k (running_requests c), sem := Suc (sem c)\<rparr>)"
  using slab.size_del [of "running_requests c" k]
  by (simp add: conn_ok_def slab.wf_del slab.all_values_del)

lemma conn_ok_notify: "conn_ok n c \<Longrightarrow> conn_ok n (InnerConnection_notify_everyone c)"
  by (auto simp: conn_ok_def InnerConnection_notify_everyone_def slab.wf_each slab.size_each
    notify_request_def request_ok_def Let_def intro!: slab.all_values_each)

lemma distribute_ok:
  assumes "conn_ok n c" "InnerConnection_distribute dbg r c = Inr c'"
  shows "conn_ok n c'"
proof -
  let ?k = "unat (request_id (header r) - 1)"
  show ?thesis
  proof (cases "request_id (header r) = 0 \<or> Slab_get (running_requests c) ?k = None")
    case True
    with assms show ?thesis
      by (auto simp: InnerConnection_distribute_def Record_get_request_id_def Let_def split: if_splits)
  next
    case False
    then obtain q where q: "Slab_get (running_requests c) ?k = Some q" by blast
    with assms(1) have ok: "request_ok q" by (rule conn_ok_request)
    show ?thesis
    proof (cases "body r")
      case (EndRequest e)
      let ?q = "q\<lparr>rq_ended := True, rq_waker := None\<rparr>"
      have 1: "conn_ok n (c\<lparr>running_requests := Slab_put ?k ?q (running_requests c), woken := woken c @ wake q\<rparr>)"
        using ok by (intro conn_ok_put_woken [OF assms(1) q]) (simp add: request_ok_def)
      have "Slab_get (Slab_put ?k ?q (running_requests c)) ?k = Some ?q"
        using q by (simp add: slab_simps)
      from conn_ok_release [OF 1, of ?k ?q] this 1 assms(2) False q EndRequest show ?thesis
        by (auto simp: InnerConnection_distribute_def Record_get_request_id_def Let_def Slab_remove_Inr
          split: if_splits)
    next
      case (StdOut d)
      have "conn_ok n (c\<lparr>running_requests := Slab_put ?k (q\<lparr>rq_buf := rq_buf q @ [d], rq_waker := None\<rparr>)
          (running_requests c), woken := woken c @ wake q\<rparr>)" if "d \<noteq> []"
        using ok that by (intro conn_ok_put_woken [OF assms(1) q]) (simp add: request_ok_def)
      with assms False q StdOut show ?thesis
        by (auto simp: InnerConnection_distribute_def Record_get_request_id_def Let_def split: if_splits)
    qed (use assms False q in \<open>simp_all add: InnerConnection_distribute_def Record_get_request_id_def
      Let_def split: if_splits\<close>)
  qed
qed

lemma parse_ok:
  "conn_ok n c \<Longrightarrow> InnerConnection_parse_and_distribute dbg data c = Inr (rest, c') \<Longrightarrow> conn_ok n c'"
proof (induction dbg data c rule: InnerConnection_parse_and_distribute.induct)
  case (1 dbg data c)
  show ?case
  proof (cases "RecordReader_read (fcgi_parser c) data")
    case (Inl e)
    with "1.prems" show ?thesis by (simp add: parse_panic)
  next
    case (Inr res)
    obtain ro p data1 where res: "res = (ro, p, data1)" by (cases res)
    show ?thesis
    proof (cases ro)
      case None
      with Inr res "1.prems" show ?thesis by (auto simp: parse_done)
    next
      case (Some r)
      obtain c1 where d: "InnerConnection_distribute dbg r (c\<lparr>fcgi_parser := p\<rparr>) = Inr c1"
        using distribute_total by blast
      with "1.prems"(1) distribute_ok [of n "c\<lparr>fcgi_parser := p\<rparr>" dbg r c1] have "conn_ok n c1" by simp
      from "1.IH" [OF Inr res [symmetric] Some refl d this] "1.prems"(2)
        parse_read [OF Inr [unfolded res Some] d] show ?thesis by simp
    qed
  qed
qed

lemma poll_resp_ok:
  assumes "conn_ok n c" "InnerConnection_poll_resp dbg task fill c = Inr (st, c')"
  shows "conn_ok n c' \<and> (\<forall>k. slot_kept (conn_slot c k) (conn_slot c' k))"
  using assms(2)
proof (cases rule: poll_resp_cases)
  case (stuck rbuf c1)
  from parse_InrD [OF stuck(4)] obtain rs where s: "conn_slot c1 = (\<lambda>k. run_slot k rs (conn_slot c k))" by auto
  have "conn_ok n c1" using assms(1) parse_ok [OF _ stuck(4)] by simp
  with stuck s show ?thesis
    by (auto simp: conn_ok_notify notify_slot intro: slot_kept_trans [OF slot_kept_run slot_kept_notify])
next
  case (data rbuf rest c1)
  from parse_InrD [OF data(3)] obtain rs where s: "conn_slot c1 = (\<lambda>k. run_slot k rs (conn_slot c k))" by auto
  have "conn_ok n c1" using assms(1) parse_ok [OF _ data(3)] by simp
  with data s show ?thesis by (simp add: slot_kept_run)
qed (use assms(1) in \<open>simp_all add: conn_ok_notify notify_slot slot_kept_notify\<close>)


section \<open>Wakers\<close>

text \<open>\<open>wakers_kept\<close>: a task that was registered with its request is still registered, or was woken.\<close>

definition wakers_kept :: "InnerConnection \<Rightarrow> InnerConnection \<Rightarrow> bool" where
  "wakers_kept c c' \<longleftrightarrow> set (woken c) \<subseteq> set (woken c') \<and>
     (\<forall>k q t. conn_slot c k = Some q \<and> rq_waker q = Some t \<longrightarrow>
        t \<in> set (woken c') \<or> (\<exists>q'. conn_slot c' k = Some q' \<and> rq_waker q' = Some t))"

lemma wakers_kept_refl: "wakers_kept c c"
  by (simp add: wakers_kept_def)

lemma wakers_kept_trans: "wakers_kept c c1 \<Longrightarrow> wakers_kept c1 c2 \<Longrightarrow> wakers_kept c c2"
  unfolding wakers_kept_def by (meson subset_iff)

lemma wakers_kept_cong:
  "wakers_kept c c' \<Longrightarrow> conn_slot d = conn_slot c \<Longrightarrow> set (woken d) \<subseteq> set (woken c) \<Longrightarrow>
     conn_slot d' = conn_slot c' \<Longrightarrow> woken d' = woken c' \<Longrightarrow> wakers_kept d d'"
  by (auto simp: wakers_kept_def)

lemma wakers_kept_register: "wakers_kept c (register_io task fill c)"
  by (auto simp: wakers_kept_def) (auto simp: register_io_def)

lemma slot_in_slab: "conn_slot c k = Some q \<Longrightarrow> (k, q) \<in> set (running_requests c)"
  by (simp add: conn_slot_def Slab_get_def map_of_SomeD)

lemma wakers_kept_notify: "wakers_kept c (InnerConnection_notify_everyone c)"
proof -
  have "t \<in> set (woken (InnerConnection_notify_everyone c))" if "conn_slot c k = Some q" "rq_waker q = Some t" for k q t
    using slot_in_slab [OF that(1)] that(2)
    by (auto simp: InnerConnection_notify_everyone_def wake_def intro!: bexI [of _ "(k, q)"])
  then show ?thesis
    by (auto simp: wakers_kept_def) (simp add: InnerConnection_notify_everyone_def)
qed

lemma distribute_wakes:
  assumes "InnerConnection_distribute dbg r c = Inr c'"
  shows "wakers_kept c c'"
proof -
  let ?k = "unat (request_id (header r) - 1)"
  have eq: "conn_slot c' = (\<lambda>k. if for_request k r then slot_step r (conn_slot c k) else conn_slot c k)"
    using distribute_total [of dbg r c] assms by auto
  show ?thesis
  proof (cases "request_id (header r) = 0 \<or> conn_slot c ?k = None")
    case True
    with assms have "c' = c"
      by (auto simp: InnerConnection_distribute_def Record_get_request_id_def conn_slot_def Let_def split: if_splits)
    then show ?thesis by (simp add: wakers_kept_refl)
  next
    case False
    then obtain q where q: "conn_slot c ?k = Some q" by blast
    have w: "woken c' = woken c @ wake q \<or> (woken c' = woken c \<and> slot_step r (Some q) = Some q)"
      using assms False q
      by (auto simp: InnerConnection_distribute_def Record_get_request_id_def conn_slot_def Let_def
        rbind_Inr_iff slot_step_def split: if_splits Body.splits)
    have f: "for_request k r \<longleftrightarrow> k = ?k" for k using False by (auto simp: for_request_def)
    show ?thesis
    proof (rule disjE [OF w])
      assume w: "woken c' = woken c @ wake q"
      show ?thesis unfolding wakers_kept_def eq f w using q by (auto simp: wake_def)
    next
      assume w: "woken c' = woken c \<and> slot_step r (Some q) = Some q"
      then have "conn_slot c' = conn_slot c" unfolding eq f using q by auto
      with w show ?thesis by (simp add: wakers_kept_def)
    qed
  qed
qed

lemma parse_wakes:
  "InnerConnection_parse_and_distribute dbg data c = Inr (rest, c') \<Longrightarrow> wakers_kept c c'"
proof (induction dbg data c rule: InnerConnection_parse_and_distribute.induct)
  case (1 dbg data c)
  show ?case
  proof (cases "RecordReader_read (fcgi_parser c) data")
    case (Inl e)
    with "1.prems" show ?thesis by (simp add: parse_panic)
  next
    case (Inr res)
    obtain ro p data1 where res: "res = (ro, p, data1)" by (cases res)
    show ?thesis
    proof (cases ro)
      case None
      with Inr res "1.prems" show ?thesis by (auto simp: parse_done wakers_kept_def)
    next
      case (Some r)
      obtain c1 where d: "InnerConnection_distribute dbg r (c\<lparr>fcgi_parser := p\<rparr>) = Inr c1"
        using distribute_total by blast
      have "wakers_kept c c1" by (rule wakers_kept_cong [OF distribute_wakes [OF d]]) simp_all
      moreover have "wakers_kept c1 c'"
        using "1.IH" [OF Inr res [symmetric] Some refl d] "1.prems" parse_read [OF Inr [unfolded res Some] d] by simp
      ultimately show ?thesis by (rule wakers_kept_trans)
    qed
  qed
qed

lemma poll_resp_wakes:
  assumes "InnerConnection_poll_resp dbg task fill c = Inr (st, c')"
  shows "wakers_kept c c'"
proof -
  have rx: "wakers_kept c (register_io task fill c\<lparr>io_rx := x\<rparr>)" for x
    by (rule wakers_kept_cong [OF wakers_kept_register [of c task fill]]) simp_all
  show ?thesis
    using assms
  proof (cases rule: poll_resp_cases)
    case (stuck rbuf c1)
    from wakers_kept_trans [OF rx parse_wakes [OF stuck(4)]] stuck(5) show ?thesis
      by (auto intro: wakers_kept_trans [OF _ wakers_kept_notify])
  next
    case (data rbuf rest c1)
    from wakers_kept_trans [OF rx parse_wakes [OF data(3)]] data(5) show ?thesis
      by (auto intro: wakers_kept_cong)
  qed (auto intro: wakers_kept_register wakers_kept_trans [OF _ wakers_kept_notify] rx)
qed

text \<open>Records that are of no interest to any request.\<close>

definition silent :: "Record \<Rightarrow> bool" where
  "silent r \<longleftrightarrow> (case body r of Body.EndRequest _ \<Rightarrow> False | Body.StdOut s \<Rightarrow> s = [] | _ \<Rightarrow> True)"

lemma distribute_silent: "silent r \<Longrightarrow> InnerConnection_distribute dbg r c = Inr c"
  by (auto simp: InnerConnection_distribute_def silent_def Let_def split: Body.splits option.splits)

lemma parse_silent:
  "RecordReader_drain (fcgi_parser c) data = Inr (rs, p, rest) \<Longrightarrow> list_all silent rs \<Longrightarrow>
     InnerConnection_parse_and_distribute dbg data c = Inr (rest, c\<lparr>fcgi_parser := p\<rparr>)"
proof (induction dbg data c arbitrary: rs rule: InnerConnection_parse_and_distribute.induct)
  case (1 dbg data c)
  show ?case
  proof (cases "RecordReader_read (fcgi_parser c) data")
    case (Inl e)
    with "1.prems" show ?thesis by (simp add: drain_panic)
  next
    case (Inr res)
    obtain ro p1 data1 where res: "res = (ro, p1, data1)" by (cases res)
    show ?thesis
    proof (cases ro)
      case None
      with Inr res "1.prems" show ?thesis by (auto simp: parse_done drain_None)
    next
      case (Some r)
      with Inr res "1.prems" obtain rs1 where rs: "rs = r # rs1"
        and d: "RecordReader_drain p1 data1 = Inr (rs1, p, rest)"
        by (auto simp: drain_Some rbind_Inr_iff)
      with "1.prems"(2) have s: "InnerConnection_distribute dbg r (c\<lparr>fcgi_parser := p1\<rparr>) = Inr (c\<lparr>fcgi_parser := p1\<rparr>)"
        by (simp add: distribute_silent)
      from "1.IH" [OF Inr res [symmetric] Some refl s, of rs1] d rs "1.prems"(2)
        parse_read [OF Inr [unfolded res Some] s] show ?thesis by simp
    qed
  qed
qed


section \<open>What \<open>poll_frame\<close> does\<close>

text \<open>
  With the mutex free and the request \<open>q\<close> as \<open>poll_resp\<close> left it: the oldest fragment, the end, or
  wait. \<open>frame_release\<close>: this poll gives the slot back.
\<close>

definition frame_result :: "FCGIRequest \<Rightarrow> bytes option poll" where
  "frame_result q =
     (case rq_buf q of d # rest \<Rightarrow> Ready (Some d) | [] \<Rightarrow> if rq_ended q then Ready None else Pending)"

definition frame_release :: "FCGIBody \<Rightarrow> FCGIRequest \<Rightarrow> bool" where
  "frame_release b q \<longleftrightarrow> fb_was_returned b \<and> rq_ended q \<and> length (rq_buf q) \<le> 1"

definition frame_request :: "nat \<Rightarrow> FCGIRequest \<Rightarrow> FCGIRequest" where
  "frame_request task q =
     (case rq_buf q of d # rest \<Rightarrow> q\<lparr>rq_buf := rest\<rparr>
      | [] \<Rightarrow> if rq_ended q then q else q\<lparr>rq_waker := Some task\<rparr>)"

lemma poll_frame_ready:
  assumes "\<not> fb_done b" "InnerConnection_poll_resp dbg task fill con = Inr (st, con1)"
    and "conn_slot con1 (unat (fb_rid b)) = Some q" "BufList_wf (rq_buf q)"
  shows "\<exists>con'. FCGIBody_poll_frame dbg True task fill b con =
      Inr (frame_result q, b\<lparr>fb_done := frame_release b q\<rparr>, con') \<and>
    conn_slot con' = (conn_slot con1)(unat (fb_rid b) :=
      (if frame_release b q then None else Some (frame_request task q))) \<and>
    (\<forall>n. conn_ok n con1 \<longrightarrow> conn_ok n con')"
proof -
  let ?k = "unat (fb_rid b)" and ?rr = "running_requests con1"
  have get: "Slab_get ?rr ?k = Some q" using assms(3) by (simp add: conn_slot_def)
  have bd: "b\<lparr>fb_done := False\<rparr> = b" using assms(1) by (cases b) simp
  show ?thesis
  proof (cases "rq_buf q")
    case Nil
    show ?thesis
    proof (cases "rq_ended q")
      case False
      have "conn_ok n (con1\<lparr>running_requests := Slab_put ?k (q\<lparr>rq_waker := Some task\<rparr>) ?rr\<rparr>)"
        if "conn_ok n con1" for n
        using conn_ok_request [OF that get] Nil False
        by (intro conn_ok_put [OF that get]) (simp add: request_ok_def)
      with Nil False assms get show ?thesis
        by (simp add: FCGIBody_poll_frame_def frame_result_def frame_release_def frame_request_def
          slab_simps conn_slot_def bd)
    next
      case True
      with Nil assms get bd show ?thesis
        by (cases "fb_was_returned b")
          (auto simp: FCGIBody_poll_frame_def frame_result_def frame_release_def frame_request_def
            slab_simps conn_slot_def Let_def Slab_remove_Inr fun_upd_idem conn_ok_release)
    qed
  next
    case (Cons d rest)
    let ?q = "q\<lparr>rq_buf := rest\<rparr>" and ?con = "con1\<lparr>running_requests := Slab_put ?k (q\<lparr>rq_buf := rest\<rparr>) ?rr\<rparr>"
    have wf: "d \<noteq> []" "BufList_wf rest" using assms(4) Cons by simp_all
    then have rem: "BufList_remaining (d # rest) \<ge> 1" by (simp add: BufList_remaining_def Suc_le_eq)
    have ok: "conn_ok n ?con" if "conn_ok n con1" for n
      using conn_ok_request [OF that get] Cons
      by (intro conn_ok_put [OF that get]) (simp add: request_ok_def)
    have get': "Slab_get (Slab_put ?k ?q ?rr) ?k = Some ?q" using get by (simp add: slab_simps)
    show ?thesis
    proof (cases "frame_release b q")
      case True
      with Cons have r: "fb_was_returned b" "rq_ended q" "rest = []" by (simp_all add: frame_release_def)
      have "conn_ok n (?con\<lparr>running_requests := Slab_delete ?k (Slab_put ?k ?q ?rr), sem := Suc (sem con1)\<rparr>)"
        if "conn_ok n con1" for n
        using conn_ok_release [OF ok [OF that], of ?k ?q] get' by simp
      with True r Cons rem assms get get' show ?thesis
        by (simp add: FCGIBody_poll_frame_def frame_result_def slab_simps conn_slot_def Let_def
          Slab_remove_Inr fun_eq_iff)
    next
      case False
      with Cons wf have "\<not> (fb_was_returned b \<and> rq_ended q \<and> BufList_remaining rest < 1)"
        using BufList_wf_empty [OF wf(2)] by (auto simp: frame_release_def)
      with False Cons rem assms get ok bd show ?thesis
        by (auto simp: FCGIBody_poll_frame_def frame_result_def frame_request_def slab_simps
          conn_slot_def Let_def)
    qed
  qed
qed

text \<open>A poll with nothing to read on the stream.\<close>

lemma poll_frame_quiet:
  assumes "\<not> fb_done b" "io_rx con = []" "conn_slot con (unat (fb_rid b)) = Some q" "BufList_wf (rq_buf q)"
  shows "\<exists>con'. FCGIBody_poll_frame dbg True task FillPending b con =
      Inr (frame_result q, b\<lparr>fb_done := frame_release b q\<rparr>, con') \<and>
    conn_slot con' = (conn_slot con)(unat (fb_rid b) :=
      (if frame_release b q then None else Some (frame_request task q))) \<and>
    (\<forall>n. conn_ok n con \<longrightarrow> conn_ok n con')"
proof -
  have pr: "InnerConnection_poll_resp dbg task FillPending con = Inr (Pending, register_io task FillPending con)"
    using assms(2) by (simp add: InnerConnection_poll_resp_def poll_fill_buf_def Let_def)
  have "conn_slot (register_io task FillPending con) (unat (fb_rid b)) = Some q" using assms(3) by simp
  from poll_frame_ready [OF assms(1) pr this assms(4)] show ?thesis by simp
qed

lemma poll_frame_no_slot:
  assumes "\<not> fb_done b" "InnerConnection_poll_resp dbg task fill con = Inr (st, con1)"
    and "conn_slot con1 (unat (fb_rid b)) = None"
  shows "FCGIBody_poll_frame dbg True task fill b con = Inr (Ready None, b\<lparr>fb_done := True\<rparr>, con1)"
  using assms by (simp add: FCGIBody_poll_frame_def conn_slot_def)

lemma poll_frame_idle:
  "fb_done b \<Longrightarrow> FCGIBody_poll_frame dbg lock task fill b con = Inr (Ready None, b, con)"
  "\<not> fb_done b \<Longrightarrow> FCGIBody_poll_frame dbg False task fill b con = Inr (Pending, b, con)"
  by (simp_all add: FCGIBody_poll_frame_def)

text \<open>The only panics are the parser's.\<close>

lemma poll_frame_panic:
  assumes "conn_ok n con" "FCGIBody_poll_frame dbg lock task fill b con = Inl e"
  shows "\<exists>data. poll_fill_buf fill (io_rx con) = FillData data \<and>
    RecordReader_drain (fcgi_parser con) data = Inl e"
proof -
  have b: "\<not> fb_done b" "lock"
    using assms(2) by (auto simp: FCGIBody_poll_frame_def split: if_splits)
  show ?thesis
  proof (cases "InnerConnection_poll_resp dbg task fill con")
    case (Inl e')
    with assms(2) b have "e' = e" by (simp add: FCGIBody_poll_frame_def)
    with poll_resp_panic Inl show ?thesis by blast
  next
    case (Inr res)
    obtain st con1 where res: "res = (st, con1)" by (cases res)
    with poll_resp_ok [OF assms(1)] Inr have ok: "conn_ok n con1" by blast
    show ?thesis
    proof (cases "conn_slot con1 (unat (fb_rid b))")
      case None
      with poll_frame_no_slot [OF b(1) Inr [unfolded res]] assms(2) b(2) show ?thesis by simp
    next
      case (Some q)
      with ok have "BufList_wf (rq_buf q)"
        by (auto simp: conn_slot_def request_ok_def dest: conn_ok_request)
      with poll_frame_ready [OF b(1) Inr [unfolded res] Some] assms(2) b(2) show ?thesis by auto
    qed
  qed
qed

lemma poll_frame_ok:
  assumes "conn_ok n con" "FCGIBody_poll_frame dbg lock task fill b con = Inr (p, b', con')"
  shows "conn_ok n con' \<and> (\<forall>k. k \<noteq> unat (fb_rid b) \<longrightarrow> slot_kept (conn_slot con k) (conn_slot con' k)) \<and>
    dom (conn_slot con') \<subseteq> dom (conn_slot con) \<and>
    fb_rid b' = fb_rid b \<and> fb_was_returned b' = fb_was_returned b \<and>
    (\<forall>q. \<not> fb_done b \<and> conn_slot con (unat (fb_rid b)) = Some q \<and> \<not> rq_aborted q \<longrightarrow>
      (fb_was_returned b \<and> fb_done b') \<or>
      (\<not> fb_done b' \<and> (\<exists>q'. conn_slot con' (unat (fb_rid b)) = Some q' \<and> \<not> rq_aborted q' \<and>
        (\<forall>d. p = Ready (Some d) \<longrightarrow> d \<noteq> [] \<and> rq_waker q' = None))))"
proof (cases "fb_done b \<or> \<not> lock")
  case True
  with assms poll_frame_idle show ?thesis by (cases "fb_done b") auto
next
  case False
  then have b: "\<not> fb_done b" "lock" by simp_all
  let ?k = "unat (fb_rid b)"
  from assms(2) b obtain st con1 where r: "InnerConnection_poll_resp dbg task fill con = Inr (st, con1)"
    by (cases "InnerConnection_poll_resp dbg task fill con") (auto simp: FCGIBody_poll_frame_def)
  from poll_resp_ok [OF assms(1) this] have ok: "conn_ok n con1"
    and kept: "\<And>k. slot_kept (conn_slot con k) (conn_slot con1 k)" by blast+
  have dom: "dom (conn_slot con1) \<subseteq> dom (conn_slot con)"
    using kept by (fastforce simp: slot_kept_def)
  show ?thesis
  proof (cases "conn_slot con1 ?k")
    case None
    then have no: "rq_aborted q" if "conn_slot con ?k = Some q" for q
      using kept [of ?k] that by (auto simp: slot_kept_def)
    from poll_frame_no_slot [OF b(1) r None] assms(2) b(2) have
      "p = Ready None" "b' = b\<lparr>fb_done := True\<rparr>" "con' = con1" by auto
    with b(1) ok kept dom no show ?thesis by auto
  next
    case (Some q1)
    with ok have q1: "request_ok q1" by (auto simp: conn_slot_def dest: conn_ok_request)
    then have wf: "BufList_wf (rq_buf q1)" by (simp add: request_ok_def)
    from poll_frame_ready [OF b(1) r Some wf] assms(2) b(2) have
      e: "p = frame_result q1" "b' = b\<lparr>fb_done := frame_release b q1\<rparr>"
      "conn_slot con' = (conn_slot con1)(?k := (if frame_release b q1 then None else Some (frame_request task q1)))"
      and ok': "conn_ok n con'" using ok by auto
    have na: "\<not> rq_aborted q1" if "conn_slot con ?k = Some q" "\<not> rq_aborted q" for q
      using kept [of ?k] that Some by (auto simp: slot_kept_def request_kept_def)
    have "\<not> rq_aborted q1 \<Longrightarrow> \<not> rq_aborted (frame_request task q1)"
      by (auto simp: frame_request_def split: list.split)
    moreover have "frame_result q1 = Ready (Some d) \<Longrightarrow> d \<noteq> [] \<and> rq_waker (frame_request task q1) = None" for d
      using q1 by (auto simp: frame_result_def frame_request_def request_ok_def split: list.splits if_splits)
    moreover have "dom (conn_slot con') \<subseteq> dom (conn_slot con)"
      using dom Some by (auto simp: e(3) split: if_splits)
    ultimately show ?thesis using ok' kept na by (auto simp: e frame_release_def)
  qed
qed


lemma drop_ok:
  assumes "conn_ok n con"
  shows "conn_ok n (FCGIBody_drop lock b con) \<and> dom (conn_slot (FCGIBody_drop lock b con)) = dom (conn_slot con) \<and>
    (\<forall>k. k \<noteq> unat (fb_rid b) \<longrightarrow> conn_slot (FCGIBody_drop lock b con) k = conn_slot con k)"
proof (cases "\<not> fb_done b \<and> lock \<and> conn_slot con (unat (fb_rid b)) \<noteq> None")
  case True
  let ?k = "unat (fb_rid b)"
  from True obtain q where q: "Slab_get (running_requests con) ?k = Some q" by (auto simp: conn_slot_def)
  have "conn_ok n (con\<lparr>running_requests := Slab_put ?k (q\<lparr>rq_aborted := True, rq_waker := None\<rparr>) (running_requests con)\<rparr>)"
    using conn_ok_request [OF assms q] by (intro conn_ok_put [OF assms q]) (simp add: request_ok_def)
  with True q show ?thesis by (auto simp: FCGIBody_drop_def conn_slot_def slab_simps split: if_splits)
next
  case False
  then have "FCGIBody_drop lock b con = con" by (auto simp: FCGIBody_drop_def conn_slot_def)
  with assms show ?thesis by simp
qed

section \<open>Properties\<close>

text \<open>
  C6. Demultiplexing: when the connection is driven and there is data, every running request that
  was not aborted gets appended to its buffer exactly the bytes of standard output that the stream
  carries for its request id, in order, as a byte-wise scan of what was consumed finds them;
  nothing of other requests, and a task that waits for data that came is woken.
\<close>

theorem poll_resp_delivers:
  assumes "InnerConnection_poll_resp dbg task fill c = Inr (Ready (Some (Inr ())), c')"
    and "poll_fill_buf fill (io_rx c) = FillData data"
    and "conn_slot c k = Some q" "\<not> rq_aborted q"
  shows "\<exists>used es q'. data = used @ io_rx c' \<and> used \<noteq> [] \<and>
    wire_scan (reader_abs (fcgi_parser c)) used = (reader_abs (fcgi_parser c'), es) \<and>
    conn_slot c' k = Some q' \<and> concat (rq_buf q') = concat (rq_buf q) @ stdout_bytes k (stream_content es) \<and>
    (stdout_bytes k (stream_content es) \<noteq> [] \<longrightarrow>
       rq_waker q' = None \<and> (\<forall>t. rq_waker q = Some t \<longrightarrow> t \<in> set (woken c')))"
  using assms(1)
proof (cases rule: poll_resp_cases)
  case (data rbuf rest c1)
  from data(2) assms(2) have rbuf: "rbuf = data" by simp
  from parse_InrD [OF data(3)] obtain rs where
    d: "RecordReader_drain (fcgi_parser c) data = Inr (rs, fcgi_parser c1, rest)"
    and s: "conn_slot c1 = (\<lambda>k. run_slot k rs (conn_slot c k))" by (auto simp: rbuf)
  from drain_sound [OF d] obtain used es where u: "data = used @ rest"
    "wire_scan (reader_abs (fcgi_parser c)) used = (reader_abs (fcgi_parser c1), es)"
    "stream_content es = concat (map record_content rs)" by blast
  from run_slot_Some [OF assms(4), of k rs] obtain q' where q': "run_slot k rs (Some q) = Some q'" by blast
  from concat_stdout_of [OF drain_typed [OF d], of k] u(3)
  have out: "concat (stdout_of k rs) = stdout_bytes k (stream_content es)" by simp
  from run_slot_running [OF assms(4) q'] out have "concat (rq_buf q') = concat (rq_buf q) @ stdout_bytes k (stream_content es)"
    "stdout_bytes k (stream_content es) \<noteq> [] \<longrightarrow> rq_waker q' = None" by auto
  moreover have "t \<in> set (woken c')" if "rq_waker q = Some t" "rq_waker q' = None" for t
  proof -
    have "conn_slot c' k = Some q'" using s q' data(5) assms(3) by simp
    with poll_resp_wakes [OF assms(1)] that assms(3) show ?thesis unfolding wakers_kept_def by fastforce
  qed
  ultimately show ?thesis using u data(4,5) s q' assms(3) by (auto simp: rbuf)
qed simp_all

text \<open>
  A concrete connection: request 1 waits (task 9), its response arrives in one read, with the
  beginning of the next record.
\<close>

definition example_connection :: "FCGIRequest \<Rightarrow> InnerConnection" where
  "example_connection q = \<lparr>io_rx = [], io_tx = [], io_waker = None, running_requests = [(0, q)],
     fcgi_parser = RecordReader_new, sem = 0, woken = []\<rparr>"

definition example_waiting :: FCGIRequest where
  "example_waiting = \<lparr>rq_buf = [], rq_waker = Some 9, rq_ended = False, rq_aborted = False\<rparr>"

definition example_aborted :: FCGIRequest where
  "example_aborted = \<lparr>rq_buf = [], rq_waker = None, rq_ended = False, rq_aborted = True\<rparr>"

definition example_input :: bytes where
  "example_input = [1, 6, 0, 1, 0, 2, 0, 0, 104, 105, 1, 6]"

definition example_after :: "FCGIRequest \<Rightarrow> nat list \<Rightarrow> InnerConnection" where
  "example_after q w = \<lparr>io_rx = [1, 6], io_tx = [], io_waker = None, running_requests = [(0, q)],
     fcgi_parser = RecordReader_new, sem = 0, woken = w\<rparr>"

lemma example_reads:
  "RecordReader_read RecordReader_new example_input = Inr (Some \<lparr>header = \<lparr>version = 1,
      rtype = RecordType.StdOut, request_id = 1, content_length = 2, padding_length = 0\<rparr>,
      body = Body.StdOut [104, 105]\<rparr>, RecordReader_new, [1, 6])"
  "RecordReader_read RecordReader_new [1, 6] = Inr (None, RecordReader_new, [1, 6])"
  by (simp_all add: RecordReader_read_def RecordReader_new_def Header_parse_8 example_input_def
      RecordType_try_from_def be16_def RecordReader_with_header_def RecordReader_cut_def slice_def
      advance_def Let_def Record_parse_body_def)

lemma example_parse:
  assumes "InnerConnection_distribute True \<lparr>header = \<lparr>version = 1, rtype = RecordType.StdOut,
      request_id = 1, content_length = 2, padding_length = 0\<rparr>, body = Body.StdOut [104, 105]\<rparr>
      (example_connection q\<lparr>io_rx := example_input\<rparr>) =
    Inr (example_after q' w\<lparr>io_rx := example_input\<rparr>)"
  shows "InnerConnection_poll_resp True 4 (FillData example_input) (example_connection q) =
    Inr (Ready (Some (Inr ())), example_after q' w)"
proof -
  let ?c = "example_connection q\<lparr>io_rx := example_input\<rparr>"
  have "InnerConnection_parse_and_distribute True example_input ?c =
      InnerConnection_parse_and_distribute True [1, 6] (example_after q' w\<lparr>io_rx := example_input\<rparr>)"
    by (rule parse_read) (use assms example_reads(1) in \<open>simp_all add: example_connection_def\<close>)
  also have "\<dots> = Inr ([1, 6], example_after q' w\<lparr>io_rx := example_input\<rparr>)"
    by (subst parse_done [where p = RecordReader_new and ?data1.0 = "[1, 6]"])
      (simp_all add: example_after_def example_reads(2))
  finally show ?thesis
    by (simp add: InnerConnection_poll_resp_def register_io_def poll_fill_buf_def example_connection_def
      example_input_def example_after_def)
qed

lemma example_poll:
  "InnerConnection_poll_resp True 4 (FillData example_input) (example_connection example_waiting) =
    Inr (Ready (Some (Inr ())), example_after (example_waiting\<lparr>rq_buf := [[104, 105]], rq_waker := None\<rparr>) [9])"
  "InnerConnection_poll_resp True 4 (FillData example_input) (example_connection example_aborted) =
    Inr (Ready (Some (Inr ())), example_after example_aborted [])"
  by (rule example_parse; simp add: InnerConnection_distribute_def Record_get_request_id_def Let_def
      example_connection_def example_after_def example_waiting_def example_aborted_def
      Slab_get_def Slab_put_def wake_def)+

lemma example_slot [simp]:
  "conn_slot (example_connection q) 0 = Some q" "conn_slot (example_after q w) 0 = Some q"
  "io_rx (example_connection q) = []" "io_rx (example_after q w) = [1, 6]"
  "fcgi_parser (example_connection q) = RecordReader_new"
  "fcgi_parser (example_after q w) = RecordReader_new"
  by (simp_all add: example_connection_def example_after_def conn_slot_def Slab_get_def)

lemma example_ok: "request_ok q \<Longrightarrow> conn_ok 1 (example_connection q)"
  by (auto simp: conn_ok_def example_connection_def Slab_wf_def slab.all_values_def Slab_get_def
    split: if_splits)

theorem poll_resp_delivers_witness:
  "\<exists>used es q'. example_input = used @ [1, 6] \<and> used \<noteq> [] \<and>
    wire_scan (reader_abs RecordReader_new) used = (reader_abs RecordReader_new, es) \<and>
    example_waiting\<lparr>rq_buf := [[104, 105]], rq_waker := None\<rparr> = q' \<and>
    concat (rq_buf q') = concat (rq_buf example_waiting) @ stdout_bytes 0 (stream_content es) \<and>
    (stdout_bytes 0 (stream_content es) \<noteq> [] \<longrightarrow> rq_waker q' = None \<and> 9 \<in> set [9])"
  using poll_resp_delivers [OF example_poll(1) _ example_slot(1)]
  by (simp add: poll_fill_buf_def) (auto simp: example_waiting_def)

text \<open>
  C15. One poll of a response body, in terms of its request as the read has left it: the oldest
  fragment is handed out; or the end, when nothing is buffered and the server has ended the request;
  or the task is registered to be woken. The slot and its permit are given back in the same poll
  that hands out the last fragment of an ended request.
\<close>

theorem FCGIBody_poll_frame_spec:
  assumes "\<not> fb_done b" "conn_ok n con" "InnerConnection_poll_resp dbg task fill con = Inr (st, con1)"
    and "conn_slot con1 (unat (fb_rid b)) = Some q"
  shows "\<exists>con'. FCGIBody_poll_frame dbg True task fill b con =
      Inr (case rq_buf q of d # rest \<Rightarrow> Ready (Some d) | [] \<Rightarrow> if rq_ended q then Ready None else Pending,
        b\<lparr>fb_done := frame_release b q\<rparr>, con') \<and> conn_ok n con' \<and>
    conn_slot con' = (conn_slot con1)(unat (fb_rid b) :=
      (if frame_release b q then None
       else Some (case rq_buf q of d # rest \<Rightarrow> q\<lparr>rq_buf := rest\<rparr>
         | [] \<Rightarrow> if rq_ended q then q else q\<lparr>rq_waker := Some task\<rparr>)))"
proof -
  have ok: "conn_ok n con1" using poll_resp_ok [OF assms(2,3)] by blast
  with assms(4) have "BufList_wf (rq_buf q)"
    by (auto simp: conn_slot_def request_ok_def dest: conn_ok_request)
  from poll_frame_ready [OF assms(1,3,4) this] ok show ?thesis
    by (auto simp: frame_result_def frame_request_def)
qed

theorem FCGIBody_poll_frame_spec_witness:
  "\<exists>con'. FCGIBody_poll_frame True True 4 (FillData example_input)
      \<lparr>fb_rid = 0, fb_done = False, fb_was_returned = True\<rparr> (example_connection example_waiting) =
      Inr (Ready (Some [104, 105]), \<lparr>fb_rid = 0, fb_done = False, fb_was_returned = True\<rparr>, con') \<and>
    conn_ok 1 con' \<and> conn_slot con' 0 = Some (example_waiting\<lparr>rq_buf := [], rq_waker := None\<rparr>)"
proof -
  have "conn_ok 1 (example_connection example_waiting)"
    by (rule example_ok) (simp add: request_ok_def example_waiting_def)
  from FCGIBody_poll_frame_spec [OF _ this example_poll(1),
      of "\<lparr>fb_rid = 0, fb_done = False, fb_was_returned = True\<rparr>"]
  show ?thesis by (auto simp: frame_release_def example_waiting_def)
qed

text \<open>
  C28. A request whose body was dropped gets nothing any more; it leaves the slab, and its permit is
  free again, exactly when the server ends it.
\<close>

theorem poll_resp_aborted:
  assumes "InnerConnection_poll_resp dbg task fill c = Inr (Ready (Some (Inr ())), c')"
    and "poll_fill_buf fill (io_rx c) = FillData data"
    and "conn_slot c k = Some q" "rq_aborted q"
  shows "\<exists>rs. RecordReader_drain (fcgi_parser c) data = Inr (rs, fcgi_parser c', io_rx c') \<and>
    conn_slot c' k = (if \<exists>r \<in> set rs. for_request k r \<and> (\<exists>e. body r = Body.EndRequest e) then None else Some q)"
  using assms(1)
proof (cases rule: poll_resp_cases)
  case (data rbuf rest c1)
  from data(2) assms(2) have rbuf: "rbuf = data" by simp
  from parse_InrD [OF data(3)] obtain rs where
    "RecordReader_drain (fcgi_parser c) data = Inr (rs, fcgi_parser c1, rest)"
    "conn_slot c1 = (\<lambda>k. run_slot k rs (conn_slot c k))" by (auto simp: rbuf)
  with data(5) run_slot_aborted [OF assms(4), of k rs] assms(3) show ?thesis by (auto simp: ends_def)
qed simp_all

theorem poll_resp_aborted_witness:
  "\<exists>rs. RecordReader_drain RecordReader_new example_input = Inr (rs, RecordReader_new, [1, 6]) \<and>
    Some example_aborted = (if \<exists>r \<in> set rs. for_request 0 r \<and> (\<exists>e. body r = Body.EndRequest e)
      then None else Some example_aborted)"
proof -
  have "rq_aborted example_aborted" by (simp add: example_aborted_def)
  from poll_resp_aborted [OF example_poll(2) _ example_slot(1) this] show ?thesis
    by (simp add: poll_fill_buf_def)
qed

lemma short_read_closes:
  assumes "current (fcgi_parser c) = None" "poll_fill_buf fill (io_rx c) = FillData data"
    and "length data < 8"
  shows "\<exists>c'. InnerConnection_poll_resp dbg task fill c = Inr (Ready None, c') \<and> io_rx c' = data \<and>
    fcgi_parser c' = fcgi_parser c \<and>
    (\<forall>k q. conn_slot c k = Some q \<and> \<not> rq_aborted q \<longrightarrow>
      conn_slot c' k = Some (q\<lparr>rq_waker := None, rq_ended := True\<rparr>))"
proof (cases "data = []")
  case True
  with assms show ?thesis
    by (auto simp: InnerConnection_poll_resp_def notify_slot notify_request_def Let_def)
next
  case False
  have "RecordReader_read (fcgi_parser c) data = Inr (None, fcgi_parser c, data)"
    using assms(1,3) by (cases "fcgi_parser c") (simp add: RecordReader_read_def)
  with parse_done [of "register_io task fill c\<lparr>io_rx := data\<rparr>" data "fcgi_parser c" data dbg]
  have "InnerConnection_parse_and_distribute dbg data (register_io task fill c\<lparr>io_rx := data\<rparr>) =
      Inr (data, register_io task fill c\<lparr>io_rx := data\<rparr>)"
    by simp
  with assms(2) False show ?thesis
    by (auto simp: InnerConnection_poll_resp_def notify_slot notify_request_def Let_def)
qed

text \<open>
  C34. A read that brings less than a record header is taken for the end of the connection: with no
  record pending and fewer than eight bytes there (not only with none), nothing is consumed, every running request that
  was not aborted is ended, and the poll reports a closed connection, although the rest of the
  header may follow. It cannot be read any more: while the few bytes are in the buffer the stream is
  not read again, so that every later poll, whatever the stream has by then, reports the same.
\<close>

theorem poll_resp_short_read_closes:
  assumes "current (fcgi_parser c) = None" "poll_fill_buf fill (io_rx c) = FillData data"
    and "length data < 8"
  shows "\<exists>c'. InnerConnection_poll_resp dbg task fill c = Inr (Ready None, c') \<and> io_rx c' = data \<and>
    (\<forall>k q. conn_slot c k = Some q \<and> \<not> rq_aborted q \<longrightarrow>
      conn_slot c' k = Some (q\<lparr>rq_waker := None, rq_ended := True\<rparr>)) \<and>
    (data \<noteq> [] \<longrightarrow> (\<forall>dbg' task' fill'. \<exists>c''.
      InnerConnection_poll_resp dbg' task' fill' c' = Inr (Ready None, c'') \<and> io_rx c'' = data))"
proof -
  from short_read_closes [OF assms, of dbg task] obtain c' where
    1: "InnerConnection_poll_resp dbg task fill c = Inr (Ready None, c')" "io_rx c' = data"
      "fcgi_parser c' = fcgi_parser c"
      "\<forall>k q. conn_slot c k = Some q \<and> \<not> rq_aborted q \<longrightarrow>
        conn_slot c' k = Some (q\<lparr>rq_waker := None, rq_ended := True\<rparr>)" by blast
  have "\<exists>c''. InnerConnection_poll_resp dbg' task' fill' c' = Inr (Ready None, c'') \<and> io_rx c'' = data"
    if "data \<noteq> []" for dbg' task' fill'
    using short_read_closes [of c' fill' data dbg' task'] assms(1,3) 1(2,3) that
    by (auto simp: poll_fill_buf_def)
  with 1 show ?thesis by blast
qed

theorem poll_resp_short_read_closes_witness:
  "\<exists>c'. InnerConnection_poll_resp True 4 (FillData [1, 6, 0, 1]) (example_connection example_waiting) =
      Inr (Ready None, c') \<and> io_rx c' = [1, 6, 0, 1] \<and>
    conn_slot c' 0 = Some (example_waiting\<lparr>rq_waker := None, rq_ended := True\<rparr>) \<and>
    (\<exists>c''. InnerConnection_poll_resp True 4 (FillData [0, 1, 0, 0]) c' = Inr (Ready None, c''))"
proof -
  have "\<not> rq_aborted example_waiting" by (simp add: example_waiting_def)
  moreover have "current (fcgi_parser (example_connection example_waiting)) = None"
    "poll_fill_buf (FillData [1, 6, 0, 1]) (io_rx (example_connection example_waiting)) = FillData [1, 6, 0, 1]"
    "length ([1, 6, 0, 1] :: bytes) < 8"
    by (simp_all add: poll_fill_buf_def RecordReader_new_def)
  note poll_resp_short_read_closes [OF this, of True 4]
  ultimately show ?thesis using example_slot(1) [of example_waiting] by fastforce
qed

text \<open>
  C30. A wake-up can be lost: a poll of a response body reads the stream once and does not poll it
  again. When what it read is of no interest to any request (standard error, a management record, the
  beginning of a record), it stores its waker with the request and is pending, but the stream, whose
  waker was used up by the read, will wake nobody when the response comes.
\<close>

theorem silent_read_strands:
  assumes "\<not> fb_done b" "io_rx con = []" "conn_slot con (unat (fb_rid b)) = Some q"
    and "rq_buf q = []" "\<not> rq_ended q"
    and "RecordReader_drain (fcgi_parser con) data = Inr (rs, p, rest)" "list_all silent rs"
    and "length rest < length data"
  shows "\<exists>con'. FCGIBody_poll_frame dbg True task (FillData data) b con = Inr (Pending, b, con') \<and>
    io_waker con' = None \<and> woken con' = woken con @ (case io_waker con of None \<Rightarrow> [] | Some t \<Rightarrow> [t]) \<and>
    conn_slot con' = (conn_slot con)(unat (fb_rid b) \<mapsto> q\<lparr>rq_waker := Some task\<rparr>)"
proof -
  let ?c = "register_io task (FillData data) con\<lparr>io_rx := data\<rparr>" and ?k = "unat (fb_rid b)"
  have get: "Slab_get (running_requests con) ?k = Some q" using assms(3) by (simp add: conn_slot_def)
  have "InnerConnection_parse_and_distribute dbg data ?c = Inr (rest, ?c\<lparr>fcgi_parser := p\<rparr>)"
    by (rule parse_silent [OF _ assms(7)]) (simp add: assms(6))
  moreover have "data \<noteq> []" using assms(8) by auto
  ultimately have r: "InnerConnection_poll_resp dbg task (FillData data) con =
      Inr (Ready (Some (Inr ())), ?c\<lparr>fcgi_parser := p, io_rx := drop (length data - length rest) data\<rparr>)"
    using assms(2,8) by (simp add: InnerConnection_poll_resp_def poll_fill_buf_def Let_def)
  show ?thesis
    using assms(1,2,4,5) get
    by (simp add: FCGIBody_poll_frame_def r BufList_remaining_def register_io_def conn_slot_def slab_simps)
qed

text \<open>The witness: a record of standard error is all that the read brings.\<close>

lemma example_stderr:
  "RecordReader_drain RecordReader_new [1, 7, 0, 1, 0, 1, 0, 0, 33] = Inr ([\<lparr>header = \<lparr>version = 1,
      rtype = RecordType.StdErr, request_id = 1, content_length = 1, padding_length = 0\<rparr>,
      body = Body.StdErr [33]\<rparr>], RecordReader_new, [])"
proof -
  have 1: "RecordReader_read RecordReader_new [1, 7, 0, 1, 0, 1, 0, 0, 33] = Inr (Some \<lparr>header = \<lparr>version = 1,
      rtype = RecordType.StdErr, request_id = 1, content_length = 1, padding_length = 0\<rparr>,
      body = Body.StdErr [33]\<rparr>, RecordReader_new, [])"
    and 2: "RecordReader_read RecordReader_new [] = Inr (None, RecordReader_new, [])"
    by (simp_all add: RecordReader_read_def RecordReader_new_def Header_parse_8
      RecordType_try_from_def be16_def RecordReader_with_header_def RecordReader_cut_def slice_def
      advance_def Let_def Record_parse_body_def)
  show ?thesis using drain_Some [OF 1] drain_None [OF 2] by simp
qed

theorem silent_read_strands_witness:
  "\<exists>con'. FCGIBody_poll_frame True True 4 (FillData [1, 7, 0, 1, 0, 1, 0, 0, 33])
      \<lparr>fb_rid = 0, fb_done = False, fb_was_returned = False\<rparr> (example_connection example_waiting) =
      Inr (Pending, \<lparr>fb_rid = 0, fb_done = False, fb_was_returned = False\<rparr>, con') \<and>
    io_waker con' = None \<and> woken con' = [] \<and>
    conn_slot con' = (conn_slot (example_connection example_waiting))(0 \<mapsto> example_waiting\<lparr>rq_waker := Some 4\<rparr>)"
proof -
  let ?b = "\<lparr>fb_rid = 0, fb_done = False, fb_was_returned = False\<rparr>" and ?c = "example_connection example_waiting"
  have "RecordReader_drain (fcgi_parser ?c) [1, 7, 0, 1, 0, 1, 0, 0, 33] = Inr ([\<lparr>header = \<lparr>version = 1,
      rtype = RecordType.StdErr, request_id = 1, content_length = 1, padding_length = 0\<rparr>,
      body = Body.StdErr [33]\<rparr>], RecordReader_new, [])" by (simp add: example_stderr)
  from silent_read_strands [OF _ _ _ _ _ this, of ?b example_waiting True 4] show ?thesis
    by (simp add: example_waiting_def silent_def) (simp add: example_connection_def)
qed

text \<open>
  A poll of a response body that finds the mutex taken registers its task nowhere: it is
  pending, but neither the connection nor the request knows about it.
\<close>

lemma FCGIBody_poll_contended:
  assumes "\<not> fb_done b"
  shows "FCGIBody_poll_frame dbg False task fill b con = Inr (Pending, b, con)"
  using assms by (rule poll_frame_idle(2))

lemma FCGIBody_poll_contended_example:
  "FCGIBody_poll_frame True False 4 FillPending \<lparr>fb_rid = 0, fb_done = False, fb_was_returned = True\<rparr> (example_connection example_waiting) =
    Inr (Pending, \<lparr>fb_rid = 0, fb_done = False, fb_was_returned = True\<rparr>, example_connection example_waiting)"
  by (rule FCGIBody_poll_contended) simp

end
