(* ===== verification/Connection_System.thy ===== *)
theory Connection_System
  imports Connection_Inner
begin

text \<open>
  \<open>src/client/connection.rs\<close>: all requests on one connection together.

  A state is the shared connection and the clients on it, in any phase: the client has a permit and
  waits for the mutex, the head of the request is being sent, the response is awaited or read
  (\<open>response\<close>), or the client is gone. A step is one
  operation under the mutex, of any client and with any outcome of the read of the stream, so all
  interleavings of the tasks are runs of this relation. What the clients write (\<open>wrote\<close>) does not
  matter for their slots.
\<close>

section \<open>The step relation\<close>

datatype client = Queued | Starting u16 | Responding response | Gone

type_synonym system = "InnerConnection \<times> client list"

fun response_body :: "response \<Rightarrow> FCGIBody" where
  "response_body (Reading b buf m) = b"
| "response_body (PuttingBack b d m) = b"
| "response_body (Returned b st m) = b"

inductive system_step ::
  "bool \<Rightarrow> (FCGIRequest slots \<Rightarrow> nat) \<Rightarrow> (bytes \<Rightarrow> HeaderMap \<Rightarrow> panic + ParseResult \<times> HeaderMap) \<Rightarrow>
     (bytes \<Rightarrow> u16 option) \<Rightarrow> system \<Rightarrow> system \<Rightarrow> bool"
  for dbg alloc prs status_code where
  queued: "Connection_acquire c = Ready c' \<Longrightarrow>
    system_step dbg alloc prs status_code (c, cs) (c', cs @ [Queued])"
| unqueued: "system_step dbg alloc prs status_code (c, cs @ Queued # ds) (c\<lparr>sem := Suc (sem c)\<rparr>, cs @ Gone # ds)"
| admitted: "Connection_admit dbg alloc task fill reconnect c = Inr (Inr rid, c') \<Longrightarrow>
    system_step dbg alloc prs status_code (c, cs @ Queued # ds) (c', cs @ Starting rid # ds)"
| refused: "Connection_admit dbg alloc task fill reconnect c = Inr (Inl e, c') \<Longrightarrow>
    system_step dbg alloc prs status_code (c, cs @ Queued # ds) (c', cs @ Gone # ds)"
| head_sent: "system_step dbg alloc prs status_code (c, cs @ Starting rid # ds)
    (c, cs @ Responding (create_response_start rid) # ds)"
| head_failed: "system_step dbg alloc prs status_code (c, cs @ Starting rid # ds) (c, cs @ Gone # ds)"
| respond: "create_response_poll prs status_code dbg lock task fill r c = Inr (r', c') \<Longrightarrow>
    system_step dbg alloc prs status_code (c, cs @ Responding r # ds) (c', cs @ Responding r' # ds)"
| read_body: "FCGIBody_poll_frame dbg lock task fill b c = Inr (p, b', c') \<Longrightarrow>
    system_step dbg alloc prs status_code (c, cs @ Responding (Returned b st m) # ds)
      (c', cs @ Responding (Returned b' st m) # ds)"
| dropped: "system_step dbg alloc prs status_code (c, cs @ Responding r # ds)
    (FCGIBody_drop lock (response_body r) c, cs @ Gone # ds)"
| wrote: "system_step dbg alloc prs status_code (c, cs) (c\<lparr>io_tx := t\<rparr>, cs)"
| closed: "Connection_close shutdown c = (res, c') \<Longrightarrow>
    system_step dbg alloc prs status_code (c, cs) (c', cs)"

inductive reachable ::
  "bool \<Rightarrow> (FCGIRequest slots \<Rightarrow> nat) \<Rightarrow> (bytes \<Rightarrow> HeaderMap \<Rightarrow> panic + ParseResult \<times> HeaderMap) \<Rightarrow>
     (bytes \<Rightarrow> u16 option) \<Rightarrow> u16 \<Rightarrow> system \<Rightarrow> bool"
  for dbg alloc prs status_code max_req where
  start: "reachable dbg alloc prs status_code max_req (Connection_new max_req, [])"
| step: "reachable dbg alloc prs status_code max_req s \<Longrightarrow> system_step dbg alloc prs status_code s s' \<Longrightarrow>
    reachable dbg alloc prs status_code max_req s'"

text \<open>What is relied on of the slab: it hands out a vacant key, and no key beyond its size.\<close>

definition alloc_ok :: "(FCGIRequest slots \<Rightarrow> nat) \<Rightarrow> bool" where
  "alloc_ok alloc \<longleftrightarrow> (\<forall>s. length s < 65535 \<longrightarrow> Slab_get s (alloc s) = None \<and> alloc s < 65535)"

section \<open>The invariant\<close>

text \<open>
  \<open>holds c b\<close>: the request of the body \<open>b\<close> is in the slab and was not aborted. That is so for every
  body that is not done: only the body itself gives its slot back.
\<close>

definition slot_running :: "InnerConnection \<Rightarrow> nat \<Rightarrow> bool" where
  "slot_running c k \<longleftrightarrow> (\<exists>q. conn_slot c k = Some q \<and> \<not> rq_aborted q)"

fun client_keys :: "client \<Rightarrow> nat list" where
  "client_keys Queued = []"
| "client_keys (Starting rid) = [unat (rid - 1)]"
| "client_keys (Responding r) = (if fb_done (response_body r) then [] else [unat (fb_rid (response_body r))])"
| "client_keys Gone = []"

fun response_ok :: "InnerConnection \<Rightarrow> response \<Rightarrow> bool" where
  "response_ok c (Reading b buf m) \<longleftrightarrow> \<not> fb_done b \<and> \<not> fb_was_returned b \<and> slot_running c (unat (fb_rid b))"
| "response_ok c (PuttingBack b d m) \<longleftrightarrow> \<not> fb_done b \<and> \<not> fb_was_returned b \<and> d \<noteq> [] \<and>
     (\<exists>q. conn_slot c (unat (fb_rid b)) = Some q \<and> \<not> rq_aborted q \<and> rq_waker q = None)"
| "response_ok c (Returned b st m) \<longleftrightarrow> fb_was_returned b \<and> (\<not> fb_done b \<longrightarrow> slot_running c (unat (fb_rid b)))"

fun client_ok :: "InnerConnection \<Rightarrow> client \<Rightarrow> bool" where
  "client_ok c Queued \<longleftrightarrow> True"
| "client_ok c (Starting rid) \<longleftrightarrow> rid \<noteq> 0 \<and> slot_running c (unat (rid - 1))"
| "client_ok c (Responding r) \<longleftrightarrow> response_ok c r"
| "client_ok c Gone \<longleftrightarrow> True"

text \<open>\<open>queued cs\<close>: the clients that hold a permit but no slot yet.\<close>

definition queued :: "client list \<Rightarrow> nat" where
  "queued cs = length (filter (\<lambda>cl. cl = Queued) cs)"

lemma queued_simps [simp]:
  "queued [] = 0" "queued (cl # cs) = (if cl = Queued then Suc (queued cs) else queued cs)"
  "queued (cs @ ds) = queued cs + queued ds"
  by (simp_all add: queued_def)

definition system_ok :: "nat \<Rightarrow> system \<Rightarrow> bool" where
  "system_ok n s \<longleftrightarrow> (case s of (c, cs) \<Rightarrow>
     (\<exists>m. conn_ok m c \<and> m + queued cs = n) \<and> (\<forall>k. conn_slot c k \<noteq> None \<longrightarrow> k < 65535) \<and>
     list_all (client_ok c) cs \<and> distinct (concat (map client_keys cs)))"

text \<open>A slot that nobody owns any more.\<close>

definition orphan :: "nat \<Rightarrow> system \<Rightarrow> bool" where
  "orphan k s \<longleftrightarrow> (case s of (c, cs) \<Rightarrow> slot_running c k \<and> k \<notin> set (concat (map client_keys cs)))"

lemma slot_running_kept:
  "slot_running c k \<Longrightarrow> slot_kept (conn_slot c k) (conn_slot c' k) \<Longrightarrow> slot_running c' k"
  by (auto simp: slot_running_def slot_kept_def request_kept_def)

lemma client_ok_kept:
  assumes "client_ok c cl" "\<forall>k \<in> set (client_keys cl). slot_kept (conn_slot c k) (conn_slot c' k)"
  shows "client_ok c' cl"
proof (cases cl)
  case (Responding r)
  show ?thesis
  proof (cases r)
    case (PuttingBack b d m)
    with Responding assms show ?thesis by (fastforce simp: slot_kept_def request_kept_def)
  qed (use assms Responding in \<open>auto intro: slot_running_kept\<close>)
qed (use assms in \<open>auto intro: slot_running_kept\<close>)

lemma clients_ok_kept:
  "list_all (client_ok c) cs \<Longrightarrow>
     \<forall>k \<in> set (concat (map client_keys cs)). slot_kept (conn_slot c k) (conn_slot c' k) \<Longrightarrow>
     list_all (client_ok c') cs"
  by (auto simp: list_all_iff intro: client_ok_kept)

lemma client_running: "client_ok c cl \<Longrightarrow> k \<in> set (client_keys cl) \<Longrightarrow> slot_running c k"
proof (cases cl)
  case (Responding r)
  then show "client_ok c cl \<Longrightarrow> k \<in> set (client_keys cl) \<Longrightarrow> slot_running c k"
    by (cases r) (auto simp: slot_running_def split: if_splits)
qed simp_all

text \<open>
  One client moves, the slots of the others are kept. It keeps its key or gives it up, or gets one
  that was not in use.
\<close>

lemma system_ok_move:
  assumes "system_ok n (c, cs @ cl # ds)" "conn_ok m c'" "m + queued (cs @ cl' # ds) = n"
    and "\<forall>k. conn_slot c' k \<noteq> None \<longrightarrow> k < 65535"
    and kept: "\<And>k. k \<notin> set (client_keys cl) \<Longrightarrow> slot_running c k \<Longrightarrow> slot_kept (conn_slot c k) (conn_slot c' k)"
    and "client_ok c' cl'"
    and "client_keys cl' = client_keys cl \<or> client_keys cl' = [] \<or> (\<exists>k. client_keys cl' = [k] \<and> \<not> slot_running c k)"
  shows "system_ok n (c', cs @ cl' # ds) \<and> (\<forall>k. orphan k (c, cs @ cl # ds) \<longrightarrow> orphan k (c', cs @ cl' # ds))"
proof -
  have d: "distinct (concat (map client_keys cs) @ client_keys cl @ concat (map client_keys ds))"
    and l: "list_all (client_ok c) cs" "list_all (client_ok c) ds"
    using assms(1) by (simp_all add: system_ok_def)
  have run: "\<forall>k \<in> set (concat (map client_keys cs)) \<union> set (concat (map client_keys ds)). slot_running c k"
    using l by (auto simp: list_all_iff intro: client_running)
  with d have "list_all (client_ok c') cs" "list_all (client_ok c') ds"
    by (auto intro!: clients_ok_kept [OF l(1)] clients_ok_kept [OF l(2)] kept)
  moreover have "distinct (concat (map client_keys (cs @ cl' # ds)))"
    using assms(7) d run by (elim disjE exE) (simp_all, blast+)
  moreover have "orphan k (c', cs @ cl' # ds)" if "orphan k (c, cs @ cl # ds)" for k
    using that assms(7) kept [of k] by (auto simp: orphan_def intro: slot_running_kept)
  ultimately show ?thesis using assms(2-4,6) by (auto simp: system_ok_def)
qed


section \<open>Every step keeps it\<close>

lemma poll_frame_running:
  assumes "conn_ok n c" "FCGIBody_poll_frame dbg lock task fill b c = Inr (p, b', c')"
    and "\<not> fb_done b" "slot_running c (unat (fb_rid b))"
  shows "fb_rid b' = fb_rid b" "fb_was_returned b' = fb_was_returned b"
    "\<not> fb_done b' \<longrightarrow> slot_running c' (unat (fb_rid b))"
    "\<not> fb_was_returned b \<longrightarrow> \<not> fb_done b'"
    "p = Ready (Some d) \<and> \<not> fb_done b' \<Longrightarrow> \<exists>q. conn_slot c' (unat (fb_rid b)) = Some q \<and> \<not> rq_aborted q \<and> rq_waker q = None"
  using poll_frame_ok [OF assms(1,2)] assms(3,4) by (auto simp: slot_running_def)

lemma fragment_ok:
  assumes "create_response_fragment prs status_code b buf m d = Inr r'"
    and "\<not> fb_done b" "\<not> fb_was_returned b"
    and "\<exists>q. conn_slot c (unat (fb_rid b)) = Some q \<and> \<not> rq_aborted q \<and> rq_waker q = None"
  shows "response_ok c r' \<and> client_keys (Responding r') = [unat (fb_rid b)]"
proof -
  from assms(1) obtain res m' where
    "(case res of
        ParseResult.Ok bodydata \<Rightarrow>
          if bodydata \<noteq> [] then Inr (PuttingBack b bodydata m')
          else Inr (response_return b (response_status status_code m') m')
      | ParseResult.Pending \<Rightarrow> Inr (Reading b (Some (case buf of Some left \<Rightarrow> left @ d | None \<Rightarrow> d)) m')
      | ParseResult.Err \<Rightarrow> Inr (response_return b 500 m')) = (Inr r' :: panic + response)"
    by (auto simp: create_response_fragment_def Let_def rbind_Inr_iff)
  with assms(2-4) show ?thesis
    by (cases res) (auto simp: response_return_def slot_running_def split: if_splits)
qed

lemma create_response_poll_ok:
  assumes "conn_ok n c" "response_ok c r"
    and "create_response_poll prs status_code dbg lock task fill r c = Inr (r', c')"
  shows "conn_ok n c' \<and> dom (conn_slot c') \<subseteq> dom (conn_slot c) \<and>
    (\<forall>k. k \<notin> set (client_keys (Responding r)) \<longrightarrow> slot_kept (conn_slot c k) (conn_slot c' k)) \<and>
    response_ok c' r' \<and> client_keys (Responding r') = client_keys (Responding r)"
proof (cases r)
  case (Reading b buf m)
  with assms(3) obtain p b' c1 where
    f: "FCGIBody_poll_frame dbg lock task fill b c = Inr (p, b', c1)"
    and r': "(case p of Pending \<Rightarrow> Inr (Reading b' buf m, c1)
       | Ready None \<Rightarrow> Inr (response_return b' 200 m, c1)
       | Ready (Some d) \<Rightarrow> rbind (create_response_fragment prs status_code b' buf m d) (\<lambda>self. Inr (self, c1)))
      = Inr (r', c')"
    by (auto simp: create_response_poll_def rbind_Inr_iff)
  have b: "\<not> fb_done b" "\<not> fb_was_returned b" "slot_running c (unat (fb_rid b))"
    using assms(2) Reading by simp_all
  note run = poll_frame_running [OF assms(1) f b(1,3)]
  have nd: "\<not> fb_done b'" using run(4) b(2) by simp
  have frame: "conn_ok n c1" "dom (conn_slot c1) \<subseteq> dom (conn_slot c)"
    "\<forall>k. k \<noteq> unat (fb_rid b) \<longrightarrow> slot_kept (conn_slot c k) (conn_slot c1 k)"
    using poll_frame_ok [OF assms(1) f] by blast+
  have res: "response_ok c' r' \<and> client_keys (Responding r') = [unat (fb_rid b)] \<and> c' = c1"
  proof (cases p)
    case Pending
    with r' run nd b show ?thesis by auto
  next
    case (Ready od)
    show ?thesis
    proof (cases od)
      case None
      with Ready r' run nd b show ?thesis by (auto simp: response_return_def)
    next
      case (Some d)
      with Ready r' have fr: "create_response_fragment prs status_code b' buf m d = Inr r'" "c' = c1"
        by (auto simp: rbind_Inr_iff)
      have "\<exists>q. conn_slot c1 (unat (fb_rid b')) = Some q \<and> \<not> rq_aborted q \<and> rq_waker q = None"
        using run(5) [of d] run(1) nd Ready Some by simp
      from fragment_ok [OF fr(1) nd _ this] run b fr(2) show ?thesis by simp
    qed
  qed
  have "client_keys (Responding r) = [unat (fb_rid b)]" using b Reading by simp
  with frame res show ?thesis by (auto simp del: client_keys.simps)
next
  case (PuttingBack b d m)
  show ?thesis
  proof (cases lock)
    case False
    with assms PuttingBack show ?thesis by (auto simp: create_response_poll_def)
  next
    case True
    let ?k = "unat (fb_rid b)"
    from assms(2) PuttingBack obtain q where q: "Slab_get (running_requests c) ?k = Some q"
      "\<not> rq_aborted q" "rq_waker q = None" and d: "d \<noteq> []" "\<not> fb_done b"
      by (auto simp: conn_slot_def)
    let ?c = "c\<lparr>running_requests := Slab_put ?k (q\<lparr>rq_buf := rq_buf q @ [d]\<rparr>) (running_requests c)\<rparr>"
    from assms(3) True PuttingBack q d have r':
      "r' = response_return b (response_status status_code m) m" "c' = ?c"
      by (auto simp: create_response_poll_def Slab_index_def)
    have "conn_ok n ?c"
      using conn_ok_request [OF assms(1) q(1)] q d
      by (intro conn_ok_put [OF assms(1) q(1)]) (simp add: request_ok_def)
    with r' q d PuttingBack show ?thesis
      by (auto simp: conn_slot_def slab_simps response_return_def slot_running_def)
  qed
next
  case (Returned b st m)
  with assms show ?thesis by (auto simp: create_response_poll_def)
qed

lemma request_id_key:
  assumes "k < 65535"
  shows "of_nat (k + 1) \<noteq> (0 :: u16)" "unat (of_nat (k + 1) - 1 :: u16) = k"
proof -
  have "unat (of_nat (k + 1) :: u16) = k + 1" using assms by (intro unat_of_nat_u16) simp
  then show "of_nat (k + 1) \<noteq> (0 :: u16)" by auto
  show "unat (of_nat (k + 1) - 1 :: u16) = k" using assms by simp
qed

text \<open>A request is inserted: \<open>d\<close> is the connection after the check (and the reconnect).\<close>

definition insert_request :: "(FCGIRequest slots \<Rightarrow> nat) \<Rightarrow> InnerConnection \<Rightarrow> InnerConnection" where
  "insert_request alloc d =
     d\<lparr>running_requests := Slab_insert (alloc (running_requests d)) FCGIRequest_new (running_requests d)\<rparr>"

lemma insert_request_ok:
  assumes "conn_ok m d" "m < 65535" "alloc_ok alloc"
    and kept: "\<And>k. slot_kept (conn_slot c k) (conn_slot d k)"
  defines "key \<equiv> alloc (running_requests d)"
  shows "conn_ok (Suc m) (insert_request alloc d)" "key < 65535" "\<not> slot_running c key"
    "slot_running (insert_request alloc d) key"
    "conn_slot (insert_request alloc d) = (conn_slot d)(key \<mapsto> FCGIRequest_new)"
    "slot_running c k \<Longrightarrow> slot_kept (conn_slot c k) (conn_slot (insert_request alloc d) k)"
proof -
  have "length (running_requests d) \<le> m" using assms(1) by (auto simp: conn_ok_def)
  with assms(2) have "length (running_requests d) < 65535" by linarith
  with assms(3) have key: "Slab_get (running_requests d) key = None" "key < 65535"
    by (simp_all add: alloc_ok_def key_def)
  show "key < 65535" by (rule key(2))
  have new: "request_ok FCGIRequest_new" by (simp add: request_ok_def FCGIRequest_new_def BufList_new_def)
  show "conn_ok (Suc m) (insert_request alloc d)"
    using assms(1) key(1) new
    by (auto simp: conn_ok_def insert_request_def key_def slab.wf_ins slab.size_ins slab.all_values_ins)
  show nr: "\<not> slot_running c key"
    using kept [of key] key(1) by (auto simp: slot_running_def slot_kept_def conn_slot_def)
  show slots: "conn_slot (insert_request alloc d) = (conn_slot d)(key \<mapsto> FCGIRequest_new)"
    by (simp add: insert_request_def key_def conn_slot_def slab.look_ins)
  then show "slot_running (insert_request alloc d) key"
    by (simp add: slot_running_def FCGIRequest_new_def)
  show "slot_kept (conn_slot c k) (conn_slot (insert_request alloc d) k)" if "slot_running c k"
    using that nr kept [of k] by (auto simp: slots)
qed

text \<open>The connection after the check (\<open>c1\<close>), and after the reconnect if there was one (\<open>d\<close>).\<close>

lemma admit_cases:
  assumes "Connection_admit dbg alloc task fill reconnect c = Inr (res, c')"
  obtains st c1 d where "InnerConnection_poll_resp dbg task fill c = Inr (st, c1)"
    "d = c1 \<or> d = InnerConnection_notify_everyone c1 \<or>
     d = InnerConnection_notify_everyone c1\<lparr>io_rx := [], io_tx := [], io_waker := None, fcgi_parser := RecordReader_new\<rparr>"
    "(\<exists>e. res = Inl e \<and> c' = d\<lparr>sem := Suc (sem d)\<rparr>) \<or>
     (res = Inr (of_nat (alloc (running_requests d) + 1)) \<and> c' = insert_request alloc d)"
proof -
  from assms obtain alive c1 where ca: "CheckAlive_poll dbg task fill c = Inr (alive, c1)"
    by (auto simp: Connection_admit_def rbind_Inr_iff)
  then obtain st where pr: "InnerConnection_poll_resp dbg task fill c = Inr (st, c1)"
    by (auto simp: CheckAlive_poll_def rbind_Inr_iff)
  let ?n = "InnerConnection_notify_everyone c1"
  let ?r = "?n\<lparr>io_rx := [], io_tx := [], io_waker := None, fcgi_parser := RecordReader_new\<rparr>"
  note eqs = assms [unfolded Connection_admit_def ca rbind.simps prod.case Let_def]
  show thesis
  proof (cases alive)
    case (Inl e)
    with eqs that [OF pr, of c1] show thesis by auto
  next
    case (Inr a)
    show thesis
    proof (cases a)
      case True
      with Inr eqs that [OF pr, of c1] show thesis by (simp add: insert_request_def)
    next
      case False
      with Inr eqs that [OF pr, of ?n] that [OF pr, of ?r] show thesis
        by (cases reconnect) (auto simp: insert_request_def)
    qed
  qed
qed

lemma admit_ok:
  assumes "conn_ok m c" "\<forall>k. conn_slot c k \<noteq> None \<longrightarrow> k < 65535" "alloc_ok alloc" "m < 65535"
    and "Connection_admit dbg alloc task fill reconnect c = Inr (res, c')"
  shows "conn_ok (Suc m) c' \<and> (\<forall>k. conn_slot c' k \<noteq> None \<longrightarrow> k < 65535) \<and>
    (\<forall>k. slot_running c k \<longrightarrow> slot_kept (conn_slot c k) (conn_slot c' k)) \<and>
    (\<forall>rid. res = Inr rid \<longrightarrow> rid \<noteq> 0 \<and> \<not> slot_running c (unat (rid - 1)) \<and> slot_running c' (unat (rid - 1)))"
  using assms(5)
proof (cases rule: admit_cases)
  case (1 st c1 d)
  have ok1: "conn_ok m c1" and kept1: "\<And>k. slot_kept (conn_slot c k) (conn_slot c1 k)"
    using poll_resp_ok [OF assms(1) 1(1)] by simp_all
  have ok: "conn_ok m d" using 1(2) ok1 by (auto simp: conn_ok_notify)
  have kept: "slot_kept (conn_slot c k) (conn_slot d k)" for k
    using 1(2) kept1 [of k] by (auto simp: notify_slot intro: slot_kept_trans [OF kept1 slot_kept_notify])
  have dom: "\<forall>k. conn_slot d k \<noteq> None \<longrightarrow> k < 65535"
    using kept assms(2) unfolding slot_kept_def by metis
  note ins = insert_request_ok [OF ok assms(4,3) kept]
  from 1(3) show ?thesis
  proof
    assume "\<exists>e. res = Inl e \<and> c' = d\<lparr>sem := Suc (sem d)\<rparr>"
    moreover have "conn_ok (Suc m) (d\<lparr>sem := Suc (sem d)\<rparr>)" using ok by (auto simp: conn_ok_def)
    ultimately show ?thesis using kept dom by auto
  next
    assume r: "res = Inr (of_nat (alloc (running_requests d) + 1)) \<and> c' = insert_request alloc d"
    show ?thesis using r ins(1-4,6) request_id_key [OF ins(2)] dom by (auto simp: ins(5))
  qed
qed


lemma client_keys_move:
  assumes "conn_ok n c" "response_ok c (Returned b st m)" "FCGIBody_poll_frame dbg lock task fill b c = Inr (p, b', c')"
  shows "response_ok c' (Returned b' st m) \<and>
    (client_keys (Responding (Returned b' st m)) = client_keys (Responding (Returned b st m)) \<or>
     client_keys (Responding (Returned b' st m)) = [])"
proof (cases "fb_done b")
  case True
  with assms(3) have "b' = b" "c' = c" by (simp_all add: FCGIBody_poll_frame_def)
  with assms(2) show ?thesis by simp
next
  case False
  with assms(2) have "slot_running c (unat (fb_rid b))" by simp
  from poll_frame_running [OF assms(1,3) False this] assms(2) False show ?thesis by auto
qed

lemma close_ok:
  "Connection_close shutdown c = (res, c') \<Longrightarrow> conn_ok n c \<Longrightarrow>
     conn_ok n c' \<and> (\<forall>k. slot_kept (conn_slot c k) (conn_slot c' k)) \<and> dom (conn_slot c') \<subseteq> dom (conn_slot c)"
  by (auto simp: Connection_close_def conn_ok_notify notify_slot slot_kept_notify split: sum.splits)

lemma dom_below: "dom (conn_slot c') \<subseteq> dom (conn_slot c) \<Longrightarrow> \<forall>k. conn_slot c k \<noteq> None \<longrightarrow> k < 65535 \<Longrightarrow>
    \<forall>k. conn_slot c' k \<noteq> None \<longrightarrow> k < 65535"
  by blast

lemma system_okE:
  assumes "system_ok n (c, cs)"
  obtains m where "conn_ok m c" "m + queued cs = n" "\<forall>k. conn_slot c k \<noteq> None \<longrightarrow> k < 65535"
    "list_all (client_ok c) cs" "distinct (concat (map client_keys cs))"
  using assms by (auto simp: system_ok_def)

lemma acquire_ok:
  assumes "Connection_acquire c = Ready c'" "conn_ok m c"
  shows "conn_ok (m - 1) c'" "0 < m" "conn_slot c' = conn_slot c"
  using assms by (auto simp: Connection_acquire_def conn_ok_def conn_slot_def split: if_splits)

lemma system_step_ok:
  assumes "system_step dbg alloc prs status_code s s'" "system_ok n s" "alloc_ok alloc" "n \<le> 65535"
  shows "system_ok n s' \<and> (\<forall>k. orphan k s \<longrightarrow> orphan k s')"
  using assms(1,2)
proof (induction rule: system_step.induct)
  case (queued c c' cs)
  from queued(2) obtain m where m: "conn_ok m c" "m + queued cs = n" "\<forall>k. conn_slot c k \<noteq> None \<longrightarrow> k < 65535"
    "list_all (client_ok c) cs" "distinct (concat (map client_keys cs))" by (rule system_okE)
  note a = acquire_ok [OF queued(1) m(1)]
  have "list_all (client_ok c') cs" by (rule clients_ok_kept [OF m(4)]) (simp add: a(3))
  then show ?case using a m by (auto simp: system_ok_def orphan_def slot_running_def)
next
  case (unqueued c cs ds)
  from unqueued obtain m where m: "conn_ok m c" "m + queued (cs @ Queued # ds) = n"
    "\<forall>k. conn_slot c k \<noteq> None \<longrightarrow> k < 65535" by (rule system_okE)
  then have "conn_ok (Suc m) (c\<lparr>sem := Suc (sem c)\<rparr>)" by (auto simp: conn_ok_def)
  from system_ok_move [OF unqueued this] m show ?case by (simp add: conn_slot_def)
next
  case (admitted task fill reconnect c rid c' cs ds)
  from admitted(2) obtain m where m: "conn_ok m c" "m + queued (cs @ Queued # ds) = n"
    "\<forall>k. conn_slot c k \<noteq> None \<longrightarrow> k < 65535" by (rule system_okE)
  with assms(4) have "m < 65535" by simp
  note a = admit_ok [OF m(1,3) assms(3) this admitted(1)]
  show ?case using a m by (intro system_ok_move [OF admitted(2)]) auto
next
  case (refused task fill reconnect c e c' cs ds)
  from refused(2) obtain m where m: "conn_ok m c" "m + queued (cs @ Queued # ds) = n"
    "\<forall>k. conn_slot c k \<noteq> None \<longrightarrow> k < 65535" by (rule system_okE)
  with assms(4) have "m < 65535" by simp
  note a = admit_ok [OF m(1,3) assms(3) this refused(1)]
  show ?case using a m by (intro system_ok_move [OF refused(2)]) auto
next
  case (head_sent c cs rid ds)
  from head_sent obtain m where m: "conn_ok m c" "m + queued (cs @ Starting rid # ds) = n"
    "\<forall>k. conn_slot c k \<noteq> None \<longrightarrow> k < 65535" by (rule system_okE)
  have "slot_running c (unat (rid - 1))" using head_sent by (simp add: system_ok_def)
  with m show ?case
    using system_ok_move [OF head_sent m(1), of "Responding (create_response_start rid)"]
    by (simp add: create_response_start_def)
next
  case (head_failed c cs rid ds)
  from head_failed obtain m where m: "conn_ok m c" "m + queued (cs @ Starting rid # ds) = n"
    "\<forall>k. conn_slot c k \<noteq> None \<longrightarrow> k < 65535" by (rule system_okE)
  then show ?case using system_ok_move [OF head_failed m(1), of Gone] by simp
next
  case (respond lock task fill r c r' c' cs ds)
  from respond(2) obtain m where m: "conn_ok m c" "m + queued (cs @ Responding r # ds) = n"
    "\<forall>k. conn_slot c k \<noteq> None \<longrightarrow> k < 65535" by (rule system_okE)
  have "response_ok c r" using respond(2) by (simp add: system_ok_def)
  note r = create_response_poll_ok [OF m(1) this respond(1)]
  show ?case using r m dom_below [OF _ m(3)] by (intro system_ok_move [OF respond(2)]) auto
next
  case (read_body lock task fill b c p b' c' cs st h ds)
  from read_body(2) obtain m where m: "conn_ok m c" "m + queued (cs @ Responding (Returned b st h) # ds) = n"
    "\<forall>k. conn_slot c k \<noteq> None \<longrightarrow> k < 65535" by (rule system_okE)
  have ok: "response_ok c (Returned b st h)" using read_body(2) by (simp add: system_ok_def)
  note f = poll_frame_ok [OF m(1) read_body(1)] and k = client_keys_move [OF m(1) ok read_body(1)]
  have kept: "slot_kept (conn_slot c k) (conn_slot c' k)"
    if "k \<notin> set (client_keys (Responding (Returned b st h)))" for k
    using that f read_body(1) by (cases "fb_done b") (auto simp: FCGIBody_poll_frame_def)
  have "\<forall>k. conn_slot c' k \<noteq> None \<longrightarrow> k < 65535" using f dom_below [OF _ m(3)] by blast
  with f k m kept show ?case by (intro system_ok_move [OF read_body(2), of m]) auto
next
  case (dropped c cs r ds lock)
  from dropped obtain m where m: "conn_ok m c" "m + queued (cs @ Responding r # ds) = n"
    "\<forall>k. conn_slot c k \<noteq> None \<longrightarrow> k < 65535" by (rule system_okE)
  note d = drop_ok [OF m(1), of lock "response_body r"]
  have "slot_kept (conn_slot c k) (conn_slot (FCGIBody_drop lock (response_body r) c) k)"
    if "k \<notin> set (client_keys (Responding r))" for k
    using that d by (cases "fb_done (response_body r)") (auto simp: FCGIBody_drop_def)
  moreover have "\<forall>k. conn_slot (FCGIBody_drop lock (response_body r) c) k \<noteq> None \<longrightarrow> k < 65535"
    using d m(3) by (metis domIff)
  ultimately show ?case using d m(1,2) by (intro system_ok_move [OF dropped, of m]) auto
next
  case (wrote c cs t)
  from wrote obtain m where m: "conn_ok m c" "m + queued cs = n" "\<forall>k. conn_slot c k \<noteq> None \<longrightarrow> k < 65535"
    "list_all (client_ok c) cs" "distinct (concat (map client_keys cs))" by (rule system_okE)
  then have "list_all (client_ok (c\<lparr>io_tx := t\<rparr>)) cs" by (intro clients_ok_kept [OF m(4)]) simp
  with m show ?case by (auto simp: system_ok_def orphan_def slot_running_def)
next
  case (closed shutdown c res c' cs)
  from closed(2) obtain m where m: "conn_ok m c" "m + queued cs = n" "\<forall>k. conn_slot c k \<noteq> None \<longrightarrow> k < 65535"
    "list_all (client_ok c) cs" "distinct (concat (map client_keys cs))" by (rule system_okE)
  note k = close_ok [OF closed(1) m(1)]
  then have "list_all (client_ok c') cs" by (intro clients_ok_kept [OF m(4)]) simp
  with k m dom_below [OF _ m(3)] show ?case
    by (auto simp: system_ok_def orphan_def intro: slot_running_kept)
qed

lemma reachable_ok:
  assumes "alloc_ok alloc"
  shows "reachable dbg alloc prs status_code max_req s \<Longrightarrow> system_ok (unat max_req) s"
proof (induction rule: reachable.induct)
  case start
  show ?case
    by (auto simp add: system_ok_def Connection_new_def conn_ok_def Slab_wf_def slab.all_values_def
      Slab_get_def conn_slot_def)
next
  case (step s s')
  have "unat max_req \<le> 65535" using unat_u16_lt [of max_req] by linarith
  from system_step_ok [OF step(2,3) assms this] show ?case by blast
qed

section \<open>No panics but the parser's\<close>

text \<open>The header bytes that the parser gets when the fragment \<open>d\<close> comes.\<close>

definition header_so_far :: "response \<Rightarrow> bytes \<Rightarrow> bytes" where
  "header_so_far r d = (case r of Reading b (Some left) m \<Rightarrow> left @ d | _ \<Rightarrow> d)"

definition name_panic ::
  "(nat \<Rightarrow> bytes \<Rightarrow> parse_status option) \<Rightarrow> (bytes \<Rightarrow> bytes option) \<Rightarrow> response \<Rightarrow> panic \<Rightarrow> bool" where
  "name_panic parse_headers from_bytes r e \<longleftrightarrow>
     e = InvalidHeaderName \<and> (\<exists>d. name_refused parse_headers from_bytes (header_so_far r d))"

lemma fragment_panic:
  assumes "parses_within parse_headers"
    and "create_response_fragment (parse parse_headers from_bytes) status_code b' buf m d = Inl e"
  shows "name_panic parse_headers from_bytes (Reading b buf m) e"
proof -
  let ?p = "parse parse_headers from_bytes (header_so_far (Reading b buf m) d) m"
  have p: "parse parse_headers from_bytes (case buf of Some left \<Rightarrow> left @ d | None \<Rightarrow> d) m = ?p"
    by (simp add: header_so_far_def split: option.split)
  have "?p = Inl e"
  proof (cases ?p)
    case (Inl e')
    with assms(2) show ?thesis by (simp add: create_response_fragment_def Let_def p)
  next
    case (Inr res)
    with assms(2) show ?thesis
      by (cases res; cases "fst res") (auto simp: create_response_fragment_def Let_def p split: if_splits)
  qed
  from parse_headers_panic [OF assms(1) this] show ?thesis by (auto simp: name_panic_def)
qed

lemma create_response_poll_panic:
  assumes "conn_ok n c" "response_ok c r" "parses_within parse_headers"
    and "create_response_poll (parse parse_headers from_bytes) status_code dbg lock task fill r c = Inl e"
  shows "(\<exists>data. poll_fill_buf fill (io_rx c) = FillData data \<and> RecordReader_drain (fcgi_parser c) data = Inl e) \<or>
    name_panic parse_headers from_bytes r e"
proof (cases r)
  case (Reading b buf m)
  have "FCGIBody_poll_frame dbg lock task fill b c = Inl e \<or>
      (\<exists>b' d. create_response_fragment (parse parse_headers from_bytes) status_code b' buf m d = Inl e)"
  proof (cases "FCGIBody_poll_frame dbg lock task fill b c")
    case (Inl e')
    with assms(4) Reading show ?thesis by (simp add: create_response_poll_def)
  next
    case (Inr res)
    obtain p b' c1 where res: "res = (p, b', c1)" by (cases res)
    with Inr assms(4) Reading obtain d where "p = Ready (Some d)"
      by (cases p; cases "case p of Ready od \<Rightarrow> od | Pending \<Rightarrow> None")
        (auto simp: create_response_poll_def)
    with Inr res assms(4) Reading show ?thesis
      by (auto simp: create_response_poll_def rbind_Inl_iff)
  qed
  then show ?thesis using poll_frame_panic [OF assms(1)] fragment_panic [OF assms(3)] Reading by blast
next
  case (PuttingBack b d m)
  with assms(2,4) show ?thesis
    by (auto simp: create_response_poll_def Slab_index_def conn_slot_def split: if_splits)
next
  case (Returned b st m)
  with assms(4) show ?thesis by (simp add: create_response_poll_def)
qed

text \<open>A slot that no client owns stays.\<close>

lemma orphans_kept:
  assumes "(system_step dbg alloc prs status_code)\<^sup>*\<^sup>* s s'" "system_ok n s" "orphan k s" "alloc_ok alloc" "n \<le> 65535"
  shows "system_ok n s' \<and> orphan k s'"
  using assms(1)
proof induction
  case base
  then show ?case using assms(2,3) by simp
next
  case (step s1 s2)
  from system_step_ok [OF step(2) _ assms(4,5)] step(3) show ?case by blast
qed

section \<open>Properties\<close>

text \<open>
  Accounting of the permits, in every reachable state and whatever the interleaving: every one
  of the \<open>max_req\<close> permits is free, or held by a client that waits for the mutex, or held by exactly
  one request in the slab. So the connection is ready for another request exactly when fewer than
  \<open>max_req\<close> requests wait or are in the slab.
\<close>

lemma permits_accounted:
  assumes "reachable dbg alloc prs status_code max_req (c, cs)" "alloc_ok alloc"
  shows "sem c + queued cs + length (running_requests c) = unat max_req \<and>
    distinct (map fst (running_requests c)) \<and>
    (Connection_is_ready c \<longleftrightarrow> queued cs + length (running_requests c) < unat max_req)"
  using reachable_ok [OF assms(2,1)]
  by (auto simp: system_ok_def conn_ok_def Slab_wf_def Connection_is_ready_def)

text \<open>The slab of the witnesses takes the least vacant key below its size.\<close>

definition least_vacant :: "FCGIRequest slots \<Rightarrow> nat" where
  "least_vacant s = hd (filter (\<lambda>k. k \<notin> set (map fst s)) [0..<Suc (length s)])"

lemma least_vacant_ok: "alloc_ok least_vacant"
  unfolding alloc_ok_def
proof (intro allI impI)
  fix s :: "FCGIRequest slots"
  assume "length s < 65535"
  let ?free = "filter (\<lambda>k. k \<notin> set (map fst s)) [0..<Suc (length s)]"
  have "?free \<noteq> []"
  proof
    assume "?free = []"
    then have "{0..<Suc (length s)} \<subseteq> set (map fst s)"
      unfolding filter_empty_conv by (simp only: set_upt) blast
    then have "card {0..<Suc (length s)} \<le> card (set (map fst s))" by (rule card_mono [rotated]) simp
    also have "\<dots> \<le> length s" using card_length [of "map fst s"] by simp
    finally show False by simp
  qed
  then have "least_vacant s \<in> set ?free" unfolding least_vacant_def by (rule hd_in_set)
  then have "least_vacant s \<notin> fst ` set s \<and> least_vacant s < Suc (length s)"
    unfolding set_filter set_upt set_map mem_Collect_eq by simp
  with \<open>length s < 65535\<close> show "Slab_get s (least_vacant s) = None \<and> least_vacant s < 65535"
    by (simp add: Slab_get_def map_of_eq_None_iff)
qed

lemma example_admit:
  "Connection_admit True least_vacant 7 FillPending (Inr ()) (Connection_new 1\<lparr>sem := 0\<rparr>) =
    Inr (Inr 1, Connection_new 1\<lparr>sem := 0, io_waker := Some 7, running_requests := [(0, FCGIRequest_new)]\<rparr>)"
  by (simp add: register_io_def Connection_admit_def Connection_new_def CheckAlive_poll_def InnerConnection_poll_resp_def
    poll_fill_buf_def Let_def least_vacant_def Slab_insert_def)

definition example_system :: "client \<Rightarrow> system" where
  "example_system cl =
     (Connection_new 1\<lparr>sem := 0, io_waker := Some 7, running_requests := [(0, FCGIRequest_new)]\<rparr>, [cl])"

lemma example_reachable:
  "reachable True least_vacant prs status_code 1 (example_system (Starting 1))"
  "reachable True least_vacant prs status_code 1 (example_system (Responding (create_response_start 1)))"
  "reachable True least_vacant prs status_code 1 (example_system Gone)"
proof -
  have "Connection_acquire (Connection_new 1) = Ready (Connection_new 1\<lparr>sem := 0\<rparr>)"
    by (simp add: Connection_acquire_def Connection_new_def)
  from reachable.step [OF reachable.start system_step.queued [OF this]]
  have q: "reachable True least_vacant prs status_code 1 (Connection_new 1\<lparr>sem := 0\<rparr>, [Queued])" by simp
  show 1: "reachable True least_vacant prs status_code 1 (example_system (Starting 1))"
    using reachable.step [OF q admitted [OF example_admit, of _ _ "[]" "[]", simplified]]
    by (simp add: example_system_def)
  show "reachable True least_vacant prs status_code 1 (example_system (Responding (create_response_start 1)))"
    using 1 head_sent [of True least_vacant prs status_code _ "[]" 1 "[]"]
    by (auto simp: example_system_def intro: reachable.step)
  show "reachable True least_vacant prs status_code 1 (example_system Gone)"
    using 1 head_failed [of True least_vacant prs status_code _ "[]" 1 "[]"]
    by (auto simp: example_system_def intro: reachable.step)
qed


lemma permits_accounted_example:
  "sem (fst (example_system Gone)) + queued [Gone] + length (running_requests (fst (example_system Gone))) = 1 \<and>
    distinct (map fst (running_requests (fst (example_system Gone)))) \<and>
    (Connection_is_ready (fst (example_system Gone)) \<longleftrightarrow>
      queued [Gone] + length (running_requests (fst (example_system Gone))) < 1)"
  using permits_accounted [OF example_reachable(3) [unfolded example_system_def] least_vacant_ok]
  by (simp add: example_system_def)

text \<open>
  C7. The wakers of the requests, in every reachable state: a task that is registered with its request
  has nothing to read, its buffer is empty and the request has not ended. Whoever drives the
  connection next, with whatever result, wakes this task or leaves it registered, and then there is
  still nothing for it to read.
\<close>

theorem no_lost_wakeup:
  assumes "reachable dbg alloc prs status_code max_req (c, cs)" "alloc_ok alloc"
    and "conn_slot c k = Some q" "rq_waker q = Some t"
    and "InnerConnection_poll_resp dbg task fill c = Inr (st, c')"
  shows "rq_buf q = [] \<and> \<not> rq_ended q \<and>
    (t \<in> set (woken c') \<or>
     (\<exists>q'. conn_slot c' k = Some q' \<and> rq_waker q' = Some t \<and> rq_buf q' = [] \<and> \<not> rq_ended q'))"
proof -
  from reachable_ok [OF assms(2,1)] obtain m where m: "conn_ok m c" by (auto simp: system_ok_def)
  have "conn_ok m c'" using poll_resp_ok [OF m assms(5)] by blast
  then have "rq_buf q' = [] \<and> \<not> rq_ended q'" if "conn_slot c' k = Some q'" "rq_waker q' = Some t" for q'
    using that by (auto simp: conn_slot_def request_ok_def dest: conn_ok_request)
  moreover have "rq_buf q = [] \<and> \<not> rq_ended q"
    using m assms(3,4) by (auto simp: conn_slot_def request_ok_def dest: conn_ok_request)
  moreover have "t \<in> set (woken c') \<or> (\<exists>q'. conn_slot c' k = Some q' \<and> rq_waker q' = Some t)"
    using poll_resp_wakes [OF assms(5)] assms(3,4) by (auto simp: wakers_kept_def)
  ultimately show ?thesis by blast
qed

text \<open>The witness: request 1 is polled and has to wait for task 7.\<close>

lemma example_waits:
  "reachable True least_vacant prs status_code 1
    (Connection_new 1\<lparr>sem := 0, io_waker := Some 7,
       running_requests := [(0, FCGIRequest_new\<lparr>rq_waker := Some 7\<rparr>)]\<rparr>,
     [Responding (create_response_start 1)])"
proof -
  have "create_response_poll prs status_code True True 7 FillPending (create_response_start 1)
      (fst (example_system Gone)) = Inr (create_response_start 1,
        Connection_new 1\<lparr>sem := 0, io_waker := Some 7,
          running_requests := [(0, FCGIRequest_new\<lparr>rq_waker := Some 7\<rparr>)]\<rparr>)"
    by (simp add: register_io_def create_response_poll_def create_response_start_def FCGIBody_poll_frame_def
      InnerConnection_poll_resp_def poll_fill_buf_def example_system_def Connection_new_def Let_def
      Slab_get_def Slab_put_def FCGIRequest_new_def BufList_new_def)
  from respond [OF this, of least_vacant "[]" "[]"] example_reachable(2) show ?thesis
    by (auto simp: example_system_def intro: reachable.step)
qed

theorem no_lost_wakeup_witness:
  "rq_buf (FCGIRequest_new\<lparr>rq_waker := Some 7\<rparr>) = [] \<and> \<not> rq_ended (FCGIRequest_new\<lparr>rq_waker := Some 7\<rparr>) \<and>
    (\<exists>c'. InnerConnection_poll_resp True 8 (FillData [])
        (Connection_new 1\<lparr>sem := 0, io_waker := Some 7,
           running_requests := [(0, FCGIRequest_new\<lparr>rq_waker := Some 7\<rparr>)]\<rparr>) = Inr (Ready None, c') \<and>
      (7 \<in> set (woken c') \<or>
       (\<exists>q'. conn_slot c' 0 = Some q' \<and> rq_waker q' = Some 7 \<and> rq_buf q' = [] \<and> \<not> rq_ended q')))"
proof -
  let ?c = "Connection_new 1\<lparr>sem := 0, io_waker := Some 7,
    running_requests := [(0, FCGIRequest_new\<lparr>rq_waker := Some 7\<rparr>)]\<rparr>"
  have slot: "conn_slot ?c 0 = Some (FCGIRequest_new\<lparr>rq_waker := Some 7\<rparr>)"
    by (simp add: conn_slot_def Slab_get_def)
  obtain c' where p: "InnerConnection_poll_resp True 8 (FillData []) ?c = Inr (Ready None, c')"
    by (simp add: InnerConnection_poll_resp_def poll_fill_buf_def Connection_new_def Let_def)
  from no_lost_wakeup [OF example_waits least_vacant_ok slot _ p, of 7] p show ?thesis by simp
qed

text \<open>
  C8. Every client that is sending its head, reading its response or holding a body that is not done
  has a slot of its own in the slab, its request was not aborted, and no two of them share a request
  id. In particular the slot is still there when \<open>create_response\<close> indexes the slab with it.
\<close>

theorem clients_own_their_slots:
  assumes "reachable dbg alloc prs status_code max_req (c, cs)" "alloc_ok alloc"
  shows "distinct (concat (map client_keys cs)) \<and>
    (\<forall>k \<in> set (concat (map client_keys cs)). k < 65535 \<and> (\<exists>q. conn_slot c k = Some q \<and> \<not> rq_aborted q))"
proof -
  from reachable_ok [OF assms(2,1)] have ok: "\<forall>k. conn_slot c k \<noteq> None \<longrightarrow> k < 65535"
    "list_all (client_ok c) cs" "distinct (concat (map client_keys cs))" by (simp_all add: system_ok_def)
  have "\<forall>k \<in> set (concat (map client_keys cs)). slot_running c k"
    using ok(2) by (auto simp: list_all_iff intro: client_running)
  with ok(1,3) show ?thesis by (fastforce simp: slot_running_def)
qed

theorem clients_own_their_slots_witness:
  "client_keys (Starting 1) = [0] \<and>
    (\<exists>q. conn_slot (fst (example_system (Starting 1))) 0 = Some q \<and> \<not> rq_aborted q)"
  using clients_own_their_slots [OF example_reachable(1) [unfolded example_system_def] least_vacant_ok]
  by (simp add: example_system_def)


text \<open>
  The witness: a parser that takes all it gets for one header without a value. A record of an unknown
  type makes the record parser panic; a name of three bytes, where two are allowed, the header map.
\<close>

definition example_headers :: "nat \<Rightarrow> bytes \<Rightarrow> parse_status option" where
  "example_headers n bs = Some (Complete (length bs) [(bs, 0, 0)])"

definition example_name :: "bytes \<Rightarrow> bytes option" where
  "example_name bs = (if length bs \<le> 2 then Some bs else None)"

lemma example_name_panics:
  "create_response_poll (parse example_headers example_name) (\<lambda>_. None) True True 7
    (FillData [1, 6, 0, 1, 0, 3, 0, 0, 65, 66, 67]) (create_response_start 1) (fst (example_system Gone)) =
    Inl InvalidHeaderName"
  by code_simp

lemma example_name_drain:
  "case RecordReader_drain RecordReader_new [1, 6, 0, 1, 0, 3, 0, 0, 65, 66, 67] of Inl _ \<Rightarrow> False | Inr _ \<Rightarrow> True"
  by code_simp


text \<open>
  C40. A slot that no client owns is never given back. When \<open>forward\<close> returns early after the
  insertion (a write error, a header that is refused), or when the mutex is taken at the moment a
  body is dropped, the request stays in the slab for good, and its permit with it: in whatever
  state the connection gets to from there.
\<close>

theorem orphans_stay:
  assumes "reachable dbg alloc prs status_code max_req (c, cs)" "alloc_ok alloc"
    and "conn_slot c k = Some q" "\<not> rq_aborted q" "k \<notin> set (concat (map client_keys cs))"
    and "(system_step dbg alloc prs status_code)\<^sup>*\<^sup>* (c, cs) (c', cs')"
  shows "\<exists>q'. conn_slot c' k = Some q' \<and> \<not> rq_aborted q'"
proof -
  have "unat max_req \<le> 65535" using unat_u16_lt [of max_req] by linarith
  moreover from reachable_ok [OF assms(2,1)] assms(3-5)
  have "system_ok (unat max_req) (c, cs)" "orphan k (c, cs)" by (auto simp: orphan_def slot_running_def)
  ultimately show ?thesis
    using orphans_kept [OF assms(6) _ _ assms(2)] by (simp add: orphan_def slot_running_def)
qed

theorem orphans_stay_witness:
  "\<exists>q'. conn_slot (InnerConnection_notify_everyone (fst (example_system Gone))) 0 = Some q' \<and> \<not> rq_aborted q'"
proof -
  let ?c = "fst (example_system Gone)"
  have c: "?c = Connection_new 1\<lparr>sem := 0, io_waker := Some 7, running_requests := [(0, FCGIRequest_new)]\<rparr>"
    by (simp add: example_system_def)
  have "Connection_close (Inr ()) ?c = (Inr (), InnerConnection_notify_everyone ?c)"
    by (simp add: Connection_close_def)
  from closed [OF this, of True least_vacant "\<lambda>b m. Inr (ParseResult.Err, m)" "\<lambda>_. None" "[Gone]"]
  have "(system_step True least_vacant (\<lambda>b m. Inr (ParseResult.Err, m)) (\<lambda>_. None))\<^sup>*\<^sup>*
      (?c, [Gone]) (InnerConnection_notify_everyone ?c, [Gone])" by (rule r_into_rtranclp)
  from orphans_stay [OF example_reachable(3) [unfolded example_system_def, folded c] least_vacant_ok _ _ _ this,
      of 0 FCGIRequest_new]
  show ?thesis by (simp add: c conn_slot_def Slab_get_def FCGIRequest_new_def)
qed


text \<open>
  C33. The fragment that completes the header block: what follows the header in it is put back behind
  whatever is buffered by then. If the request has no further fragment, the body starts with it; but
  if later fragments are there already (they may come with the same read), they overtake it, and the
  client reads the body in the wrong order.
\<close>

theorem create_response_puts_back:
  assumes "conn_ok n c" "io_rx c = []" "\<not> fb_done b" "\<not> fb_was_returned b"
    and "conn_slot c (unat (fb_rid b)) = Some q" "rq_buf q = d # rest"
    and "prs d m = Inr (ParseResult.Ok bodydata, m')" "bodydata \<noteq> []"
  shows "\<exists>c1 c2. create_response_poll prs status_code dbg True task FillPending (Reading b None m) c =
      Inr (PuttingBack b bodydata m', c1) \<and>
    create_response_poll prs status_code dbg True task FillPending (PuttingBack b bodydata m') c1 =
      Inr (Returned (b\<lparr>fb_was_returned := True\<rparr>) (response_status status_code m') m', c2) \<and>
    conn_slot c2 (unat (fb_rid b)) = Some (q\<lparr>rq_buf := rest @ [bodydata]\<rparr>)"
proof -
  let ?k = "unat (fb_rid b)"
  have wf: "BufList_wf (rq_buf q)"
    using assms(1,5) by (auto simp: conn_slot_def request_ok_def dest: conn_ok_request)
  have b: "b\<lparr>fb_done := False\<rparr> = b" using assms(3) by (cases b) simp
  from poll_frame_quiet [OF assms(3,2,5) wf, of dbg task] assms(4,6) b obtain c1 where
    f: "FCGIBody_poll_frame dbg True task FillPending b c = Inr (Ready (Some d), b, c1)"
    and c1: "conn_slot c1 = (conn_slot c)(?k \<mapsto> q\<lparr>rq_buf := rest\<rparr>)"
    by (auto simp: frame_result_def frame_release_def frame_request_def)
  have "create_response_poll prs status_code dbg True task FillPending (Reading b None m) c =
      Inr (PuttingBack b bodydata m', c1)"
    using f assms(7,8) by (simp add: create_response_poll_def create_response_fragment_def)
  moreover have g: "Slab_get (running_requests c1) ?k = Some (q\<lparr>rq_buf := rest\<rparr>)"
    using c1 by (simp add: conn_slot_def)
  let ?c2 = "c1\<lparr>running_requests := Slab_put ?k (q\<lparr>rq_buf := rest @ [bodydata]\<rparr>) (running_requests c1)\<rparr>"
  have "create_response_poll prs status_code dbg True task FillPending (PuttingBack b bodydata m') c1 =
      Inr (Returned (b\<lparr>fb_was_returned := True\<rparr>) (response_status status_code m') m', ?c2)"
    using g assms(8) by (simp add: create_response_poll_def Slab_index_def response_return_def)
  moreover have "conn_slot ?c2 ?k = Some (q\<lparr>rq_buf := rest @ [bodydata]\<rparr>)"
    using g by (simp add: conn_slot_def slab_simps)
  ultimately show ?thesis by blast
qed

theorem create_response_puts_back_witness:
  "\<exists>c1 c2. create_response_poll (\<lambda>b m. Inr (ParseResult.Ok (drop 1 b), m)) (\<lambda>_. None) True True 7 FillPending
      (Reading \<lparr>fb_rid = 0, fb_done = False, fb_was_returned = False\<rparr> None [])
      (Connection_new 1\<lparr>sem := 0, running_requests := [(0, FCGIRequest_new\<lparr>rq_buf := [[10, 65], [66]]\<rparr>)]\<rparr>) =
      Inr (PuttingBack \<lparr>fb_rid = 0, fb_done = False, fb_was_returned = False\<rparr> [65] [], c1) \<and>
    create_response_poll (\<lambda>b m. Inr (ParseResult.Ok (drop 1 b), m)) (\<lambda>_. None) True True 7 FillPending
      (PuttingBack \<lparr>fb_rid = 0, fb_done = False, fb_was_returned = False\<rparr> [65] []) c1 =
      Inr (Returned \<lparr>fb_rid = 0, fb_done = False, fb_was_returned = True\<rparr> 200 [], c2) \<and>
    conn_slot c2 0 = Some (FCGIRequest_new\<lparr>rq_buf := [[66], [65]]\<rparr>)"
proof -
  let ?q = "FCGIRequest_new\<lparr>rq_buf := [[10, 65], [66]]\<rparr>"
  let ?c = "Connection_new 1\<lparr>sem := 0, running_requests := [(0, ?q)]\<rparr>"
  have ok: "conn_ok 1 ?c"
    by (auto simp: conn_ok_def Slab_wf_def slab.all_values_def Slab_get_def request_ok_def
      FCGIRequest_new_def Connection_new_def split: if_splits)
  show ?thesis
    using create_response_puts_back [OF ok, of "\<lparr>fb_rid = 0, fb_done = False, fb_was_returned = False\<rparr>" ?q
      "[10, 65]" "[[66]]" "\<lambda>b m. Inr (ParseResult.Ok (drop 1 b), m)" "[]" "[65]" "[]" "\<lambda>_. None" True 7]
    by (simp add: Connection_new_def conn_slot_def Slab_get_def response_status_def HeaderMap_get_def)
qed

section \<open>Reading a body to its end\<close>

text \<open>\<open>n\<close> polls of a body by its only reader, with the mutex free and nothing to read.\<close>

fun body_polls :: "bool \<Rightarrow> nat \<Rightarrow> nat \<Rightarrow> FCGIBody \<Rightarrow> InnerConnection \<Rightarrow>
    panic + bytes option poll list \<times> FCGIBody \<times> InnerConnection" where
  "body_polls dbg task 0 b con = Inr ([], b, con)"
| "body_polls dbg task (Suc n) b con =
     rbind (FCGIBody_poll_frame dbg True task FillPending b con) (\<lambda>(p, b, con).
     rbind (body_polls dbg task n b con) (\<lambda>(ps, b, con). Inr (p # ps, b, con)))"

lemma poll_frame_frame:
  assumes "io_rx con = []" "FCGIBody_poll_frame dbg lock task FillPending b con = Inr (p, b', con')"
  shows "io_rx con' = []"
  using assms by (auto simp: FCGIBody_poll_frame_def InnerConnection_poll_resp_def poll_fill_buf_def
    rbind_Inr_iff Let_def split: if_splits option.splits prod.splits)

text \<open>
  The end of a response: when the server has ended the request, as many polls as there are
  fragments hand out all of them in order, and with the last one the body is done and its slot
  and permit are free, without another poll.
\<close>

lemma body_read_to_end:
  assumes "conn_ok n con" "io_rx con = []" "\<not> fb_done b" "fb_was_returned b"
    and "conn_slot con (unat (fb_rid b)) = Some q" "rq_ended q" "rq_buf q \<noteq> []"
  shows "\<exists>con'. body_polls dbg task (length (rq_buf q)) b con =
      Inr (map (\<lambda>d. Ready (Some d)) (rq_buf q), b\<lparr>fb_done := True\<rparr>, con') \<and>
    conn_ok n con' \<and> conn_slot con' = (conn_slot con)(unat (fb_rid b) := None)"
  using assms
proof (induction "rq_buf q" arbitrary: q con)
  case Nil
  then show ?case by simp
next
  case (Cons d rest)
  let ?k = "unat (fb_rid b)"
  have wf: "BufList_wf (rq_buf q)"
    using Cons.prems(1,5) by (auto simp: conn_slot_def request_ok_def dest: conn_ok_request)
  have bd: "b\<lparr>fb_done := False\<rparr> = b" using Cons.prems(3) by (cases b) simp
  from poll_frame_quiet [OF Cons.prems(3,2,5) wf, of dbg task] Cons.prems(1,4,6) Cons.hyps(2) [symmetric]
  obtain c1 where
    f: "FCGIBody_poll_frame dbg True task FillPending b con = Inr (Ready (Some d), b\<lparr>fb_done := (rest = [])\<rparr>, c1)"
    and c1: "conn_slot c1 = (conn_slot con)(?k := (if rest = [] then None else Some (q\<lparr>rq_buf := rest\<rparr>)))"
    and ok: "conn_ok n c1"
    by (auto simp: frame_result_def frame_release_def frame_request_def)
  show ?case
  proof (cases "rest = []")
    case True
    with f c1 ok Cons.hyps(2) [symmetric] show ?thesis by simp
  next
    case False
    have rx: "io_rx c1 = []" by (rule poll_frame_frame [OF Cons.prems(2) f])
    have "conn_slot c1 ?k = Some (q\<lparr>rq_buf := rest\<rparr>)" using c1 False by simp
    from Cons.hyps(1) [OF _ ok rx Cons.prems(3,4) this] Cons.prems(6) False obtain con' where
      "body_polls dbg task (length rest) b c1 = Inr (map (\<lambda>d. Ready (Some d)) rest, b\<lparr>fb_done := True\<rparr>, con')"
      "conn_ok n con'" "conn_slot con' = (conn_slot c1)(?k := None)" by auto
    with f False bd c1 Cons.hyps(2) [symmetric] show ?thesis by simp
  qed
qed

lemma body_read_to_end_example:
  "\<exists>con'. body_polls True 7 2 \<lparr>fb_rid = 0, fb_done = False, fb_was_returned = True\<rparr>
      (Connection_new 1\<lparr>sem := 0, running_requests := [(0, FCGIRequest_new\<lparr>rq_buf := [[65], [66]], rq_ended := True\<rparr>)]\<rparr>) =
      Inr ([Ready (Some [65]), Ready (Some [66])], \<lparr>fb_rid = 0, fb_done = True, fb_was_returned = True\<rparr>, con') \<and>
    conn_ok 1 con' \<and> conn_slot con' 0 = None"
proof -
  let ?q = "FCGIRequest_new\<lparr>rq_buf := [[65], [66]], rq_ended := True\<rparr>"
  let ?c = "Connection_new 1\<lparr>sem := 0, running_requests := [(0, ?q)]\<rparr>"
  have ok: "conn_ok 1 ?c"
    by (auto simp: conn_ok_def Slab_wf_def slab.all_values_def Slab_get_def request_ok_def
      FCGIRequest_new_def Connection_new_def split: if_splits)
  have "\<exists>con'. body_polls True 7 (length (rq_buf ?q)) \<lparr>fb_rid = 0, fb_done = False, fb_was_returned = True\<rparr> ?c =
      Inr (map (\<lambda>d. Ready (Some d)) (rq_buf ?q), \<lparr>fb_rid = 0, fb_done = False, fb_was_returned = True\<rparr>\<lparr>fb_done := True\<rparr>, con') \<and>
    conn_ok 1 con' \<and> conn_slot con' = (conn_slot ?c)(unat (fb_rid \<lparr>fb_rid = 0, fb_done = False, fb_was_returned = True\<rparr>) := None)"
    by (rule body_read_to_end [OF ok]) (simp_all add: Connection_new_def conn_slot_def Slab_get_def)
  then show ?thesis by (auto simp: numeral_2_eq_2)
qed

end
