(* ===== verification/Forward_Task.thy ===== *)
theory Forward_Task
  imports Forward_System Connection_System
begin

text \<open>
  \<open>src/client/connection.rs\<close>: all of \<open>forward\<close>, as a task on the shared connection.

  A task has one of the phases of \<open>forward\<close>: it holds a permit and waits for the mutex; it sends the
  body and awaits the response (the two futures of \<open>try_join!\<close>); it is gone. A step is what one task
  does while it holds the mutex: one \<open>forward_open\<close> (check, reconnect, insertion, head), one piece of
  the body, one poll of the response. The environment of a step is arbitrary: what the stream
  delivers (\<open>fill\<close>), what it takes (the script \<open>sc\<close>; a write that stalls stands for a task that is
  dropped while it waits in the write), and what comes from the body of the request.
\<close>

section \<open>Writing on the shared stream\<close>

definition run_tx ::
  "(IoError + nat) list \<Rightarrow> 'a iom \<Rightarrow> InnerConnection \<Rightarrow> (fail + 'a) \<times> InnerConnection" where
  "run_tx sc m self =
     (let (r, s) = m \<lparr>sent = io_tx self, script = sc\<rparr> in (r, self\<lparr>io_tx := sent s\<rparr>))"

definition InnerConnection_abort_req :: "(nat \<Rightarrow> u8) \<Rightarrow> u16 \<Rightarrow> unit iom" where
  "InnerConnection_abort_req uninit rid = FCGIWriter_encode uninit (FCGIType.AbortRequest rid)"

section \<open>\<open>forward\<close> up to the release of the mutex\<close>

text \<open>The head; for a request without a body also the end of it.\<close>

definition forward_opening ::
  "(nat \<Rightarrow> u8) \<Rightarrow> MultiHeaderStrategy \<Rightarrow> HeaderMultilineStrategy \<Rightarrow> HttpRequest \<Rightarrow> (bytes \<times> bytes) list \<Rightarrow>
     u16 \<Rightarrow> usize option iom" where
  "forward_opening uninit mul nl req dyn_headers rid =
     io_bind (forward_head uninit mul nl req dyn_headers rid) (\<lambda>len'.
       case len' of
         Some len' \<Rightarrow> io_return (Some (of_nat len'))
       | None \<Rightarrow> io_bind (FCGIWriter_flush_data_chunk NULL rid RecordType.StdIn) (\<lambda>_. io_return None))"

definition forward_open ::
  "bool \<Rightarrow> (nat \<Rightarrow> u8) \<Rightarrow> (FCGIRequest slots \<Rightarrow> nat) \<Rightarrow> MultiHeaderStrategy \<Rightarrow> HeaderMultilineStrategy \<Rightarrow>
     nat \<Rightarrow> fill \<Rightarrow> IoError + unit \<Rightarrow> (IoError + nat) list \<Rightarrow> HttpRequest \<Rightarrow> (bytes \<times> bytes) list \<Rightarrow>
     InnerConnection \<Rightarrow> panic + (fail + u16 \<times> usize option) \<times> InnerConnection" where
  "forward_open dbg uninit alloc mul nl task fill reconnect sc req dyn_headers self =
     rbind (Connection_admit dbg alloc task fill reconnect self) (\<lambda>(admitted, self).
       case admitted of
         Inl e \<Rightarrow> Inr (Inl (Io e), self)
       | Inr rid \<Rightarrow>
           let (sending, self) = run_tx sc (forward_opening uninit mul nl req dyn_headers rid) self
           in Inr (case sending of Inl e \<Rightarrow> Inl e | Inr len' \<Rightarrow> Inr (rid, len'), self))"

text \<open>The strategies are those of the \<open>Connection\<close>.\<close>

definition Connection_forward_open ::
  "bool \<Rightarrow> (nat \<Rightarrow> u8) \<Rightarrow> (FCGIRequest slots \<Rightarrow> nat) \<Rightarrow> nat \<Rightarrow> fill \<Rightarrow> IoError + unit \<Rightarrow> (IoError + nat) list \<Rightarrow>
     HttpRequest \<Rightarrow> (bytes \<times> bytes) list \<Rightarrow> Connection \<Rightarrow> panic + (fail + u16 \<times> usize option) \<times> Connection" where
  "Connection_forward_open dbg uninit alloc task fill reconnect sc req dyn_headers self =
     rbind (forward_open dbg uninit alloc (header_mul self) (header_nl self) task fill reconnect sc req dyn_headers
       (conn_inner self)) (\<lambda>(res, inner). Inr (res, self\<lparr>conn_inner := inner\<rparr>))"

section \<open>\<open>send_body\<close>, one frame of the body\<close>

text \<open>
  A body yields frames of data or of trailers. The future of \<open>data\<close> skips trailers: it wakes its own
  task, to be polled again, and is pending.
\<close>

datatype body_frame = DataFrame bytes | TrailersFrame

definition BodyDataFrame_poll :: "('e + body_frame) option poll \<Rightarrow> ('e + bytes) option poll \<times> bool" where
  "BodyDataFrame_poll p =
     (case p of
        Ready (Some (Inr a)) \<Rightarrow> (case a of DataFrame d \<Rightarrow> (Ready (Some (Inr d)), False) | TrailersFrame \<Rightarrow> (Pending, True))
      | Ready (Some (Inl e)) \<Rightarrow> (Ready (Some (Inl e)), False)
      | Ready None \<Rightarrow> (Ready None, False)
      | Pending \<Rightarrow> (Pending, False))"

definition send_body_step ::
  "bool \<Rightarrow> (nat \<Rightarrow> u8) \<Rightarrow> u16 \<Rightarrow> usize \<Rightarrow> ('e + body_frame) option poll \<Rightarrow> (IoError + nat) list \<Rightarrow>
     InnerConnection \<Rightarrow> (fail + usize option) \<times> InnerConnection" where
  "send_body_step dbg uninit rid len' p sc self =
     (case fst (BodyDataFrame_poll p) of
        Pending \<Rightarrow> (Inr (Some len'), self)
      | Ready (Some (Inl e)) \<Rightarrow> (Inr (Some len'), self)
      | Ready (Some (Inr data)) \<Rightarrow>
          let s = length data in
          if s = 0 then (Inr (Some len'), self)
          else if dbg \<and> unat len' < s then (Inl (Panicked SubOverflow), self)
          else run_tx sc (io_bind (FCGIWriter_flush_data_chunk data rid RecordType.StdIn) (\<lambda>_.
            io_return (Some (len' - of_nat s)))) self
      | Ready None \<Rightarrow>
          if len' > 0 then
            run_tx sc (io_bind (InnerConnection_abort_req uninit rid) (\<lambda>_.
              io_fail (Io (IoError ConnectionAborted ''body too short'')))) self
          else
            run_tx sc (io_bind (FCGIWriter_flush_data_chunk NULL rid RecordType.StdIn) (\<lambda>_.
              io_return None)) self)"

section \<open>The step relation\<close>

text \<open>
  \<open>Forwarding rid sending r\<close>: the response is in the phase \<open>r\<close>; \<open>sending\<close> is \<open>Some n\<close> while
  \<open>send_body\<close> runs, with \<open>n\<close> bytes still announced, and \<open>None\<close> when the end of the body is out. The
  caller gets the response when both futures have returned. An error of \<open>send_body\<close> drops the
  future of \<open>create_response\<close>, and with it the response body, if the future was polled before (\<open>started\<close>);
  a future that was not has no response body yet, and the request stays as it is.

  The label of a step says whether the writes of the step are whole (\<open>clean\<close>): it is \<open>False\<close> when the
  transport failed or the task was dropped in the middle of a write.
\<close>

definition response_drop :: "bool \<Rightarrow> bool \<Rightarrow> response \<Rightarrow> InnerConnection \<Rightarrow> InnerConnection" where
  "response_drop started lock r con = (if started then FCGIBody_drop lock (response_body r) con else con)"

text \<open>For the requests it makes no difference whether there is no body or the mutex is taken when it is dropped.\<close>

lemma response_drop_alt: "response_drop started lock r con = FCGIBody_drop (started \<and> lock) (response_body r) con"
  by (simp add: response_drop_def FCGIBody_drop_def)

datatype task = Waiting | Forwarding u16 "usize option" response | Finished

type_synonym forward_state = "InnerConnection \<times> task list"

inductive forward_step ::
  "bool \<Rightarrow> (nat \<Rightarrow> u8) \<Rightarrow> (FCGIRequest slots \<Rightarrow> nat) \<Rightarrow> (bytes \<Rightarrow> HeaderMap \<Rightarrow> panic + ParseResult \<times> HeaderMap) \<Rightarrow>
     (bytes \<Rightarrow> u16 option) \<Rightarrow> MultiHeaderStrategy \<Rightarrow> HeaderMultilineStrategy \<Rightarrow>
     forward_state \<Rightarrow> bool \<Rightarrow> forward_state \<Rightarrow> bool"
  for dbg uninit alloc prs status_code mul nl where
  acquire: "Connection_acquire c = Ready c' \<Longrightarrow>
    forward_step dbg uninit alloc prs status_code mul nl (c, ts) True (c', ts @ [Waiting])"
| cancel: "forward_step dbg uninit alloc prs status_code mul nl (c, ts @ Waiting # us) True
    (c\<lparr>sem := Suc (sem c)\<rparr>, ts @ Finished # us)"
| open_ok: "forward_open dbg uninit alloc mul nl task fill reconnect sc req dyn_headers c = Inr (Inr (rid, len'), c') \<Longrightarrow>
    list_all kv_ok (request_env mul req dyn_headers) \<Longrightarrow>
    forward_step dbg uninit alloc prs status_code mul nl (c, ts @ Waiting # us) True
      (c', ts @ Forwarding rid len' (create_response_start rid) # us)"
| open_failed: "forward_open dbg uninit alloc mul nl task fill reconnect sc req dyn_headers c = Inr (Inl e, c') \<Longrightarrow>
    list_all kv_ok (request_env mul req dyn_headers) \<Longrightarrow> clean = (\<not> tx_failed sc e) \<Longrightarrow>
    forward_step dbg uninit alloc prs status_code mul nl (c, ts @ Waiting # us) clean (c', ts @ Finished # us)"
| body_ok: "send_body_step dbg uninit rid len' (p :: (unit + body_frame) option poll) sc c = (Inr len'', c') \<Longrightarrow>
    forward_step dbg uninit alloc prs status_code mul nl (c, ts @ Forwarding rid (Some len') r # us) True
      (c', ts @ Forwarding rid len'' r # us)"
| body_failed: "send_body_step dbg uninit rid len' (p :: (unit + body_frame) option poll) sc c = (Inl e, c') \<Longrightarrow> clean = (\<not> tx_failed sc e) \<Longrightarrow>
    started \<or> r = create_response_start rid \<Longrightarrow>
    forward_step dbg uninit alloc prs status_code mul nl (c, ts @ Forwarding rid (Some len') r # us) clean
      (response_drop started lock r c', ts @ Finished # us)"
| respond: "create_response_poll prs status_code dbg lock task fill r c = Inr (r', c') \<Longrightarrow>
    forward_step dbg uninit alloc prs status_code mul nl (c, ts @ Forwarding rid sending r # us) True
      (c', ts @ Forwarding rid sending r' # us)"
| read_body: "FCGIBody_poll_frame dbg lock task fill b c = Inr (p, b', c') \<Longrightarrow>
    forward_step dbg uninit alloc prs status_code mul nl (c, ts @ Forwarding rid None (Returned b st m) # us) True
      (c', ts @ Forwarding rid None (Returned b' st m) # us)"
| dropped: "started \<or> r = create_response_start rid \<Longrightarrow>
    forward_step dbg uninit alloc prs status_code mul nl (c, ts @ Forwarding rid sending r # us) True
    (response_drop started lock r c, ts @ Finished # us)"
| closed: "Connection_close shutdown c = (res, c') \<Longrightarrow>
    forward_step dbg uninit alloc prs status_code mul nl (c, ts) True (c', ts)"

text \<open>Names and values of more than \<open>0x7fffffff\<close> bytes are left out: writing them panics.\<close>

inductive forward_run ::
  "bool \<Rightarrow> (nat \<Rightarrow> u8) \<Rightarrow> (FCGIRequest slots \<Rightarrow> nat) \<Rightarrow> (bytes \<Rightarrow> HeaderMap \<Rightarrow> panic + ParseResult \<times> HeaderMap) \<Rightarrow>
     (bytes \<Rightarrow> u16 option) \<Rightarrow> MultiHeaderStrategy \<Rightarrow> HeaderMultilineStrategy \<Rightarrow> u16 \<Rightarrow>
     bool \<Rightarrow> forward_state \<Rightarrow> bool"
  for dbg uninit alloc prs status_code mul nl max_req where
  start: "forward_run dbg uninit alloc prs status_code mul nl max_req True (Connection_new max_req, [])"
| step: "forward_run dbg uninit alloc prs status_code mul nl max_req clean s \<Longrightarrow>
    forward_step dbg uninit alloc prs status_code mul nl s ok s' \<Longrightarrow>
    forward_run dbg uninit alloc prs status_code mul nl max_req (clean \<and> ok) s'"

end
