(* ===== verification/Forward_Invariants.thy ===== *)
theory Forward_Invariants
  imports Forward_Task
begin

text \<open>
  \<open>src/client/connection.rs\<close>: what holds in every state that calls of \<open>forward\<close> can bring a
  connection to.

  The task model refines the client model of \<open>Connection_System\<close>: every step of a task is a run of
  steps of its client, so the invariants proved there hold of the program. On the sending side the
  stream consists of whole records as long as no write is cut short; the theorem about a write that
  is cut short shows that nothing repairs the stream afterwards.
\<close>

section \<open>Tasks are clients\<close>

fun task_client :: "task \<Rightarrow> client" where
  "task_client Waiting = Queued"
| "task_client (Forwarding rid sending r) = Responding r"
| "task_client Finished = Gone"

definition task_system :: "forward_state \<Rightarrow> system" where
  "task_system s = (case s of (c, ts) \<Rightarrow> (c, map task_client ts))"

lemma run_tx_frame: "run_tx sc m c = (r, c') \<Longrightarrow> \<exists>t. c' = c\<lparr>io_tx := t\<rparr>"
  by (auto simp: run_tx_def split: prod.splits)

lemma send_body_step_frame: "send_body_step dbg uninit rid len' p sc c = (r, c') \<Longrightarrow> \<exists>t. c' = c\<lparr>io_tx := t\<rparr>"
proof -
  have same: "\<exists>t. c = c\<lparr>io_tx := t\<rparr>" by (rule exI [of _ "io_tx c"]) simp
  show "send_body_step dbg uninit rid len' p sc c = (r, c') \<Longrightarrow> \<exists>t. c' = c\<lparr>io_tx := t\<rparr>"
    using same
    by (auto simp: send_body_step_def Let_def split: poll.splits option.splits sum.splits if_splits
      dest: run_tx_frame)
qed

text \<open>The outcomes of \<open>forward_open\<close>.\<close>

lemma forward_open_cases:
  assumes "forward_open dbg uninit alloc mul nl task fill reconnect sc req dyn_headers c = Inr (res, c')"
  obtains (refused) e where "Connection_admit dbg alloc task fill reconnect c = Inr (Inl e, c')" "res = Inl (Io e)"
  | (opened) rid c1 sending where "Connection_admit dbg alloc task fill reconnect c = Inr (Inr rid, c1)"
      "run_tx sc (forward_opening uninit mul nl req dyn_headers rid) c1 = (sending, c')"
      "res = (case sending of Inl e \<Rightarrow> Inl e | Inr len' \<Rightarrow> Inr (rid, len'))"
proof -
  from assms obtain adm c1 where a: "Connection_admit dbg alloc task fill reconnect c = Inr (adm, c1)"
    by (auto simp: forward_open_def rbind_Inr_iff)
  show thesis
  proof (cases adm)
    case (Inl e)
    with assms a refused show thesis by (simp add: forward_open_def)
  next
    case (Inr rid)
    with assms a opened show thesis by (auto simp: forward_open_def Let_def split: prod.splits)
  qed
qed

lemma task_simulates:
  assumes "forward_step dbg uninit alloc prs status_code mul nl s ok s'"
  shows "(system_step dbg alloc prs status_code)\<^sup>*\<^sup>* (task_system s) (task_system s')"
  using assms
proof (induction rule: forward_step.induct)
  case (acquire c c' ts)
  then show ?case by (auto simp: task_system_def intro!: r_into_rtranclp system_step.queued)
next
  case (cancel c ts us)
  then show ?case by (auto simp: task_system_def intro!: r_into_rtranclp system_step.unqueued)
next
  case (open_ok task fill reconnect sc req dyn_headers c rid len' c' ts us)
  from open_ok(1) show ?case
  proof (cases rule: forward_open_cases)
    case (opened rid1 c1 sending)
    then have "rid1 = rid" by (auto split: sum.splits)
    from run_tx_frame [OF opened(2)] obtain t where t: "c' = c1\<lparr>io_tx := t\<rparr>" by blast
    let ?cs = "map task_client ts" and ?ds = "map task_client us"
    have "system_step dbg alloc prs status_code (c, ?cs @ Queued # ?ds) (c1, ?cs @ Starting rid # ?ds)"
      using opened(1) \<open>rid1 = rid\<close> by (auto intro: system_step.admitted)
    moreover have "system_step dbg alloc prs status_code (c1, ?cs @ Starting rid # ?ds) (c', ?cs @ Starting rid # ?ds)"
      unfolding t by (rule system_step.wrote)
    moreover have "system_step dbg alloc prs status_code (c', ?cs @ Starting rid # ?ds)
        (c', ?cs @ Responding (create_response_start rid) # ?ds)" by (rule system_step.head_sent)
    ultimately show ?thesis
      by (auto simp: task_system_def intro: converse_rtranclp_into_rtranclp)
  qed simp
next
  case (open_failed task fill reconnect sc req dyn_headers c e c' clean ts us)
  let ?cs = "map task_client ts" and ?ds = "map task_client us"
  from open_failed(1) show ?case
  proof (cases rule: forward_open_cases)
    case (refused e')
    then have "system_step dbg alloc prs status_code (c, ?cs @ Queued # ?ds) (c', ?cs @ Gone # ?ds)"
      by (auto intro: system_step.refused)
    then show ?thesis by (auto simp: task_system_def)
  next
    case (opened rid c1 sending)
    from run_tx_frame [OF opened(2)] obtain t where t: "c' = c1\<lparr>io_tx := t\<rparr>" by blast
    have "system_step dbg alloc prs status_code (c, ?cs @ Queued # ?ds) (c1, ?cs @ Starting rid # ?ds)"
      using opened(1) by (auto intro: system_step.admitted)
    moreover have "system_step dbg alloc prs status_code (c1, ?cs @ Starting rid # ?ds) (c', ?cs @ Starting rid # ?ds)"
      unfolding t by (rule system_step.wrote)
    moreover have "system_step dbg alloc prs status_code (c', ?cs @ Starting rid # ?ds) (c', ?cs @ Gone # ?ds)"
      by (rule system_step.head_failed)
    ultimately show ?thesis
      by (auto simp: task_system_def intro: converse_rtranclp_into_rtranclp)
  qed
next
  case (body_ok rid len' p sc c len'' c' ts r us)
  from send_body_step_frame [OF body_ok] obtain t where t: "c' = c\<lparr>io_tx := t\<rparr>" by blast
  show ?case unfolding t task_system_def by (auto intro!: r_into_rtranclp system_step.wrote)
next
  case (body_failed rid len' p sc c e c' clean started r ts us lock)
  from send_body_step_frame [OF body_failed(1)] obtain t where t: "c' = c\<lparr>io_tx := t\<rparr>" by blast
  let ?cs = "map task_client ts" and ?ds = "map task_client us"
  have "system_step dbg alloc prs status_code (c, ?cs @ Responding r # ?ds) (c', ?cs @ Responding r # ?ds)"
    unfolding t by (rule system_step.wrote)
  moreover have "system_step dbg alloc prs status_code (c', ?cs @ Responding r # ?ds)
      (response_drop started lock r c', ?cs @ Gone # ?ds)" unfolding response_drop_alt by (rule system_step.dropped)
  ultimately show ?case by (auto simp: task_system_def intro: converse_rtranclp_into_rtranclp)
next
  case (respond lock task fill r c r' c' ts rid sending us)
  then show ?case by (auto simp: task_system_def intro!: r_into_rtranclp system_step.respond)
next
  case (read_body lock task fill b c p b' c' ts rid st m us)
  then show ?case by (auto simp: task_system_def intro!: r_into_rtranclp system_step.read_body)
next
  case (dropped started r rid c ts sending us lock)
  then show ?case by (auto simp: task_system_def response_drop_alt intro!: r_into_rtranclp system_step.dropped)
next
  case (closed shutdown c res c' ts)
  then show ?case by (auto simp: task_system_def intro!: r_into_rtranclp system_step.closed)
qed

lemma reachable_rtranclp:
  "(system_step dbg alloc prs status_code)\<^sup>*\<^sup>* s s' \<Longrightarrow> reachable dbg alloc prs status_code max_req s \<Longrightarrow>
     reachable dbg alloc prs status_code max_req s'"
  by (induction rule: rtranclp_induct) (auto intro: reachable.step)

lemma run_reachable:
  "forward_run dbg uninit alloc prs status_code mul nl max_req ok s \<Longrightarrow>
     reachable dbg alloc prs status_code max_req (task_system s)"
proof (induction rule: forward_run.induct)
  case start
  then show ?case by (simp add: task_system_def reachable.start)
next
  case (step clean s ok s')
  from reachable_rtranclp [OF task_simulates [OF step(2)] step(3)] show ?case .
qed

section \<open>Whole records\<close>

definition whole :: "bytes \<Rightarrow> bool" where
  "whole w \<longleftrightarrow> (\<exists>es. wire_scan (InHead []) w = (InHead [], es))"

lemma whole_Nil [simp]: "whole []"
  by (simp add: whole_def)

lemma whole_append: "whole v \<Longrightarrow> whole w \<Longrightarrow> whole (v @ w)"
  by (auto simp: whole_def wire_scan_append)

lemma whole_block: "rid_block rid w c \<Longrightarrow> whole w"
  by (auto simp: rid_block_def whole_def)

lemma whole_frame_concat: "\<forall>c \<in> set cs. length c < 65536 \<Longrightarrow> whole (concat (map (frame rt rid) cs))"
  by (rule whole_block [OF rid_block_frame_concat])

definition writes_whole :: "'a iom \<Rightarrow> bool" where
  "writes_whole m \<longleftrightarrow> (\<forall>s r s'. m s = (r, s') \<longrightarrow>
     (case r of Inl e \<Rightarrow> \<not> tx_failed (script s) e | Inr _ \<Rightarrow> True) \<longrightarrow>
     (\<exists>w. whole w \<and> sent s' = sent s @ w))"

lemma writes_whole_sends: "sends m w x \<Longrightarrow> whole w \<Longrightarrow> writes_whole m"
  unfolding writes_whole_def by (auto dest: sends_successD sends_failureD split: sum.splits)

lemma writes_whole_fails:
  assumes "fails_after m w e" "whole w"
  shows "writes_whole m"
  unfolding writes_whole_def
proof (intro allI impI)
  fix s r s'
  assume 1: "m s = (r, s')" and 2: "case r of Inl e \<Rightarrow> \<not> tx_failed (script s) e | Inr _ \<Rightarrow> True"
  from fails_afterD [OF assms(1), of s] obtain e' s1 where "m s = (Inl e', s1)"
    "(e' = e \<and> sent s1 = sent s @ w) \<or> (\<exists>p. prefix p w \<and> sent s1 = sent s @ p) \<and> tx_failed (script s) e'" .
  with 1 2 assms(2) show "\<exists>w. whole w \<and> sent s' = sent s @ w" by auto
qed

lemma run_tx_whole:
  assumes "run_tx sc m c = (r, c')" "writes_whole m" "whole (io_tx c)"
    and "case r of Inl e \<Rightarrow> \<not> tx_failed sc e | Inr _ \<Rightarrow> True"
  shows "whole (io_tx c')"
proof -
  obtain s' where s': "m \<lparr>sent = io_tx c, script = sc\<rparr> = (r, s')" "c' = c\<lparr>io_tx := sent s'\<rparr>"
    using assms(1) by (auto simp: run_tx_def split: prod.splits)
  have "\<exists>w. whole w \<and> sent s' = sent \<lparr>sent = io_tx c, script = sc\<rparr> @ w"
    by (rule assms(2) [unfolded writes_whole_def, rule_format, OF s'(1)]) (use assms(4) in \<open>auto split: sum.splits\<close>)
  then obtain w where "whole w" "sent s' = io_tx c @ w" by auto
  with s'(2) whole_append [OF assms(3)] show ?thesis by simp
qed

text \<open>What \<open>forward\<close> sends before it gives the mutex away.\<close>

definition opening_wire :: "MultiHeaderStrategy \<Rightarrow> HttpRequest \<Rightarrow> (bytes \<times> bytes) list \<Rightarrow> u16 \<Rightarrow> bytes" where
  "opening_wire mul req dyn_headers rid =
     item_wire (FCGIType.BeginRequest rid Responder KEEP_CONN) @
     stream_wire RecordType.Params rid (kv_wire (request_env mul req dyn_headers)) @
     (case forward_len req of None \<Rightarrow> frame RecordType.StdIn rid [] | Some _ \<Rightarrow> [])"

lemma opening_sends:
  assumes "list_all (\<lambda>h. \<not> refused mul nl h) (req_headers req)"
    and "list_all kv_ok (request_env mul req dyn_headers)"
  shows "sends (forward_opening uninit mul nl req dyn_headers rid) (opening_wire mul req dyn_headers rid)
    (map_option of_nat (forward_len req))"
proof -
  have "sends (case forward_len req of
      Some len' \<Rightarrow> io_return (Some (of_nat len'))
    | None \<Rightarrow> io_bind (FCGIWriter_flush_data_chunk NULL rid RecordType.StdIn) (\<lambda>_. io_return None))
    (case forward_len req of None \<Rightarrow> frame RecordType.StdIn rid [] | Some _ \<Rightarrow> [])
    (map_option of_nat (forward_len req) :: usize option)"
    using sends_bind_return [OF flush_end, where g = "\<lambda>_. None :: usize option"]
    by (simp split: option.split)
  from sends_bind [OF forward_head_sends [OF assms], where f = "\<lambda>len'. case len' of
      Some len' \<Rightarrow> io_return (Some (of_nat len'))
    | None \<Rightarrow> io_bind (FCGIWriter_flush_data_chunk NULL rid RecordType.StdIn) (\<lambda>_. io_return None)", OF this]
  show ?thesis by (simp add: forward_opening_def opening_wire_def)
qed

lemma opening_refuses:
  assumes "\<not> list_all (\<lambda>h. \<not> refused mul nl h) (req_headers req)"
    and "list_all kv_ok (request_env mul req dyn_headers)"
  shows "\<exists>w e. whole w \<and> fails_after (forward_opening uninit mul nl req dyn_headers rid) w e"
proof -
  from assms(1) obtain h0 where "h0 \<in> set (req_headers req)" "refused mul nl h0" by (auto simp: list_all_iff)
  then obtain hs h hs' where h: "req_headers req = hs @ h # hs'" "refused mul nl h" "\<forall>g \<in> set hs. \<not> refused mul nl g"
    using split_list_first_prop [of "req_headers req" "refused mul nl"] by blast
  have kv: "list_all kv_ok (dyn_headers @ request_meta req @ http_env mul hs)"
    using assms(2) by (auto simp: request_env_def http_env_def h(1))
  let ?cs = "butlast (chunks_of (kv_wire (dyn_headers @ request_meta req @ http_env mul hs)))"
  have cs: "\<forall>c \<in> set ?cs. length c < 65536"
    by (auto dest!: in_set_butlastD dest: chunks_of_bounds MAX_CHUNK_lt)
  have "\<And>g. g \<in> set hs \<Longrightarrow> \<not> refused mul nl g" using h(3) by blast
  then have hs: "list_all (\<lambda>h. \<not> refused mul nl h) hs" by (simp add: list_all_iff)
  have "whole (item_wire (FCGIType.BeginRequest rid Responder KEEP_CONN) @
     concat (map (frame RecordType.Params rid) ?cs) @ frame RecordType.AbortRequest rid [])"
    by (intro whole_append whole_frame_concat cs whole_block [OF rid_block_begin] whole_block [OF rid_block_end])
  with fails_bind [OF forward_head_refuses [OF h(1) hs h(2) kv]] show ?thesis
    unfolding forward_opening_def by blast
qed

lemma head_whole:
  assumes "list_all kv_ok (request_env mul req dyn_headers)"
  shows "writes_whole (forward_opening uninit mul nl req dyn_headers rid)"
proof (cases "list_all (\<lambda>h. \<not> refused mul nl h) (req_headers req)")
  case True
  have "whole (opening_wire mul req dyn_headers rid)"
    unfolding opening_wire_def
    by (intro whole_append whole_block [OF rid_block_begin] whole_block [OF rid_block_stream])
      (simp add: whole_block [OF rid_block_end] split: option.split)
  with writes_whole_sends [OF opening_sends [OF True assms]] show ?thesis .
next
  case False
  with opening_refuses [OF False assms, of uninit rid] show ?thesis by (auto intro: writes_whole_fails)
qed

lemma body_step_whole:
  assumes "send_body_step dbg uninit rid len' p sc c = (r, c')" "whole (io_tx c)"
    and "case r of Inl e \<Rightarrow> \<not> tx_failed sc e | Inr _ \<Rightarrow> True"
  shows "whole (io_tx c')"
proof -
  have flush: "writes_whole (io_bind (FCGIWriter_flush_data_chunk data rid RecordType.StdIn) (\<lambda>_. io_return x))"
    if "data \<noteq> []" for data and x :: "usize option"
    using writes_whole_sends [OF sends_bind_return [OF flush_nonempty [OF that], where g = "\<lambda>_. x"]]
      whole_block [OF rid_block_frames] by simp
  have stop: "writes_whole (io_bind (FCGIWriter_flush_data_chunk NULL rid RecordType.StdIn) (\<lambda>_. io_return (None :: usize option)))"
    using writes_whole_sends [OF sends_bind_return [OF flush_end, where g = "\<lambda>_. None"]]
      whole_block [OF rid_block_end] by simp
  have abort: "writes_whole (io_bind (InnerConnection_abort_req uninit rid) (\<lambda>_.
      io_fail (Io (IoError ConnectionAborted ''body too short'')) :: usize option iom))"
    unfolding InnerConnection_abort_req_def
    by (rule writes_whole_fails [OF abort_fails whole_block [OF rid_block_end]])
  from assms show ?thesis
    by (auto simp: send_body_step_def Let_def split: poll.splits option.splits sum.splits if_splits
      elim!: run_tx_whole intro: flush stop abort)
qed


section \<open>Only \<open>forward\<close> writes\<close>

text \<open>\<open>unwritten\<close>: the operations that read and wake, but write nothing.\<close>

named_theorems unwritten

lemma distribute_tx [unwritten]: "InnerConnection_distribute dbg r c = Inr c' \<Longrightarrow> io_tx c' = io_tx c"
  by (auto simp: InnerConnection_distribute_def Let_def rbind_Inr_iff split: if_splits option.splits Body.splits)

lemma notify_tx [simp]: "io_tx (InnerConnection_notify_everyone c) = io_tx c"
  by (simp add: InnerConnection_notify_everyone_def)

lemma parse_tx [unwritten]: "InnerConnection_parse_and_distribute dbg data c = Inr (rest, c') \<Longrightarrow> io_tx c' = io_tx c"
proof (induction dbg data c rule: InnerConnection_parse_and_distribute.induct)
  case (1 dbg data c)
  show ?case
  proof (cases "RecordReader_read (fcgi_parser c) data")
    case (Inl e)
    with "1.prems" show ?thesis by (simp add: parse_panic)
  next
    case (Inr res)
    obtain ro p data1 where res: "res = (ro, p, data1)" by (cases res)
    show ?thesis
    proof (cases ro)
      case None
      with Inr res "1.prems" show ?thesis by (auto simp: parse_done)
    next
      case (Some r)
      obtain c1 where d: "InnerConnection_distribute dbg r (c\<lparr>fcgi_parser := p\<rparr>) = Inr c1"
        using distribute_total by blast
      from "1.IH" [OF Inr res [symmetric] Some refl d] "1.prems" parse_read [OF Inr [unfolded res Some] d]
        distribute_tx [OF d] show ?thesis by simp
    qed
  qed
qed

lemma poll_resp_tx [unwritten]: "InnerConnection_poll_resp dbg task fill c = Inr (st, c') \<Longrightarrow> io_tx c' = io_tx c"
  by (erule poll_resp_cases) (auto dest: unwritten)

lemma poll_frame_tx [unwritten]: "FCGIBody_poll_frame dbg lock task fill b c = Inr (p, b', c') \<Longrightarrow> io_tx c' = io_tx c"
  by (auto simp: FCGIBody_poll_frame_def Let_def rbind_Inr_iff split: if_splits option.splits prod.splits
    dest!: poll_resp_tx)

lemma create_response_poll_tx [unwritten]:
  assumes "create_response_poll prs status_code dbg lock task fill r c = Inr (r', c')"
  shows "io_tx c' = io_tx c"
proof (cases r)
  case (Reading b buf m)
  with assms obtain p b' c1 where f: "FCGIBody_poll_frame dbg lock task fill b c = Inr (p, b', c1)"
    and r': "(case p of Pending \<Rightarrow> Inr (Reading b' buf m, c1)
       | Ready None \<Rightarrow> Inr (response_return b' 200 m, c1)
       | Ready (Some d) \<Rightarrow> rbind (create_response_fragment prs status_code b' buf m d) (\<lambda>self. Inr (self, c1)))
      = Inr (r', c')"
    by (auto simp: create_response_poll_def rbind_Inr_iff)
  from r' have "c' = c1" by (auto simp: rbind_Inr_iff split: poll.splits option.splits)
  with poll_frame_tx [OF f] show ?thesis by simp
qed (use assms in \<open>auto simp: create_response_poll_def rbind_Inr_iff split: if_splits\<close>)

lemma drop_tx [simp]: "io_tx (FCGIBody_drop lock b c) = io_tx c"
  by (simp add: FCGIBody_drop_def split: option.split)

lemma close_tx [unwritten]: "Connection_close shutdown c = (res, c') \<Longrightarrow> io_tx c' = io_tx c"
  by (auto simp: Connection_close_def split: sum.splits)

lemma admit_tx:
  assumes "Connection_admit dbg alloc task fill reconnect c = Inr (res, c')"
  shows "io_tx c' = io_tx c \<or> io_tx c' = []"
proof -
  from assms obtain alive c1 where a: "CheckAlive_poll dbg task fill c = Inr (alive, c1)"
    by (auto simp: Connection_admit_def rbind_Inr_iff)
  then have tx: "io_tx c1 = io_tx c" by (auto simp: CheckAlive_poll_def rbind_Inr_iff dest: poll_resp_tx)
  show ?thesis
  proof (cases alive)
    case (Inr ok)
    with assms a tx show ?thesis
      by (cases ok; cases reconnect) (auto simp: Connection_admit_def Let_def)
  qed (use assms a tx in \<open>auto simp: Connection_admit_def Let_def\<close>)
qed

lemma forward_step_whole:
  assumes "forward_step dbg uninit alloc prs status_code mul nl s ok s'" "ok" "whole (io_tx (fst s))"
  shows "whole (io_tx (fst s'))"
  using assms
proof (induction rule: forward_step.induct)
  case (acquire c c' ts)
  then show ?case by (auto simp: Connection_acquire_def split: if_splits)
next
  case (open_ok task fill reconnect sc req dyn_headers c rid len' c' ts us)
  from open_ok(1) show ?case
  proof (cases rule: forward_open_cases)
    case (opened rid1 c1 sending)
    have "whole (io_tx c1)" using admit_tx [OF opened(1)] open_ok(4) by auto
    from run_tx_whole [OF opened(2) head_whole [OF open_ok(2)] this] opened(3) show ?thesis
      by (auto split: sum.splits)
  qed simp
next
  case (open_failed task fill reconnect sc req dyn_headers c e c' clean ts us)
  from open_failed(1) show ?case
  proof (cases rule: forward_open_cases)
    case (refused e')
    with admit_tx [OF refused(1)] open_failed(5) show ?thesis by auto
  next
    case (opened rid1 c1 sending)
    have "whole (io_tx c1)" using admit_tx [OF opened(1)] open_failed(5) by auto
    from run_tx_whole [OF opened(2) head_whole [OF open_failed(2)] this] opened(3) open_failed(3,4)
    show ?thesis by (auto split: sum.splits)
  qed
next
  case (body_ok rid len' p sc c len'' c' ts r us)
  from body_step_whole [OF body_ok(1)] body_ok(3) show ?case by simp
next
  case (body_failed rid len' p sc c e c' clean started r ts us lock)
  from body_step_whole [OF body_failed(1)] body_failed(2-5) show ?case by (simp add: response_drop_alt)
qed (auto simp: response_drop_alt dest: unwritten)

lemma clean_run_whole:
  "forward_run dbg uninit alloc prs status_code mul nl max_req clean s \<Longrightarrow> clean \<Longrightarrow> whole (io_tx (fst s))"
proof (induction rule: forward_run.induct)
  case start
  then show ?case by (simp add: Connection_new_def)
next
  case (step clean s ok s')
  with forward_step_whole [OF step(2)] show ?case by simp
qed


section \<open>A call on a live connection\<close>

text \<open>The stream is quiet and takes what is written: the request is inserted and its head is sent.\<close>

lemma ample_replicate: "ample n (replicate n (Inr (Suc 0)))"
  by (auto simp: ample_def)

lemma admit_quiet:
  "io_rx c = [] \<Longrightarrow> Connection_admit dbg alloc task FillPending reconnect c =
     Inr (Inr (of_nat (alloc (running_requests c) + 1)), c\<lparr>io_waker := Some task,
       running_requests := Slab_insert (alloc (running_requests c)) FCGIRequest_new (running_requests c)\<rparr>)"
  by (simp add: Connection_admit_def CheckAlive_poll_def InnerConnection_poll_resp_def poll_fill_buf_def
    register_io_def Let_def)

definition opened_connection ::
  "(FCGIRequest slots \<Rightarrow> nat) \<Rightarrow> nat \<Rightarrow> bytes \<Rightarrow> InnerConnection \<Rightarrow> InnerConnection" where
  "opened_connection alloc task w c = c\<lparr>io_tx := io_tx c @ w, io_waker := Some task,
     running_requests := Slab_insert (alloc (running_requests c)) FCGIRequest_new (running_requests c)\<rparr>"

lemma forward_open_quiet:
  fixes alloc c mul req dyn_headers
  defines "rid \<equiv> of_nat (alloc (running_requests c) + 1) :: u16"
  defines "w \<equiv> opening_wire mul req dyn_headers rid"
  assumes "io_rx c = []" "list_all (\<lambda>h. \<not> refused mul nl h) (req_headers req)"
    and "list_all kv_ok (request_env mul req dyn_headers)" "ample (length w) sc"
  shows "forward_open dbg uninit alloc mul nl task FillPending reconnect sc req dyn_headers c =
    Inr (Inr (rid, map_option of_nat (forward_len req)), opened_connection alloc task w c)"
proof -
  let ?s = "\<lparr>sent = io_tx c, script = sc\<rparr>"
  have snd: "sends (forward_opening uninit mul nl req dyn_headers rid) w (map_option of_nat (forward_len req))"
    unfolding w_def by (rule opening_sends [OF assms(4,5)])
  have "ample (length w + 0) (script ?s)" using assms(6) by simp
  from sends_ample [OF snd this] obtain s' where
    s': "forward_opening uninit mul nl req dyn_headers rid ?s = (Inr (map_option of_nat (forward_len req)), s')"
    by blast
  from sends_successD [OF snd s'] have "sent s' = io_tx c @ w" by simp
  with s' admit_quiet [OF assms(3), of dbg alloc task reconnect, folded rid_def] show ?thesis
    by (simp add: forward_open_def run_tx_def opened_connection_def)
qed

lemma admit_key:
  assumes "conn_ok m c" "m < 65535" "alloc_ok alloc"
    and "Connection_admit dbg alloc task fill reconnect c = Inr (Inr rid, c')"
  obtains key where "unat rid = Suc key" "key < 65535" "\<not> slot_running c key"
    "conn_slot c' key = Some FCGIRequest_new"
  using assms(4)
proof (cases rule: admit_cases)
  case (1 st c1 d)
  have ok1: "conn_ok m c1" and kept1: "\<And>k. slot_kept (conn_slot c k) (conn_slot c1 k)"
    using poll_resp_ok [OF assms(1) 1(1)] by simp_all
  have ok: "conn_ok m d" using 1(2) ok1 by (auto simp: conn_ok_notify)
  have kept: "slot_kept (conn_slot c k) (conn_slot d k)" for k
    using 1(2) kept1 [of k] by (auto simp: notify_slot intro: slot_kept_trans [OF kept1 slot_kept_notify])
  let ?key = "alloc (running_requests d)"
  note ins = insert_request_ok [OF ok assms(2,3) kept]
  from 1(3) have r: "rid = of_nat (?key + 1)" "c' = insert_request alloc d" by auto
  have "unat (of_nat (?key + 1) :: u16) = ?key + 1" using ins(2) by (intro unat_of_nat_u16) simp
  with r ins show thesis by (intro that [of ?key]) (simp_all add: ins(5))
qed

section \<open>Properties\<close>

text \<open>
  The run of the witnesses: request 1 with a body of 104 bytes is opened; the write of its body stalls
  after the header of the record, and the caller gives up; then request 2, without a body, comes.
\<close>

definition example_post :: HttpRequest where
  "example_post = \<lparr>uri_query = None, req_method = bstr ''PUT'', req_headers = [],
     hint_lower = 104, hint_upper = Some 104\<rparr>"

definition example_get :: HttpRequest where
  "example_get = \<lparr>uri_query = None, req_method = bstr ''GET'', req_headers = [],
     hint_lower = 0, hint_upper = Some 0\<rparr>"

abbreviation example_run :: "bool \<Rightarrow> InnerConnection \<Rightarrow> task list \<Rightarrow> bool" where
  "example_run clean c ts \<equiv> forward_run True (\<lambda>_. 0) least_vacant (\<lambda>b m. Inr (ParseResult.Err, m)) (\<lambda>_. None)
     OnlyFirst Ignore 2 clean (c, ts)"

definition example_stdin :: bytes where
  "example_stdin = [1, 5, 0, 1, 0, 104, 0, 0]"

definition example_opened :: InnerConnection where
  "example_opened = opened_connection least_vacant 1 (opening_wire OnlyFirst example_post [] 1) (Connection_new 2\<lparr>sem := 1\<rparr>)"

definition example_cut :: InnerConnection where
  "example_cut = example_opened\<lparr>sem := 0, io_tx := io_tx example_opened @ example_stdin\<rparr>"

lemma example_simps [simp]:
  "forward_len example_post = Some 104" "forward_len example_get = None"
  "req_headers example_post = []" "req_headers example_get = []"
  by (simp_all add: example_post_def example_get_def forward_len_def)

lemma example_kv_ok:
  "list_all kv_ok (request_env OnlyFirst example_post [])" "list_all kv_ok (request_env OnlyFirst example_get [])"
  by (simp_all add: request_env_def request_meta_def http_env_def kv_ok_def example_post_def example_get_def
    forward_len_def header_get_def bstr_def QUERY_STRING_def REQUEST_METHOD_def CONTENT_LENGTH_def to_decimal.simps)

lemma example_run_opened: "example_run True example_opened [Forwarding 1 (Some 104) (create_response_start 1)]"
proof -
  let ?c = "Connection_new 2\<lparr>sem := 1\<rparr>" and ?w = "opening_wire OnlyFirst example_post [] 1"
  have "Connection_acquire (Connection_new 2) = Ready ?c"
    by (simp add: Connection_acquire_def Connection_new_def)
  from forward_run.step [OF forward_run.start acquire [OF this]] have r: "example_run True ?c [Waiting]" by simp
  have "forward_open True (\<lambda>_. 0) least_vacant OnlyFirst Ignore 1 FillPending (Inr ())
      (replicate (length ?w) (Inr (Suc 0))) example_post [] ?c = Inr (Inr (1, Some 104), example_opened)"
    using forward_open_quiet [of ?c OnlyFirst Ignore example_post "[]" least_vacant
        "replicate (length ?w) (Inr (Suc 0))" True "\<lambda>_. 0" 1 "Inr ()"] example_kv_ok(1)
    by (simp add: ample_replicate Connection_new_def least_vacant_def example_opened_def)
  from open_ok [OF this example_kv_ok(1), of _ _ "[]" "[]"] r forward_run.step [OF r] show ?thesis by simp
qed

lemma example_stdin_header: "Header_write_into (Header_new RecordType.StdIn 1 104) = example_stdin"
  by (simp add: Header_write_into_def Header_new_def align_padding_def put_u16_def example_stdin_def
    VERSION_1_def Let_def)

lemma example_run_cut: "example_run False example_cut [Finished, Waiting]"
proof -
  let ?c = "example_opened\<lparr>io_tx := io_tx example_opened @ example_stdin\<rparr>"
  have r104: "replicate 104 x = x # replicate 103 x" for x :: u8 by (simp flip: replicate_Suc)
  have "send_body_step True (\<lambda>_. 0) 1 104 (Ready (Some (Inr (DataFrame (replicate 104 0)))) :: (unit + body_frame) option poll)
      [Inr 8] example_opened = (Inl Stalled, ?c)"
    by (simp add: send_body_step_def BodyDataFrame_poll_def run_tx_def FCGIWriter_flush_data_chunk.simps
      BUF_LEN_simps MAX_CHUNK_def io_bind_def FCGIWriter_write_whole_buf_def Let_def example_stdin_header r104)
        (simp add: example_stdin_def io_bind_def FCGIWriter_write_whole_buf_def)
  from body_failed [where ts = "[]" and us = "[]" and started = False, OF this refl disjI2 [OF refl]] forward_run.step [OF example_run_opened]
  have "example_run False ?c [Finished]" by (simp add: tx_failed_def response_drop_def)
  moreover have "Connection_acquire ?c = Ready example_cut"
    by (simp add: Connection_acquire_def example_cut_def example_opened_def opened_connection_def Connection_new_def)
  ultimately show ?thesis using forward_run.step acquire by fastforce
qed

text \<open>
  C2. The tasks of \<open>forward\<close> are the clients of the connection: whatever the interleaving of the calls,
  what the stream delivers and what it takes, a state that they bring the connection to is a state of
  the client model, and all that holds of its reachable states holds of the program. In particular
  every permit is free, or held by a call that waits for the mutex, or held by a request in the slab.
\<close>

theorem forward_refines_clients:
  assumes "forward_run dbg uninit alloc prs status_code mul nl max_req clean (c, ts)" "alloc_ok alloc"
  shows "reachable dbg alloc prs status_code max_req (c, map task_client ts) \<and>
    sem c + length (filter (\<lambda>t. t = Waiting) ts) + length (running_requests c) = unat max_req"
proof -
  from run_reachable [OF assms(1)] have r: "reachable dbg alloc prs status_code max_req (c, map task_client ts)"
    by (simp add: task_system_def)
  have "queued (map task_client ts) = length (filter (\<lambda>t. t = Waiting) ts)"
  proof (induction ts)
    case (Cons t ts)
    then show ?case by (cases t) simp_all
  qed simp
  with reachable_ok [OF assms(2) r] r show ?thesis by (auto simp: system_ok_def conn_ok_def)
qed

theorem forward_refines_clients_witness:
  "reachable True least_vacant (\<lambda>b m. Inr (ParseResult.Err, m)) (\<lambda>_. None) 2 (example_cut, [Gone, Queued]) \<and>
    sem example_cut + 1 + length (running_requests example_cut) = 2"
  using forward_refines_clients [OF example_run_cut least_vacant_ok] by simp

text \<open>
  C9. Request ids: the id of a new request is the key of its slab entry plus one, and this never wraps
  around in the 16 bits that the protocol has, so it is never the management id 0; no other call of
  \<open>forward\<close> that is still going on has it.
\<close>

theorem request_ids_do_not_wrap:
  assumes "forward_run dbg uninit alloc prs status_code mul nl max_req clean (c, ts @ Waiting # us)" "alloc_ok alloc"
    and "forward_open dbg uninit alloc mul nl task fill reconnect sc req dyn_headers c = Inr (Inr (rid, len'), c')"
  shows "\<exists>key. unat rid = key + 1 \<and> key < 65535 \<and> conn_slot c' key = Some FCGIRequest_new \<and>
    (\<forall>cl \<in> task_client ` set (ts @ us). key \<notin> set (client_keys cl))"
proof -
  let ?cs = "map task_client (ts @ Waiting # us)"
  have r: "reachable dbg alloc prs status_code max_req (c, ?cs)"
    using run_reachable [OF assms(1)] by (simp add: task_system_def)
  from reachable_ok [OF assms(2) r] obtain m where m: "conn_ok m c" "m + queued ?cs = unat max_req"
    and cl: "list_all (client_ok c) ?cs" by (auto simp: system_ok_def)
  have "unat max_req \<le> 65535" using unat_u16_lt [of max_req] by linarith
  with m(2) have "m < 65535" by simp
  from assms(3) obtain c1 sending where "Connection_admit dbg alloc task fill reconnect c = Inr (Inr rid, c1)"
    and w: "run_tx sc (forward_opening uninit mul nl req dyn_headers rid) c1 = (sending, c')"
    by (auto elim!: forward_open_cases split: sum.splits)
  from admit_key [OF m(1) \<open>m < 65535\<close> assms(2) this(1)] obtain key where
    key: "unat rid = Suc key" "key < 65535" "\<not> slot_running c key" "conn_slot c1 key = Some FCGIRequest_new" .
  from run_tx_frame [OF w] key(4) have "conn_slot c' key = Some FCGIRequest_new" by auto
  moreover have "\<forall>cl \<in> task_client ` set (ts @ us). key \<notin> set (client_keys cl)"
    using cl key(3) by (auto simp: list_all_iff dest: client_running)
  ultimately show ?thesis using key(1,2) by auto
qed

theorem request_ids_do_not_wrap_witness:
  "conn_slot (opened_connection least_vacant 2 (opening_wire OnlyFirst example_get [] 2) example_cut) 1 = Some FCGIRequest_new \<and>
    unat (2 :: u16) = 1 + 1"
proof -
  let ?w = "opening_wire OnlyFirst example_get [] 2"
  have r: "example_run False example_cut ([Finished] @ Waiting # [])" using example_run_cut by simp
  have c: "io_rx example_cut = []" "running_requests example_cut = [(0, FCGIRequest_new)]"
    by (simp_all add: example_cut_def example_opened_def opened_connection_def Connection_new_def
      least_vacant_def Slab_insert_def)
  have k: "least_vacant [(0, FCGIRequest_new)] = 1" by (simp add: least_vacant_def)
  have o: "forward_open True (\<lambda>_. 0) least_vacant OnlyFirst Ignore 2 FillPending (Inr ())
      (replicate (length ?w) (Inr (Suc 0))) example_get [] example_cut =
      Inr (Inr (2, None), opened_connection least_vacant 2 ?w example_cut)"
    using forward_open_quiet [OF c(1) _ example_kv_ok(2), where nl = Ignore and alloc = least_vacant] ample_replicate
    by (simp add: c(2) k)
  from request_ids_do_not_wrap [OF r least_vacant_ok o] show ?thesis by auto
qed

text \<open>
  C5. Framing of the sending side: as long as no write is cut short (by an error of the transport or
  by dropping a call that waits in a write), what is on the stream is a sequence of whole records, in
  every state and whatever the interleaving of the calls; errors of the requests themselves (a refused
  header, a body that is too short) do not break it.
\<close>

theorem clean_runs_send_whole_records:
  assumes "forward_run dbg uninit alloc prs status_code mul nl max_req True (c, ts)"
  shows "\<exists>es. wire_scan (InHead []) (io_tx c) = (InHead [], es)"
  using clean_run_whole [OF assms] by (simp add: whole_def)

theorem clean_runs_send_whole_records_witness:
  "\<exists>es. wire_scan (InHead []) (io_tx example_opened) = (InHead [], es)"
  by (rule clean_runs_send_whole_records [OF example_run_opened])



lemma example_cut_scan:
  "\<exists>es. wire_scan (InHead []) (io_tx example_cut) = (in_body 5 1 104 0, es)"
proof -
  from clean_run_whole [OF example_run_opened] obtain es where
    1: "wire_scan (InHead []) (io_tx example_opened) = (InHead [], es)" by (auto simp: whole_def)
  have 2: "wire_scan (InHead []) example_stdin = (in_body 5 1 104 0, [Head 5])"
    by (simp add: example_stdin_def be16_def)
  show ?thesis using wire_scan_append2 [OF 1 2] by (simp add: example_cut_def)
qed

lemma example_get_length: "length (opening_wire OnlyFirst example_get [] rid) \<le> 104"
proof -
  let ?kv = "kv_wire (request_env OnlyFirst example_get [])"
  have fr: "length (frame rt i p) \<le> 15 + length p" for rt i p
  proof -
    have "unat (padding_length (Header_new rt i (of_nat (length p)))) < 8"
      by (simp add: Header_new_def align_padding_lt)
    then show ?thesis by (simp add: frame_def Let_def)
  qed
  have kv: "length ?kv = 33"
    by (simp add: kv_wire_def request_env_def request_meta_def http_env_def header_get_def pair_wire_def
      NameValuePair_new_def QUERY_STRING_def REQUEST_METHOD_def bstr_def put_len_def example_get_def forward_len_def)
  then have "?kv \<noteq> []" by auto
  with kv have p: "frames RecordType.Params rid ?kv = frame RecordType.Params rid ?kv"
    by (intro frames_small) (simp_all add: MAX_CHUNK_def)
  show ?thesis
    using fr [of RecordType.BeginRequest rid "put_u16 1 @ [KEEP_CONN] @ replicate 5 0"]
      fr [of RecordType.Params rid ?kv] fr [of RecordType.Params rid "[]"] fr [of RecordType.StdIn rid "[]"]
    by (simp add: opening_wire_def item_wire_def stream_wire_def p kv)
qed



text \<open>
  C31. The stream remembers the waker of the last task that polled it, and a call of \<open>forward\<close> polls it to
  see whether the connection is alive. If this call then fails, the stream will wake a task that is gone:
  the tasks that wait for their responses keep their wakers in the slab only, and nobody is left to
  read the stream for them.
\<close>

theorem failed_call_keeps_the_stream:
  assumes "forward_run dbg uninit alloc prs status_code mul nl max_req clean (c, ts @ Waiting # us)" "alloc_ok alloc"
    and "io_rx c = []" "list_all kv_ok (request_env mul req dyn_headers)"
    and "forward_open dbg uninit alloc mul nl task FillPending reconnect sc req dyn_headers c = Inr (Inl e, c')"
  shows "forward_run dbg uninit alloc prs status_code mul nl max_req (clean \<and> \<not> tx_failed sc e) (c', ts @ Finished # us) \<and>
    io_waker c' = Some task \<and> woken c' = woken c \<and>
    (\<forall>k q. conn_slot c k = Some q \<longrightarrow> conn_slot c' k = Some q)"
proof -
  from forward_run.step [OF assms(1) open_failed [OF assms(5,4) refl]]
  have run: "forward_run dbg uninit alloc prs status_code mul nl max_req (clean \<and> \<not> tx_failed sc e) (c', ts @ Finished # us)" .
  let ?cs = "map task_client (ts @ Waiting # us)"
  from run_reachable [OF assms(1)] reachable_ok [OF assms(2), of dbg prs status_code max_req "(c, ?cs)"]
  obtain m where m: "conn_ok m c" "m + queued ?cs = unat max_req" by (auto simp: task_system_def system_ok_def)
  have "unat max_req \<le> 65535" using unat_u16_lt [of max_req] by linarith
  with m have "length (running_requests c) < 65535" by (simp add: conn_ok_def)
  with assms(2) have v: "Slab_get (running_requests c) (alloc (running_requests c)) = None" by (simp add: alloc_ok_def)
  from assms(5) show ?thesis
  proof (cases rule: forward_open_cases)
    case (refused e')
    with admit_quiet [OF assms(3), of dbg alloc task reconnect] show ?thesis by simp
  next
    case (opened rid c1 sending)
    from run_tx_frame [OF opened(2)] opened(1) admit_quiet [OF assms(3), of dbg alloc task reconnect] obtain t where
      "c' = c\<lparr>io_waker := Some task, running_requests := Slab_insert (alloc (running_requests c)) FCGIRequest_new
         (running_requests c), io_tx := t\<rparr>" by auto
    with v have "io_waker c' = Some task \<and> woken c' = woken c \<and> (\<forall>k q. conn_slot c k = Some q \<longrightarrow> conn_slot c' k = Some q)"
      by (auto simp: conn_slot_def slab_simps)
    with run show ?thesis by blast
  qed
qed


theorem failed_call_keeps_the_stream_witness:
  "\<exists>c'. example_run False c' [Forwarding 1 (Some 104) (create_response_start 1), Finished] \<and>
    io_waker c' = Some 2 \<and> woken c' = [] \<and> conn_slot c' 0 = Some FCGIRequest_new"
proof -
  let ?c = "example_opened\<lparr>sem := 0\<rparr>" and ?t = "Forwarding 1 (Some 104) (create_response_start 1)"
  have "Connection_acquire example_opened = Ready ?c"
    by (simp add: Connection_acquire_def example_opened_def opened_connection_def Connection_new_def)
  from forward_run.step [OF example_run_opened acquire [OF this]]
  have r: "example_run True ?c ([?t] @ Waiting # [])" by simp
  have rx: "io_rx ?c = []" and s: "conn_slot ?c 0 = Some FCGIRequest_new" and w: "woken ?c = []"
    by (simp_all add: example_opened_def opened_connection_def Connection_new_def conn_slot_def Slab_get_def
      least_vacant_def Slab_insert_def)
  have st: "\<exists>s'. forward_opening (\<lambda>_. 0) OnlyFirst Ignore example_get [] rid \<lparr>sent = t, script = []\<rparr> = (Inl Stalled, s')" for rid t
    by (simp add: forward_opening_def forward_head_def io_bind_def FCGIWriter_encode_def
      FCGIWriter_write_whole_buf_def Header_write_into_def)
  have "\<exists>c'. run_tx [] (forward_opening (\<lambda>_. 0) OnlyFirst Ignore example_get [] rid) c1 = (Inl Stalled, c')" for rid c1
    using st [of rid "io_tx c1"] by (auto simp: run_tx_def)
  from this obtain c' where o: "forward_open True (\<lambda>_. 0) least_vacant OnlyFirst Ignore 2 FillPending (Inr ()) [] example_get [] ?c =
      Inr (Inl Stalled, c')"
    using admit_quiet [OF rx, of True least_vacant 2 "Inr ()"] unfolding forward_open_def by (simp, metis (no_types, lifting) case_prod_conv old.sum.simps(5))
  from failed_call_keeps_the_stream [OF r least_vacant_ok rx example_kv_ok(2) o] s w show ?thesis
    by (intro exI [of _ c']) (simp add: tx_failed_def)
qed

end
