(* ===== verification/Forward_Complete.thy ===== *)
theory Forward_Complete
  imports Forward_Invariants
begin

text \<open>
  \<open>src/client/connection.rs\<close>: a call of \<open>forward\<close> that nothing goes wrong with, step by step.

  The steps of the task (the opening under the mutex, one step per piece of the body, the end) put the
  same bytes on the shared stream as the linear reading of the code (\<open>forward_write\<close>), behind whatever
  other calls have written before, for every division of the body and of the writes.
\<close>

section \<open>The body, piece by piece\<close>

lemma ample_mono: "ample n sc \<Longrightarrow> k \<le> n \<Longrightarrow> ample k sc"
  by (simp add: ample_def)

lemma ample_each: "n \<le> m \<Longrightarrow> 0 < k \<Longrightarrow> ample n (replicate m (Inr k))"
  by (auto simp: ample_def gr0_conv_Suc)

lemma run_tx_sends:
  assumes "sends m w x" "ample (length w) sc"
  shows "run_tx sc m c = (Inr x, c\<lparr>io_tx := io_tx c @ w\<rparr>)"
proof -
  let ?s = "\<lparr>sent = io_tx c, script = sc\<rparr>"
  have "ample (length w + 0) (script ?s)" using assms(2) by simp
  from sends_ample [OF assms(1) this] obtain s' where s': "m ?s = (Inr x, s')" by blast
  with sends_successD [OF assms(1) s'] show ?thesis by (simp add: run_tx_def)
qed

definition data_poll :: "bytes \<Rightarrow> (unit + body_frame) option poll" where
  "data_poll v = Ready (Some (Inr (DataFrame v)))"

lemma send_piece:
  assumes "length v \<le> unat len'" "ample (length (frames RecordType.StdIn rid v)) sc"
  shows "send_body_step dbg uninit rid len' (data_poll v) sc c =
    (Inr (Some (len' - of_nat (length v))), c\<lparr>io_tx := io_tx c @ frames RecordType.StdIn rid v\<rparr>)"
proof (cases "v = []")
  case True
  then show ?thesis by (simp add: send_body_step_def data_poll_def BodyDataFrame_poll_def)
next
  case False
  from run_tx_sends [OF sends_bind_return [OF flush_nonempty [OF False], where g = "\<lambda>_. Some (len' - of_nat (length v))"]
      assms(2), of c]
  show ?thesis using assms(1) False
    by (simp add: send_body_step_def data_poll_def BodyDataFrame_poll_def Let_def)
qed

lemma send_end:
  assumes "ample (length (frame RecordType.StdIn rid [])) sc"
  shows "send_body_step dbg uninit rid 0 (Ready None :: (unit + body_frame) option poll) sc c =
    (Inr None, c\<lparr>io_tx := io_tx c @ frame RecordType.StdIn rid []\<rparr>)"
  using run_tx_sends [OF sends_bind_return [OF flush_end, where g = "\<lambda>_. None"] assms, of c]
  by (simp add: send_body_step_def BodyDataFrame_poll_def)

section \<open>The body, polled\<close>

text \<open>
  The futures of \<open>send_body\<close>, one poll of the body after the other, each with what the stream takes during
  it: the pieces, then the end.
\<close>

fun send_polls ::
  "bool \<Rightarrow> (nat \<Rightarrow> u8) \<Rightarrow> u16 \<Rightarrow> ((unit + body_frame) option poll \<times> (IoError + nat) list) list \<Rightarrow>
     usize option \<Rightarrow> InnerConnection \<Rightarrow> (fail + usize option) \<times> InnerConnection" where
  "send_polls dbg uninit rid (ps # pss) (Some len') con =
     (case send_body_step dbg uninit rid len' (fst ps) (snd ps) con of
        (Inl e, con) \<Rightarrow> (Inl e, con)
      | (Inr len'', con) \<Rightarrow> send_polls dbg uninit rid pss len'' con)"
| "send_polls dbg uninit rid [] (Some len') con = (Inr (Some len'), con)"
| "send_polls dbg uninit rid pss None con = (Inr None, con)"

definition body_polls ::
  "(bytes \<times> (IoError + nat) list) list \<Rightarrow> (IoError + nat) list \<Rightarrow>
     ((unit + body_frame) option poll \<times> (IoError + nat) list) list" where
  "body_polls pieces sc = map (\<lambda>(v, sc). (data_poll v, sc)) pieces @ [(Ready None, sc)]"

text \<open>The pieces of the body have the announced length; without one there are none.\<close>

definition body_fits :: "HttpRequest \<Rightarrow> bytes list \<Rightarrow> bool" where
  "body_fits req vs \<longleftrightarrow> (case forward_len req of None \<Rightarrow> vs = [] | Some n \<Rightarrow> length (concat vs) = n \<and> n < 2 ^ 64)"

definition pieces_taken :: "u16 \<Rightarrow> (bytes \<times> (IoError + nat) list) list \<Rightarrow> (IoError + nat) list \<Rightarrow> bool" where
  "pieces_taken rid pieces sc \<longleftrightarrow>
     list_all (\<lambda>(v, sc). ample (length (frames RecordType.StdIn rid v)) sc) pieces \<and>
     ample (length (frame RecordType.StdIn rid [])) sc"

lemma send_polls_pieces:
  assumes "length (concat (map fst pieces)) = unat len'" "pieces_taken rid pieces sc"
  shows "send_polls dbg uninit rid (body_polls pieces sc) (Some len') con =
      (Inr None, con\<lparr>io_tx := io_tx con @ body_wire rid (map fst pieces) @ frame RecordType.StdIn rid []\<rparr>)"
  using assms
proof (induction pieces arbitrary: len' con)
  case Nil
  then have "len' = 0" by (simp add: unat_eq_zero)
  with Nil.prems(2) send_end [of rid sc dbg uninit con] show ?case by (simp add: body_polls_def pieces_taken_def)
next
  case (Cons p pieces)
  obtain v scv where p: "p = (v, scv)" by (cases p)
  let ?con = "con\<lparr>io_tx := io_tx con @ frames RecordType.StdIn rid v\<rparr>" and ?len = "len' - of_nat (length v)"
  from Cons.prems(1) have le: "length v \<le> unat len'" by (simp add: p)
  have am: "ample (length (frames RecordType.StdIn rid v)) scv" "pieces_taken rid pieces sc"
    using Cons.prems(2) by (simp_all add: pieces_taken_def p)
  have "length (concat (map fst pieces)) = unat ?len" using Cons.prems(1) unat_minus_of_nat [OF le] by (simp add: p)
  from Cons.IH [OF this am(2), of ?con] send_piece [OF le am(1), of dbg uninit con] show ?case
    by (simp add: body_polls_def p)
qed

lemma forward_sends:
  fixes alloc c
  defines "rid \<equiv> of_nat (alloc (running_requests c) + 1) :: u16"
  assumes "io_rx c = []" "list_all (\<lambda>h. \<not> refused mul nl h) (req_headers req)"
    and "list_all kv_ok (request_env mul req dyn_headers)" "body_fits req (map fst pieces)"
    and "ample (length (opening_wire mul req dyn_headers rid)) sc" "forward_len req \<noteq> None \<Longrightarrow> pieces_taken rid pieces sc'"
  shows "\<exists>c1. forward_open dbg uninit alloc mul nl task FillPending reconnect sc req dyn_headers c =
      Inr (Inr (rid, map_option of_nat (forward_len req)), c1) \<and>
    send_polls dbg uninit rid (body_polls pieces sc') (map_option of_nat (forward_len req)) c1 =
      (Inr None, opened_connection alloc task (request_wire mul req dyn_headers rid (map fst pieces)) c)"
proof -
  let ?w = "opening_wire mul req dyn_headers rid"
  let ?c = "opened_connection alloc task ?w c"
  have o: "forward_open dbg uninit alloc mul nl task FillPending reconnect sc req dyn_headers c =
      Inr (Inr (rid, map_option of_nat (forward_len req)), ?c)"
    using forward_open_quiet [OF assms(2-4), of alloc sc dbg uninit task reconnect] assms(6) by (simp add: rid_def)
  show ?thesis
  proof (cases "forward_len req")
    case None
    with assms(5) have "pieces = []" by (simp add: body_fits_def)
    then have "?w = request_wire mul req dyn_headers rid (map fst pieces)"
      by (simp add: opening_wire_def request_wire_def None)
    with o None show ?thesis by auto
  next
    case (Some n)
    with assms(5) have n: "length (concat (map fst pieces)) = n" "n < 2 ^ 64" by (simp_all add: body_fits_def)
    from n(2) have "unat (of_nat n :: usize) = n" by (simp add: unat_of_nat take_bit_nat_eq_self)
    with n(1) send_polls_pieces [of pieces "of_nat n" rid sc' dbg uninit ?c] assms(7) o Some show ?thesis
      by (simp add: opened_connection_def opening_wire_def request_wire_def)
  qed
qed

lemma send_polls_steps:
  "send_polls dbg uninit rid pss len' con = (Inr l, con') \<Longrightarrow>
     (\<lambda>s s'. forward_step dbg uninit alloc prs status_code mul nl s True s')\<^sup>*\<^sup>*
       (con, ts @ Forwarding rid len' r # us) (con', ts @ Forwarding rid l r # us)"
proof (induction dbg uninit rid pss len' con rule: send_polls.induct)
  case (1 dbg uninit rid ps pss len' con)
  from "1.prems" obtain l1 con1 where 1: "send_body_step dbg uninit rid len' (fst ps) (snd ps) con = (Inr l1, con1)"
    "send_polls dbg uninit rid pss l1 con1 = (Inr l, con')" by (auto split: prod.splits sum.splits)
  from body_ok [OF 1(1)] "1.IH" [OF 1(1) [symmetric] refl 1(2)] show ?case
    by (rule converse_rtranclp_into_rtranclp)
qed simp_all

lemma forward_run_steps:
  "(\<lambda>s s'. forward_step dbg uninit alloc prs status_code mul nl s True s')\<^sup>*\<^sup>* s s' \<Longrightarrow>
     forward_run dbg uninit alloc prs status_code mul nl max_req clean s \<Longrightarrow>
     forward_run dbg uninit alloc prs status_code mul nl max_req clean s'"
proof (induction rule: rtranclp_induct)
  case (step s1 s2)
  from forward_run.step [OF step(3) [OF step(4)] step(2)] show ?case by simp
qed

section \<open>Properties\<close>

text \<open>
  C12. A request gets out. Let a call have its permit in a run of the task model, with nothing unread on the stream and
  nothing to read, no header that the strategies refuse, variables of at most \<open>0x7fffffff\<close> bytes, and a body of
  exactly the announced length (less than \<open>2\<^sup>6\<^sup>4\<close>; no pieces when none is announced). Whatever the stream
  takes at a time, as long as it goes on taking, and whatever the pieces of the body: \<open>forward_open\<close> gives the request
  its id, the polls of \<open>send_body\<close> come to the end of the body, and these are steps of the model that lead from the given
  state to one where the call only awaits its response. What they add to the stream is exactly the request.
\<close>

theorem forward_sends_request:
  assumes "forward_run dbg uninit alloc prs status_code mul nl max_req clean (c, ts @ Waiting # us)" "io_rx c = []"
    and "list_all (\<lambda>h. \<not> refused mul nl h) (req_headers req)" "list_all kv_ok (request_env mul req dyn_headers)"
    and "body_fits req (map fst pieces)"
    and "rid = of_nat (alloc (running_requests c) + 1)"
    and "ample (length (opening_wire mul req dyn_headers rid)) sc" "pieces_taken rid pieces sc'"
  shows "\<exists>c1 c2. forward_open dbg uninit alloc mul nl task FillPending reconnect sc req dyn_headers c =
      Inr (Inr (rid, map_option of_nat (forward_len req)), c1) \<and>
    send_polls dbg uninit rid (body_polls pieces sc') (map_option of_nat (forward_len req)) c1 = (Inr None, c2) \<and>
    (\<lambda>s s'. forward_step dbg uninit alloc prs status_code mul nl s True s')\<^sup>*\<^sup>*
      (c, ts @ Waiting # us) (c2, ts @ Forwarding rid None (create_response_start rid) # us) \<and>
    forward_run dbg uninit alloc prs status_code mul nl max_req clean
      (c2, ts @ Forwarding rid None (create_response_start rid) # us) \<and>
    io_tx c2 = io_tx c @ request_wire mul req dyn_headers rid (map fst pieces)"
proof -
  let ?c2 = "opened_connection alloc task (request_wire mul req dyn_headers rid (map fst pieces)) c"
  obtain c1 where 1: "forward_open dbg uninit alloc mul nl task FillPending reconnect sc req dyn_headers c =
      Inr (Inr (rid, map_option of_nat (forward_len req)), c1)"
    "send_polls dbg uninit rid (body_polls pieces sc') (map_option of_nat (forward_len req)) c1 = (Inr None, ?c2)"
    using forward_sends [OF assms(2-5), of alloc sc sc' dbg uninit task reconnect] assms(6-8) by blast
  have s: "(\<lambda>s s'. forward_step dbg uninit alloc prs status_code mul nl s True s')\<^sup>*\<^sup>*
      (c, ts @ Waiting # us) (?c2, ts @ Forwarding rid None (create_response_start rid) # us)"
    by (rule converse_rtranclp_into_rtranclp [OF open_ok [OF 1(1) assms(4)] send_polls_steps [OF 1(2)]])
  with 1 forward_run_steps [OF s assms(1)] show ?thesis by (auto simp: opened_connection_def)
qed

text \<open>The head goes out byte by byte, the body in writes of three and of fifty bytes.\<close>

theorem forward_sends_request_witness:
  "\<exists>c1 c2. forward_open True (\<lambda>_. 0) least_vacant OnlyFirst Ignore 1 FillPending (Inr ())
      (replicate (length (opening_wire OnlyFirst example_post [] 1)) (Inr 1)) example_post [] (Connection_new 2\<lparr>sem := 1\<rparr>) =
      Inr (Inr (1, Some 104), c1) \<and>
    send_polls True (\<lambda>_. 0) 1 (body_polls [(replicate 100 7, replicate 200 (Inr 3)), ([], []),
      (replicate 4 8, replicate 20 (Inr 50))] (replicate 8 (Inr 1))) (Some 104) c1 = (Inr None, c2) \<and>
    example_run True c2 [Forwarding 1 None (create_response_start 1)] \<and>
    io_tx c2 = request_wire OnlyFirst example_post [] 1 [replicate 100 7, [], replicate 4 8]"
proof -
  let ?c = "Connection_new 2\<lparr>sem := 1\<rparr>"
  let ?pieces = "[(replicate 100 7, replicate 200 (Inr 3)), ([], []), (replicate 4 8, replicate 20 (Inr 50))]
    :: (bytes \<times> (IoError + nat) list) list"
  let ?w = "opening_wire OnlyFirst example_post [] 1"
  have "Connection_acquire (Connection_new 2) = Ready ?c"
    by (simp add: Connection_acquire_def Connection_new_def)
  from forward_run.step [OF forward_run.start acquire [OF this]]
  have r: "example_run True ?c ([] @ Waiting # [])" by simp
  have c: "io_rx ?c = []" "io_tx ?c = []" "(1 :: u16) = of_nat (least_vacant (running_requests ?c) + 1)"
    by (simp_all add: Connection_new_def least_vacant_def)
  have h: "list_all (\<lambda>h. \<not> refused OnlyFirst Ignore h) (req_headers example_post)" by simp
  have l: "body_fits example_post (map fst ?pieces)" by (simp add: body_fits_def)
  have a: "ample (length ?w) (replicate (length ?w) (Inr 1))" using ample_replicate [of "length ?w"] by simp
  have t: "pieces_taken 1 ?pieces (replicate 8 (Inr 1))"
    by (simp add: pieces_taken_def frames_small MAX_CHUNK_def ample_each ample_def [of 0] frame_def Let_def Header_write_into_def
      Header_new_def align_padding_def put_u16_def)
  from forward_sends_request [OF r c(1) h example_kv_ok(1) l c(3) a t, of 1 "Inr ()"] c(2) show ?thesis by auto
qed

end
