(* ===== verification/Response_Order.thy ===== *)
theory Response_Order
  imports Connection_System
begin

text \<open>
  \<open>src/client/connection.rs\<close>: a response body from its first to its last fragment.

  \<open>body_run\<close> follows one body while everything else on the connection goes on: its own polls, and
  whatever other tasks do to the connection. The theorem: the bytes handed out are the standard output
  of the request on the stream, in order, without loss and without bytes of others.
\<close>

section \<open>What a poll reads\<close>

text \<open>The bytes that one poll of the stream consumed, and what the scanner finds in them.\<close>

definition consumed :: "fill \<Rightarrow> InnerConnection \<Rightarrow> InnerConnection \<Rightarrow> bytes" where
  "consumed fill c c' =
     (case poll_fill_buf fill (io_rx c) of FillData d \<Rightarrow> take (length d - length (io_rx c')) d | _ \<Rightarrow> [])"

definition read_events :: "fill \<Rightarrow> InnerConnection \<Rightarrow> InnerConnection \<Rightarrow> event list" where
  "read_events fill c c' = snd (wire_scan (reader_abs (fcgi_parser c)) (consumed fill c c'))"

text \<open>A poll that finds the stream closed or broken; and the trace of the end of a request.\<close>

definition read_lost :: "bool \<Rightarrow> nat \<Rightarrow> fill \<Rightarrow> InnerConnection \<Rightarrow> bool" where
  "read_lost dbg task fill c =
     (case InnerConnection_poll_resp dbg task fill c of
        Inr (Ready None, _) \<Rightarrow> True | Inr (Ready (Some (Inl _)), _) \<Rightarrow> True | _ \<Rightarrow> False)"

definition end_on_wire :: "nat \<Rightarrow> event list \<Rightarrow> bool" where
  "end_on_wire k es \<longleftrightarrow> (\<exists>rid b. Content 3 rid b \<in> set es \<and> rid \<noteq> 0 \<and> unat (rid - 1) = k)"

lemma end_on_wire_simps [simp]:
  "\<not> end_on_wire k []" "end_on_wire k (es @ fs) \<longleftrightarrow> end_on_wire k es \<or> end_on_wire k fs"
  by (auto simp: end_on_wire_def)

lemma ends_on_wire: "ends k rs \<Longrightarrow> list_all (end_seen es) rs \<Longrightarrow> end_on_wire k es"
  by (fastforce simp: ends_def list_all_iff end_seen_def end_on_wire_def for_request_def)

lemma read_events_cong: "io_rx c' = io_rx d \<Longrightarrow> read_events fill c c' = read_events fill c d"
  by (simp only: read_events_def consumed_def)

lemma BufList_wf_append [simp]: "BufList_wf (xs @ ys) \<longleftrightarrow> BufList_wf xs \<and> BufList_wf ys"
  by (auto simp: BufList_wf_def)

lemma stdout_of_wf: "BufList_wf (stdout_of k rs)"
proof (induction rs)
  case Nil
  show ?case by (simp add: stdout_of_def)
next
  case (Cons r rs)
  then show ?case by (cases "body r") (simp_all add: stdout_of_def)
qed

text \<open>
  A running request, as the connection is driven: it gets its bytes, and it ends only when its end is
  on the wire or the connection is lost.
\<close>

definition grows :: "nat \<Rightarrow> event list \<Rightarrow> bool \<Rightarrow> InnerConnection \<Rightarrow> InnerConnection \<Rightarrow> bool" where
  "grows k es lost c c' \<longleftrightarrow>
     (\<forall>q. conn_slot c k = Some q \<and> \<not> rq_aborted q \<and> BufList_wf (rq_buf q) \<longrightarrow>
        (\<exists>q'. conn_slot c' k = Some q' \<and> \<not> rq_aborted q' \<and> BufList_wf (rq_buf q') \<and>
          concat (rq_buf q') = concat (rq_buf q) @ stdout_bytes k (stream_content es) \<and>
          (rq_ended q' \<longrightarrow> rq_ended q \<or> end_on_wire k es \<or> lost)))"

lemma grows_same: "conn_slot c' k = conn_slot c k \<Longrightarrow> grows k [] lost c c'"
  by (simp add: grows_def stdout_bytes_def)

lemma grows_trans:
  assumes "grows k es l c c1" "grows k fs m c1 c2"
  shows "grows k (es @ fs) (l \<or> m) c c2"
  unfolding grows_def
proof (intro allI impI)
  fix q assume "conn_slot c k = Some q \<and> \<not> rq_aborted q \<and> BufList_wf (rq_buf q)"
  with assms(1) obtain q1 where 1: "conn_slot c1 k = Some q1" "\<not> rq_aborted q1" "BufList_wf (rq_buf q1)"
    "concat (rq_buf q1) = concat (rq_buf q) @ stdout_bytes k (stream_content es)"
    "rq_ended q1 \<longrightarrow> rq_ended q \<or> end_on_wire k es \<or> l" unfolding grows_def by blast
  with assms(2) obtain q2 where "conn_slot c2 k = Some q2" "\<not> rq_aborted q2" "BufList_wf (rq_buf q2)"
    "concat (rq_buf q2) = concat (rq_buf q1) @ stdout_bytes k (stream_content fs)"
    "rq_ended q2 \<longrightarrow> rq_ended q1 \<or> end_on_wire k fs \<or> m" unfolding grows_def by blast
  with 1 show "\<exists>q'. conn_slot c2 k = Some q' \<and> \<not> rq_aborted q' \<and> BufList_wf (rq_buf q') \<and>
      concat (rq_buf q') = concat (rq_buf q) @ stdout_bytes k (stream_content (es @ fs)) \<and>
      (rq_ended q' \<longrightarrow> rq_ended q \<or> end_on_wire k (es @ fs) \<or> l \<or> m)" by auto
qed

lemma grows_notify: "grows k [] True c (InnerConnection_notify_everyone c)"
  by (auto simp: grows_def notify_slot notify_request_def Let_def stdout_bytes_def)

lemma parse_grows:
  assumes "InnerConnection_parse_and_distribute dbg data c = Inr (rest, c')"
  shows "\<exists>used es. data = used @ rest \<and>
    wire_scan (reader_abs (fcgi_parser c)) used = (reader_abs (fcgi_parser c'), es) \<and> grows k es False c c'"
proof -
  from parse_InrD [OF assms] obtain rs where d: "RecordReader_drain (fcgi_parser c) data = Inr (rs, fcgi_parser c', rest)"
    and s: "conn_slot c' = (\<lambda>k. run_slot k rs (conn_slot c k))" by blast
  from drain_sound [OF d] obtain used es where u: "data = used @ rest"
    "wire_scan (reader_abs (fcgi_parser c)) used = (reader_abs (fcgi_parser c'), es)"
    "stream_content es = concat (map record_content rs)" "list_all (end_seen es) rs" by blast
  have out: "concat (stdout_of k rs) = stdout_bytes k (stream_content es)"
    using concat_stdout_of [OF drain_typed [OF d], of k] u(3) by simp
  have "grows k es False c c'"
    unfolding grows_def
  proof (intro allI impI)
    fix q assume q: "conn_slot c k = Some q \<and> \<not> rq_aborted q \<and> BufList_wf (rq_buf q)"
    then obtain q' where q': "run_slot k rs (Some q) = Some q'" using run_slot_Some by blast
    from run_slot_running [OF _ this] q out q' s stdout_of_wf [of k rs] ends_on_wire [OF _ u(4), of k]
    show "\<exists>q'. conn_slot c' k = Some q' \<and> \<not> rq_aborted q' \<and> BufList_wf (rq_buf q') \<and>
        concat (rq_buf q') = concat (rq_buf q) @ stdout_bytes k (stream_content es) \<and>
        (rq_ended q' \<longrightarrow> rq_ended q \<or> end_on_wire k es \<or> False)" by auto
  qed
  with u show ?thesis by blast
qed

lemma grows_cong:
  "grows k es l c c' \<Longrightarrow> conn_slot d k = conn_slot c k \<Longrightarrow> conn_slot d' k = conn_slot c' k \<Longrightarrow> grows k es l d d'"
  by (simp add: grows_def)

lemma poll_resp_grows:
  assumes "InnerConnection_poll_resp dbg task fill c = Inr (st, c')"
  shows "grows k (read_events fill c c') (read_lost dbg task fill c) c c'"
  using assms
proof (cases rule: poll_resp_cases)
  case pending
  then show ?thesis by (simp add: read_events_def consumed_def grows_same)
next
  case (error e)
  have "grows k [] True c (InnerConnection_notify_everyone (register_io task fill c))"
    by (rule grows_cong [OF grows_notify [of k "register_io task fill c"]]) simp_all
  with error assms show ?thesis by (simp add: read_events_def consumed_def read_lost_def)
next
  case closed
  have "grows k [] True c (InnerConnection_notify_everyone (register_io task fill c\<lparr>io_rx := []\<rparr>))"
    by (rule grows_cong [OF grows_notify [of k "register_io task fill c\<lparr>io_rx := []\<rparr>"]]) simp_all
  with closed assms show ?thesis by (simp add: read_events_def consumed_def read_lost_def)
next
  case (stuck rbuf c1)
  from parse_grows [OF stuck(4), of k] have g: "grows k [] False c c1" by (auto intro: grows_cong)
  have "io_rx c1 = rbuf" using stuck(4) by (auto elim: parse_InrD)
  with stuck assms grows_trans [OF g grows_notify] show ?thesis by (simp add: read_events_def consumed_def read_lost_def)
next
  case (data rbuf rest c1)
  from parse_grows [OF data(3), of k] obtain used es where u: "rbuf = used @ rest"
    "wire_scan (reader_abs (fcgi_parser c)) used = (reader_abs (fcgi_parser c1), es)"
    and g: "grows k es False (register_io task fill c\<lparr>io_rx := rbuf\<rparr>) c1" by auto
  have "grows k es False c (c1\<lparr>io_rx := rest\<rparr>)" by (rule grows_cong [OF g]) simp_all
  with data u assms show ?thesis by (simp add: read_events_def consumed_def read_lost_def)
qed

section \<open>One body among others\<close>

text \<open>
  \<open>others_step k\<close>: what the other tasks can do to the slot \<open>k\<close> and to the reader: drive the connection,
  work on other slots, end everyone, reconnect. Every operation of another task is a sequence of these.
\<close>

inductive others_step :: "bool \<Rightarrow> nat \<Rightarrow> InnerConnection \<Rightarrow> event list \<Rightarrow> bool \<Rightarrow> InnerConnection \<Rightarrow> bool" for dbg k where
  drives: "InnerConnection_poll_resp dbg task fill c = Inr (st, c') \<Longrightarrow>
    others_step dbg k c (read_events fill c c') (read_lost dbg task fill c) c'"
| elsewhere: "conn_slot c' k = conn_slot c k \<Longrightarrow> fcgi_parser c' = fcgi_parser c \<Longrightarrow> io_rx c' = io_rx c \<Longrightarrow>
    others_step dbg k c [] False c'"
| notifies: "others_step dbg k c [] True (InnerConnection_notify_everyone c)"
| reconnects: "others_step dbg k c [] False
    (c\<lparr>io_rx := [], io_tx := [], io_waker := None, fcgi_parser := RecordReader_new\<rparr>)"

inductive others_run :: "bool \<Rightarrow> nat \<Rightarrow> InnerConnection \<Rightarrow> event list \<Rightarrow> bool \<Rightarrow> InnerConnection \<Rightarrow> bool" for dbg k where
  none: "others_run dbg k c [] False c"
| more: "others_step dbg k c es l c1 \<Longrightarrow> others_run dbg k c1 fs m c2 \<Longrightarrow> others_run dbg k c (es @ fs) (l \<or> m) c2"

lemma others_step_grows: "others_step dbg k c es l c' \<Longrightarrow> grows k es l c c'"
  by (induction rule: others_step.induct) (auto intro: poll_resp_grows grows_same grows_notify)

lemma others_run_grows: "others_run dbg k c es l c' \<Longrightarrow> grows k es l c c'"
  by (induction rule: others_run.induct) (auto intro: grows_same grows_trans others_step_grows)

lemma others_run_one: "others_step dbg k c es l c' \<Longrightarrow> others_run dbg k c es l c'"
  using others_run.more [OF _ others_run.none] by fastforce

lemma others_run_trans:
  "others_run dbg k c es l c1 \<Longrightarrow> others_run dbg k c1 fs m c2 \<Longrightarrow> others_run dbg k c (es @ fs) (l \<or> m) c2"
  by (induction rule: others_run.induct) (simp_all add: others_run.more disj_assoc)

text \<open>A poll of a body, after the stream was polled: only its own slot changes.\<close>

lemma poll_frame_split:
  assumes "FCGIBody_poll_frame dbg True task fill b c = Inr (p, b', c')" "\<not> fb_done b"
  shows "\<exists>st c1. InnerConnection_poll_resp dbg task fill c = Inr (st, c1) \<and>
    fcgi_parser c' = fcgi_parser c1 \<and> io_rx c' = io_rx c1 \<and>
    (\<forall>k. k \<noteq> unat (fb_rid b) \<longrightarrow> conn_slot c' k = conn_slot c1 k)"
proof -
  from assms obtain st c1 where r: "InnerConnection_poll_resp dbg task fill c = Inr (st, c1)"
    by (auto simp: FCGIBody_poll_frame_def rbind_Inr_iff)
  note e = assms(1) [unfolded FCGIBody_poll_frame_def r rbind.simps prod.case Let_def]
  let ?k = "unat (fb_rid b)" and ?rr = "running_requests c1"
  have "c' = c1 \<or> (\<exists>v. c' = c1\<lparr>running_requests := Slab_put ?k v ?rr\<rparr> \<and> Slab_get ?rr ?k \<noteq> None) \<or>
    (\<exists>n. c' = c1\<lparr>running_requests := Slab_delete ?k ?rr, sem := n\<rparr>) \<or>
    (\<exists>n v. c' = c1\<lparr>running_requests := Slab_delete ?k (Slab_put ?k v ?rr), sem := n\<rparr> \<and> Slab_get ?rr ?k \<noteq> None)"
  proof (cases "Slab_get ?rr ?k")
    case None
    with e assms(2) show ?thesis by simp
  next
    case (Some q)
    note e = e [unfolded Some option.case]
    show ?thesis
    proof (cases "BufList_remaining (rq_buf q) \<ge> 1")
      case True
      obtain od rest where o: "BufList_oldest (rq_buf q) = (od, rest)" by (cases "BufList_oldest (rq_buf q)")
      show ?thesis
      proof (cases od)
        case None
        with e assms(2) True o show ?thesis by simp
      next
        case Some
        with e assms(2) True o \<open>Slab_get ?rr ?k = Some q\<close> show ?thesis
          by (cases "fb_was_returned b \<and> rq_ended q \<and> BufList_remaining rest < 1")
            (auto simp: rbind_Inr_iff dest!: Slab_remove_InrD)
      qed
    next
      case False
      with e assms(2) Some show ?thesis
        by (cases "rq_ended q"; cases "fb_was_returned b") (auto simp: rbind_Inr_iff dest!: Slab_remove_InrD)
    qed
  qed
  with r show ?thesis by (auto simp: conn_slot_def slab_simps)
qed

lemma others_poll_frame:
  assumes "FCGIBody_poll_frame dbg lock task fill b c = Inr (p, b', c')" "unat (fb_rid b) \<noteq> k"
  shows "\<exists>es l. others_run dbg k c es l c'"
proof (cases "lock \<and> \<not> fb_done b")
  case True
  with assms(1) obtain st c1 where "InnerConnection_poll_resp dbg task fill c = Inr (st, c1)"
    "fcgi_parser c' = fcgi_parser c1" "io_rx c' = io_rx c1" "conn_slot c' k = conn_slot c1 k"
    using poll_frame_split [of dbg task fill b c p b' c'] assms(2) by fastforce
  then show ?thesis
    using others_run_trans [OF others_run_one [OF drives] others_run_one [OF elsewhere]] by blast
next
  case False
  with assms(1) poll_frame_idle have "c' = c" by (cases "fb_done b") auto
  then show ?thesis using others_run.none by blast
qed

lemma others_create_response:
  assumes "create_response_poll prs status_code dbg lock task fill r c = Inr (r', c')"
    and "unat (fb_rid (response_body r)) \<noteq> k"
  shows "\<exists>es l. others_run dbg k c es l c'"
proof (cases r)
  case (Reading b buf m)
  with assms(1) obtain p b' c1 where f: "FCGIBody_poll_frame dbg lock task fill b c = Inr (p, b', c1)"
    and r': "(case p of Pending \<Rightarrow> Inr (Reading b' buf m, c1)
       | Ready None \<Rightarrow> Inr (response_return b' 200 m, c1)
       | Ready (Some d) \<Rightarrow> rbind (create_response_fragment prs status_code b' buf m d) (\<lambda>self. Inr (self, c1)))
      = Inr (r', c')"
    by (auto simp: create_response_poll_def rbind_Inr_iff)
  from r' have "c' = c1" by (auto simp: rbind_Inr_iff split: poll.splits option.splits)
  with others_poll_frame [OF f] assms(2) Reading show ?thesis by simp
next
  case (PuttingBack b d m)
  show ?thesis
  proof (cases lock)
    case True
    with assms(1) PuttingBack obtain q v where "Slab_get (running_requests c) (unat (fb_rid b)) = Some q"
      "c' = c\<lparr>running_requests := Slab_put (unat (fb_rid b)) v (running_requests c)\<rparr>"
      by (auto simp: create_response_poll_def rbind_Inr_iff Slab_index_def split: option.splits)
    with assms(2) PuttingBack have "others_step dbg k c [] False c'"
      by (intro elsewhere) (simp_all add: conn_slot_def slab_simps)
    then show ?thesis by (blast intro: others_run_one)
  next
    case False
    with assms(1) PuttingBack have "c' = c" by (simp add: create_response_poll_def)
    then show ?thesis using others_run.none by blast
  qed
next
  case (Returned b st m)
  with assms(1) have "c' = c" by (simp add: create_response_poll_def)
  then show ?thesis using others_run.none by blast
qed

lemma others_drop:
  assumes "unat (fb_rid b) \<noteq> k"
  shows "others_run dbg k c [] False (FCGIBody_drop lock b c)"
  using assms
  by (intro others_run_one elsewhere) (auto simp: FCGIBody_drop_def conn_slot_def slab_simps split: option.split)

lemma others_close: "Connection_close shutdown c = (res, c') \<Longrightarrow> \<exists>l. others_run dbg k c [] l c'"
  by (auto simp: Connection_close_def split: sum.splits intro: others_run.none others_run_one notifies)

lemma others_admit:
  assumes "Connection_admit dbg alloc task fill reconnect c = Inr (res, c')" "\<And>s. Slab_get s (alloc s) = None"
    and "conn_slot c k = Some q" "\<not> rq_aborted q" "BufList_wf (rq_buf q)"
  shows "\<exists>es l. others_run dbg k c es l c'"
  using assms(1)
proof (cases rule: admit_cases)
  case (1 st c1 d)
  let ?n = "InnerConnection_notify_everyone c1"
  from others_run_one [OF drives [OF 1(1)]] obtain es l where es: "others_run dbg k c es l c1" by blast
  have n: "others_run dbg k c1 [] True ?n" by (rule others_run_one [OF notifies])
  have r: "others_run dbg k c1 [] True (?n\<lparr>io_rx := [], io_tx := [], io_waker := None, fcgi_parser := RecordReader_new\<rparr>)"
    using others_run_trans [OF n others_run_one [OF reconnects]] by simp
  from 1(2) obtain m where d: "others_run dbg k c es m d"
    using es others_run_trans [OF es n] others_run_trans [OF es r] by auto
  from others_run_grows [OF d] assms(3-5) obtain q' where q': "conn_slot d k = Some q'" unfolding grows_def by blast
  with assms(2) [of "running_requests d"] have "alloc (running_requests d) \<noteq> k" by (auto simp: conn_slot_def)
  with 1(3) have "others_step dbg k d [] False c'"
    by (intro elsewhere) (auto simp: insert_request_def conn_slot_def slab_simps)
  from others_run_trans [OF d others_run_one [OF this]] show ?thesis by blast
qed

section \<open>The run of a body\<close>

text \<open>
  \<open>body_run dbg c b es out c' b'\<close>: the body \<open>b\<close> on the connection \<open>c\<close> got to \<open>b'\<close> on \<open>c'\<close>; meanwhile the
  reader went over the events \<open>es\<close> (whoever polled), and the polls of the body handed out the bytes \<open>out\<close>.
\<close>

definition frame_bytes :: "bytes option poll \<Rightarrow> bytes" where
  "frame_bytes p = (case p of Ready (Some d) \<Rightarrow> d | _ \<Rightarrow> [])"

inductive body_run ::
  "bool \<Rightarrow> InnerConnection \<Rightarrow> FCGIBody \<Rightarrow> event list \<Rightarrow> bool \<Rightarrow> bytes \<Rightarrow> InnerConnection \<Rightarrow> FCGIBody \<Rightarrow> bool"
  for dbg c b where
  start: "body_run dbg c b [] False [] c b"
| others: "body_run dbg c b es l out c1 b1 \<Longrightarrow> others_step dbg (unat (fb_rid b)) c1 fs m c2 \<Longrightarrow>
    body_run dbg c b (es @ fs) (l \<or> m) out c2 b1"
| waits: "body_run dbg c b es l out c1 b1 \<Longrightarrow> fb_done b1 \<or> \<not> lock \<Longrightarrow>
    FCGIBody_poll_frame dbg lock task fill b1 c1 = Inr (p, b2, c2) \<Longrightarrow>
    body_run dbg c b es l (out @ frame_bytes p) c2 b2"
| reads: "body_run dbg c b es l out c1 b1 \<Longrightarrow> \<not> fb_done b1 \<Longrightarrow>
    FCGIBody_poll_frame dbg True task fill b1 c1 = Inr (p, b2, c2) \<Longrightarrow>
    body_run dbg c b (es @ read_events fill c1 c2) (l \<or> read_lost dbg task fill c1) (out @ frame_bytes p) c2 b2"

text \<open>Other operations of the tasks are sequences of \<open>others_step\<close>.\<close>

lemma body_run_others: "others_run dbg k c1 fs m c2 \<Longrightarrow> k = unat (fb_rid b) \<Longrightarrow> body_run dbg c b es l out c1 b1 \<Longrightarrow>
    body_run dbg c b (es @ fs) (l \<or> m) out c2 b1"
proof (induction arbitrary: es l rule: others_run.induct)
  case (more c es' l' c1 fs m c2)
  from more.IH [OF more.prems(1) others [OF more.prems(2)]] more(1) more.prems(1) show ?case
    by (simp add: disj_assoc)
qed simp

text \<open>One poll of a body whose request is running.\<close>

lemma poll_in_order:
  assumes "FCGIBody_poll_frame dbg True task fill b c = Inr (p, b', c')" "\<not> fb_done b" "fb_was_returned b"
    and "conn_slot c (unat (fb_rid b)) = Some q" "\<not> rq_aborted q" "BufList_wf (rq_buf q)"
  shows "fb_rid b' = fb_rid b \<and> fb_was_returned b' \<and>
    (\<exists>buf ended. concat buf = concat (rq_buf q) @ stdout_bytes (unat (fb_rid b)) (stream_content (read_events fill c c')) \<and>
      (ended \<longrightarrow> rq_ended q \<or> end_on_wire (unat (fb_rid b)) (read_events fill c c') \<or> read_lost dbg task fill c) \<and>
      (if fb_done b' then frame_bytes p = concat buf \<and> ended
       else \<exists>q'. conn_slot c' (unat (fb_rid b)) = Some q' \<and> \<not> rq_aborted q' \<and> BufList_wf (rq_buf q') \<and>
         frame_bytes p @ concat (rq_buf q') = concat buf \<and> rq_ended q' = ended))"
proof -
  let ?k = "unat (fb_rid b)"
  from poll_frame_split [of dbg task fill b c p b' c'] assms(1,2) obtain st c1 where
    r: "InnerConnection_poll_resp dbg task fill c = Inr (st, c1)" and rx: "io_rx c' = io_rx c1" by auto
  from poll_resp_grows [OF r, of ?k] assms(4-6) obtain q1 where q1: "conn_slot c1 ?k = Some q1"
    "\<not> rq_aborted q1" "BufList_wf (rq_buf q1)"
    "concat (rq_buf q1) = concat (rq_buf q) @ stdout_bytes ?k (stream_content (read_events fill c c'))"
    "rq_ended q1 \<longrightarrow> rq_ended q \<or> end_on_wire ?k (read_events fill c c') \<or> read_lost dbg task fill c"
    unfolding grows_def read_events_cong [OF rx] by blast
  from poll_frame_ready [OF assms(2) r q1(1,3)] assms(1) have
    e: "p = frame_result q1" "b' = b\<lparr>fb_done := frame_release b q1\<rparr>"
    "conn_slot c' = (conn_slot c1)(?k := (if frame_release b q1 then None else Some (frame_request task q1)))" by auto
  have "if fb_done b' then frame_bytes p = concat (rq_buf q1) \<and> rq_ended q1
     else \<exists>q'. conn_slot c' ?k = Some q' \<and> \<not> rq_aborted q' \<and> BufList_wf (rq_buf q') \<and>
       frame_bytes p @ concat (rq_buf q') = concat (rq_buf q1) \<and> rq_ended q' = rq_ended q1"
  proof (cases "rq_buf q1")
    case Nil
    with e(1-3) q1(1-3) show ?thesis
      by (auto simp: frame_result_def frame_request_def frame_bytes_def frame_release_def)
  next
    case (Cons d rest)
    have "rest = [] \<and> rq_ended q1" if "frame_release b q1" using that Cons by (simp add: frame_release_def)
    with Cons e(1-3) q1(1-3) show ?thesis
      by (auto simp: frame_result_def frame_request_def frame_bytes_def)
  qed
  with q1(4,5) e(2) assms(3) show ?thesis by (auto intro!: exI [of _ "rq_buf q1"] exI [of _ "rq_ended q1"])
qed

text \<open>The invariant of a run.\<close>

definition in_order :: "nat \<Rightarrow> FCGIRequest \<Rightarrow> event list \<Rightarrow> bool \<Rightarrow> bytes \<Rightarrow> InnerConnection \<Rightarrow> FCGIBody \<Rightarrow> bool" where
  "in_order k q es l out c b \<longleftrightarrow> unat (fb_rid b) = k \<and> fb_was_returned b \<and>
     (if fb_done b then \<exists>es1 es2. es = es1 @ es2 \<and>
        out = concat (rq_buf q) @ stdout_bytes k (stream_content es1) \<and> (rq_ended q \<or> end_on_wire k es1 \<or> l)
      else \<exists>q'. conn_slot c k = Some q' \<and> \<not> rq_aborted q' \<and> BufList_wf (rq_buf q') \<and>
        out @ concat (rq_buf q') = concat (rq_buf q) @ stdout_bytes k (stream_content es) \<and>
        (rq_ended q' \<longrightarrow> rq_ended q \<or> end_on_wire k es \<or> l))"

lemma body_run_in_order:
  assumes "body_run dbg c b es l out c' b'" "\<not> fb_done b" "fb_was_returned b"
    and "conn_slot c (unat (fb_rid b)) = Some q" "\<not> rq_aborted q" "BufList_wf (rq_buf q)"
  shows "in_order (unat (fb_rid b)) q es l out c' b'"
  using assms(1)
proof (induction rule: body_run.induct)
  case start
  with assms(2-6) show ?case by (simp add: in_order_def stdout_bytes_def)
next
  case (others es l out c1 b1 fs m c2)
  note IH = others.IH [unfolded in_order_def]
  show ?case
  proof (cases "fb_done b1")
    case True
    with IH show ?thesis unfolding in_order_def by (simp, metis append.assoc)
  next
    case False
    with IH obtain q1 where q1: "conn_slot c1 (unat (fb_rid b)) = Some q1" "\<not> rq_aborted q1" "BufList_wf (rq_buf q1)"
      "out @ concat (rq_buf q1) = concat (rq_buf q) @ stdout_bytes (unat (fb_rid b)) (stream_content es)"
      "rq_ended q1 \<longrightarrow> rq_ended q \<or> end_on_wire (unat (fb_rid b)) es \<or> l" by auto
    from others_step_grows [OF others(2)] q1(1-3) obtain q2 where
      "conn_slot c2 (unat (fb_rid b)) = Some q2" "\<not> rq_aborted q2" "BufList_wf (rq_buf q2)"
      "concat (rq_buf q2) = concat (rq_buf q1) @ stdout_bytes (unat (fb_rid b)) (stream_content fs)"
      "rq_ended q2 \<longrightarrow> rq_ended q1 \<or> end_on_wire (unat (fb_rid b)) fs \<or> m" unfolding grows_def by blast
    with q1(4,5) IH False show ?thesis
      by (auto simp: in_order_def simp flip: append_assoc)
  qed
next
  case (waits es l out c1 b1 lock task fill p b2 c2)
  then have "frame_bytes p = []" "b2 = b1" "c2 = c1"
    using poll_frame_idle by (cases "fb_done b1"; auto simp: frame_bytes_def)+
  with waits.IH show ?case by simp
next
  case (reads es l out c1 b1 task fill p b2 c2)
  note IH = reads.IH [unfolded in_order_def]
  let ?fs = "read_events fill c1 c2" and ?k = "unat (fb_rid b)"
  from IH reads(2) obtain q1 where q1: "conn_slot c1 (unat (fb_rid b1)) = Some q1" "\<not> rq_aborted q1" "BufList_wf (rq_buf q1)"
    "out @ concat (rq_buf q1) = concat (rq_buf q) @ stdout_bytes ?k (stream_content es)"
    "rq_ended q1 \<longrightarrow> rq_ended q \<or> end_on_wire ?k es \<or> l"
    and k: "unat (fb_rid b1) = ?k" "fb_was_returned b1" by auto
  from poll_in_order [OF reads(3,2) k(2) q1(1-3), unfolded k(1)] obtain buf ended where
    p: "concat buf = concat (rq_buf q1) @ stdout_bytes ?k (stream_content ?fs)"
    "ended \<longrightarrow> rq_ended q1 \<or> end_on_wire ?k ?fs \<or> read_lost dbg task fill c1"
    "fb_rid b2 = fb_rid b1" "fb_was_returned b2"
    "if fb_done b2 then frame_bytes p = concat buf \<and> ended
     else \<exists>q'. conn_slot c2 ?k = Some q' \<and> \<not> rq_aborted q' \<and> BufList_wf (rq_buf q') \<and>
       frame_bytes p @ concat (rq_buf q') = concat buf \<and> rq_ended q' = ended" by blast
  have all: "out @ concat buf = concat (rq_buf q) @ stdout_bytes ?k (stream_content (es @ ?fs))"
    using p(1) q1(4) by (simp flip: append_assoc)
  show ?case
  proof (cases "fb_done b2")
    case True
    have "es @ ?fs = (es @ ?fs) @ [] \<and>
        out @ frame_bytes p = concat (rq_buf q) @ stdout_bytes ?k (stream_content (es @ ?fs)) \<and>
        (rq_ended q \<or> end_on_wire ?k (es @ ?fs) \<or> l \<or> read_lost dbg task fill c1)"
      using p(2,5) q1(5) all True by auto
    then have "\<exists>es1 es2. es @ ?fs = es1 @ es2 \<and>
        out @ frame_bytes p = concat (rq_buf q) @ stdout_bytes ?k (stream_content es1) \<and>
        (rq_ended q \<or> end_on_wire ?k es1 \<or> l \<or> read_lost dbg task fill c1)" by blast
    with True p(3,4) k(1) show ?thesis by (simp add: in_order_def)
  next
    case False
    with p(5) obtain q' where "conn_slot c2 ?k = Some q'" "\<not> rq_aborted q'" "BufList_wf (rq_buf q')"
      "frame_bytes p @ concat (rq_buf q') = concat buf" "rq_ended q' = ended" by auto
    with p(2-4) k(1) q1(5) all False show ?thesis unfolding in_order_def by auto
  qed
qed


section \<open>Properties\<close>

text \<open>
  C1. A response body from end to end, with anything going on beside it (other bodies polled and
  dropped, requests opened, the connection closed or replaced; whoever polls reads for all): what the
  body has handed out, followed by what is buffered for it, is what was buffered at first followed by
  the standard output of its request in what was read, in order. The body is done only when all of this
  was handed out up to the end of the request on the wire, or the loss of the connection.
\<close>

theorem response_in_order:
  assumes "body_run dbg c b es lost out c' b'" "conn_ok n c" "\<not> fb_done b" "fb_was_returned b"
    and "conn_slot c (unat (fb_rid b)) = Some q" "\<not> rq_aborted q"
  shows "if fb_done b'
    then \<exists>es1 es2. es = es1 @ es2 \<and>
      out = concat (rq_buf q) @ stdout_bytes (unat (fb_rid b)) (stream_content es1) \<and>
      (rq_ended q \<or> end_on_wire (unat (fb_rid b)) es1 \<or> lost)
    else \<exists>q'. conn_slot c' (unat (fb_rid b)) = Some q' \<and>
      out @ concat (rq_buf q') = concat (rq_buf q) @ stdout_bytes (unat (fb_rid b)) (stream_content es)"
proof -
  from assms(2,5) have "BufList_wf (rq_buf q)"
    by (auto simp: conn_slot_def request_ok_def dest: conn_ok_request)
  from body_run_in_order [OF assms(1,3-6) this] show ?thesis by (auto simp: in_order_def split: if_splits)
qed

theorem response_in_order_witness:
  "\<exists>c' q'. conn_slot c' 0 = Some q' \<and> body_run True (example_connection example_waiting)
      \<lparr>fb_rid = 0, fb_done = False, fb_was_returned = True\<rparr>
      (read_events (FillData example_input) (example_connection example_waiting) c') False [104, 105] c'
      \<lparr>fb_rid = 0, fb_done = False, fb_was_returned = True\<rparr> \<and>
    [104, 105] @ concat (rq_buf q') = stdout_bytes 0 (stream_content
      (read_events (FillData example_input) (example_connection example_waiting) c'))"
proof -
  let ?b = "\<lparr>fb_rid = 0, fb_done = False, fb_was_returned = True\<rparr>" and ?c = "example_connection example_waiting"
  let ?q = "example_waiting\<lparr>rq_buf := [[104, 105]], rq_waker := None\<rparr>"
  have ok: "conn_ok 1 ?c" by (rule example_ok) (simp add: request_ok_def example_waiting_def)
  have s: "conn_slot (example_after ?q [9]) (unat (fb_rid ?b)) = Some ?q" by simp
  obtain c' where f: "FCGIBody_poll_frame True True 4 (FillData example_input) ?b ?c =
      Inr (Ready (Some [104, 105]), ?b, c')"
    using poll_frame_ready [OF _ example_poll(1) s] by (auto simp: frame_result_def frame_release_def example_waiting_def)
  have l: "read_lost True 4 (FillData example_input) ?c = False" by (simp add: read_lost_def example_poll(1))
  have r: "body_run True ?c ?b (read_events (FillData example_input) ?c c') False [104, 105] c' ?b"
    using body_run.reads [OF body_run.start, OF _ f] by (simp add: frame_bytes_def l)
  from response_in_order [OF r ok] obtain q' where "conn_slot c' 0 = Some q'"
    "[104, 105] @ concat (rq_buf q') = stdout_bytes 0 (stream_content (read_events (FillData example_input) ?c c'))"
    by (auto simp: example_waiting_def)
  with r show ?thesis by blast
qed

text \<open>
  C32. A lost connection passes for the end of the response: when the stream fails or is closed while a
  request is running, the poll of its body returns the end and no error, so the response that was cut
  off looks complete; and if not even its header had come (or a part of it), the caller gets a response
  with the status 200.
\<close>

theorem lost_connection_looks_complete:
  assumes "conn_ok n c" "io_rx c = []" "fill = FillData [] \<or> (\<exists>e. fill = FillErr e)" "\<not> fb_done b"
    and "conn_slot c (unat (fb_rid b)) = Some q" "\<not> rq_aborted q" "rq_buf q = []"
  shows "\<exists>c'. FCGIBody_poll_frame dbg True task fill b c =
      Inr (Ready None, b\<lparr>fb_done := fb_was_returned b\<rparr>, c') \<and>
    (\<not> fb_was_returned b \<longrightarrow> create_response_poll prs status_code dbg True task fill (Reading b buf m) c =
      Inr (Returned (b\<lparr>fb_was_returned := True\<rparr>) 200 m, c'))"
proof -
  obtain st c1 where r: "InnerConnection_poll_resp dbg task fill c = Inr (st, c1)"
    and c1: "conn_slot c1 = map_option notify_request \<circ> conn_slot c"
    using assms(2,3) by (auto simp: InnerConnection_poll_resp_def poll_fill_buf_def notify_slot Let_def)
  let ?q = "notify_request q"
  have q: "rq_buf ?q = []" "rq_ended ?q" using assms(6,7) by (simp_all add: notify_request_def Let_def)
  have "conn_slot c1 (unat (fb_rid b)) = Some ?q" using assms(5) by (simp add: c1)
  from poll_frame_ready [OF assms(4) r this] q obtain c' where
    f: "FCGIBody_poll_frame dbg True task fill b c = Inr (Ready None, b\<lparr>fb_done := fb_was_returned b\<rparr>, c')"
    by (auto simp: frame_result_def frame_release_def)
  moreover have "create_response_poll prs status_code dbg True task fill (Reading b buf m) c =
      Inr (Returned (b\<lparr>fb_was_returned := True\<rparr>) 200 m, c')" if "\<not> fb_was_returned b"
  proof -
    have "b\<lparr>fb_done := fb_was_returned b\<rparr> = b" using assms(4) that by (cases b) simp
    with f show ?thesis by (simp add: create_response_poll_def response_return_def)
  qed
  ultimately show ?thesis by blast
qed

theorem lost_connection_looks_complete_witness:
  "\<exists>c'. create_response_poll (\<lambda>b m. Inr (ParseResult.Err, m)) (\<lambda>_. None) True True 4
      (FillErr (IoError ConnectionAborted ''reset''))
      (Reading \<lparr>fb_rid = 0, fb_done = False, fb_was_returned = False\<rparr> (Some [83]) [])
      (example_connection example_waiting) =
    Inr (Returned \<lparr>fb_rid = 0, fb_done = False, fb_was_returned = True\<rparr> 200 [], c')"
proof -
  let ?b = "\<lparr>fb_rid = 0, fb_done = False, fb_was_returned = False\<rparr>"
  have ok: "conn_ok 1 (example_connection example_waiting)"
    by (rule example_ok) (simp add: request_ok_def example_waiting_def)
  have "\<not> rq_aborted example_waiting" "rq_buf example_waiting = []" by (simp_all add: example_waiting_def)
  from lost_connection_looks_complete [OF ok example_slot(3) _ _ _ this,
      of "FillErr (IoError ConnectionAborted ''reset'')" ?b True 4 _ _ "Some [83]" "[]"]
  show ?thesis by auto
qed

end
