(* ===== verification/Exchange.thy ===== *)
theory Exchange
  imports Forward_Complete Response_Order
begin

text \<open>
  \<open>src/client/connection.rs\<close>: one whole exchange, from the call of \<open>forward\<close> to the end of the
  response body, by one caller while nobody else uses the connection.

  \<open>exchange\<close> runs the operations of the caller in the order in which an executor polls them: the
  permit, \<open>forward_open\<close>, the pieces of the body, the polls of \<open>create_response\<close> until it
  returns, and the polls of the response body. What the outside does is a script: what the stream
  takes, what the body of the request yields, and what the stream delivers at each poll. It is
  executable, and every run of it is a run of the task model (\<open>exchange_run\<close>).
\<close>

section \<open>The polls of one caller\<close>

fun response_polls ::
  "(bytes \<Rightarrow> HeaderMap \<Rightarrow> panic + ParseResult \<times> HeaderMap) \<Rightarrow> (bytes \<Rightarrow> u16 option) \<Rightarrow>
     bool \<Rightarrow> nat \<Rightarrow> fill list \<Rightarrow> response \<Rightarrow> InnerConnection \<Rightarrow> panic + response \<times> InnerConnection" where
  "response_polls prs status_code dbg task [] r con = Inr (r, con)"
| "response_polls prs status_code dbg task (f # fs) r con =
     rbind (create_response_poll prs status_code dbg True task f r con) (\<lambda>(r, con).
       response_polls prs status_code dbg task fs r con)"

text \<open>The polls of the body; what they hand out is collected.\<close>

fun frame_of :: "bytes option poll \<Rightarrow> bytes list" where
  "frame_of (Ready (Some d)) = [d]"
| "frame_of p = []"

fun frame_polls ::
  "bool \<Rightarrow> nat \<Rightarrow> fill list \<Rightarrow> FCGIBody \<Rightarrow> InnerConnection \<Rightarrow>
     panic + bytes list \<times> FCGIBody \<times> InnerConnection" where
  "frame_polls dbg task [] b con = Inr ([], b, con)"
| "frame_polls dbg task (f # fs) b con =
     rbind (FCGIBody_poll_frame dbg True task f b con) (\<lambda>(p, b, con).
     rbind (frame_polls dbg task fs b con) (\<lambda>(ds, b, con).
       Inr (frame_of p @ ds, b, con)))"

record exchange_script =
  xs_open :: "(IoError + nat) list"
  xs_body :: "((unit + body_frame) option poll \<times> (IoError + nat) list) list"
  xs_response :: "fill list"
  xs_frames :: "fill list"

record reply =
  rp_status :: u16
  rp_headers :: HeaderMap
  rp_frames :: "bytes list"
  rp_body :: FCGIBody

text \<open>\<open>None\<close>: the call failed, or its response did not come in the polls of the script.\<close>

definition exchange ::
  "bool \<Rightarrow> (nat \<Rightarrow> u8) \<Rightarrow> (FCGIRequest slots \<Rightarrow> nat) \<Rightarrow>
     (bytes \<Rightarrow> HeaderMap \<Rightarrow> panic + ParseResult \<times> HeaderMap) \<Rightarrow> (bytes \<Rightarrow> u16 option) \<Rightarrow>
     MultiHeaderStrategy \<Rightarrow> HeaderMultilineStrategy \<Rightarrow> nat \<Rightarrow> HttpRequest \<Rightarrow> (bytes \<times> bytes) list \<Rightarrow>
     exchange_script \<Rightarrow> InnerConnection \<Rightarrow> panic + reply option \<times> InnerConnection" where
  "exchange dbg uninit alloc prs status_code mul nl task req dyn_headers xs con =
     (case Connection_acquire con of
        Pending \<Rightarrow> Inr (None, con)
      | Ready con \<Rightarrow>
          rbind (forward_open dbg uninit alloc mul nl task FillPending (Inr ()) (xs_open xs) req dyn_headers con)
            (\<lambda>(opened, con).
            case opened of
              Inl e \<Rightarrow> Inr (None, con)
            | Inr (rid, len') \<Rightarrow>
                let (sending, con) = send_polls dbg uninit rid (xs_body xs) len' con in
                (case sending of
                   Inr None \<Rightarrow>
                     rbind (response_polls prs status_code dbg task (xs_response xs) (create_response_start rid) con)
                       (\<lambda>(r, con).
                       case r of
                         Returned b status m \<Rightarrow>
                           rbind (frame_polls dbg task (xs_frames xs) b con) (\<lambda>(ds, b, con).
                             Inr (Some \<lparr>rp_status = status, rp_headers = m, rp_frames = ds, rp_body = b\<rparr>, con))
                       | _ \<Rightarrow> Inr (None, con))
                 | _ \<Rightarrow> Inr (None, con))))"

section \<open>Every exchange is a run of the task model\<close>

lemma send_polls_run:
  "forward_run dbg uninit alloc prs status_code mul nl max_req clean (con, ts @ Forwarding rid len' r # us) \<Longrightarrow>
     send_polls dbg uninit rid pss len' con = (Inr l, con') \<Longrightarrow>
     forward_run dbg uninit alloc prs status_code mul nl max_req clean (con', ts @ Forwarding rid l r # us)"
proof (induction dbg uninit rid pss len' con rule: send_polls.induct)
  case (1 dbg uninit rid ps pss len' con)
  from "1.prems"(2) obtain l1 con1 where 1: "send_body_step dbg uninit rid len' (fst ps) (snd ps) con = (Inr l1, con1)"
    "send_polls dbg uninit rid pss l1 con1 = (Inr l, con')" by (auto split: prod.splits sum.splits)
  from forward_run.step [OF "1.prems"(1) body_ok [OF 1(1)]] have
    "forward_run dbg uninit alloc prs status_code mul nl max_req clean (con1, ts @ Forwarding rid l1 r # us)" by simp
  from "1.IH" [OF 1(1) [symmetric] refl this 1(2)] show ?case .
qed simp_all

lemma response_polls_run:
  "forward_run dbg uninit alloc prs status_code mul nl max_req clean (con, ts @ Forwarding rid sending r # us) \<Longrightarrow>
     response_polls prs status_code dbg task fs r con = Inr (r', con') \<Longrightarrow>
     forward_run dbg uninit alloc prs status_code mul nl max_req clean (con', ts @ Forwarding rid sending r' # us)"
proof (induction fs arbitrary: r con)
  case (Cons f fs)
  from Cons.prems(2) obtain r1 con1 where 1: "create_response_poll prs status_code dbg True task f r con = Inr (r1, con1)"
    "response_polls prs status_code dbg task fs r1 con1 = Inr (r', con')" by (auto simp: rbind_Inr_iff)
  from forward_run.step [OF Cons.prems(1) respond [OF 1(1)]] have
    "forward_run dbg uninit alloc prs status_code mul nl max_req clean (con1, ts @ Forwarding rid sending r1 # us)" by simp
  from Cons.IH [OF this 1(2)] show ?case .
qed simp

lemma frame_polls_run:
  "forward_run dbg uninit alloc prs status_code mul nl max_req clean (con, ts @ Forwarding rid None (Returned b st m) # us) \<Longrightarrow>
     frame_polls dbg task fs b con = Inr (ds, b', con') \<Longrightarrow>
     forward_run dbg uninit alloc prs status_code mul nl max_req clean (con', ts @ Forwarding rid None (Returned b' st m) # us)"
proof (induction fs arbitrary: b con ds)
  case (Cons f fs)
  from Cons.prems(2) obtain p b1 con1 ds1 where 1: "FCGIBody_poll_frame dbg True task f b con = Inr (p, b1, con1)"
    "frame_polls dbg task fs b1 con1 = Inr (ds1, b', con')" by (auto simp: rbind_Inr_iff)
  from forward_run.step [OF Cons.prems(1) read_body [OF 1(1)]] have
    "forward_run dbg uninit alloc prs status_code mul nl max_req clean (con1, ts @ Forwarding rid None (Returned b1 st m) # us)"
    by simp
  from Cons.IH [OF this 1(2)] show ?case .
qed simp

lemma exchange_SomeD:
  assumes "exchange dbg uninit alloc prs status_code mul nl task req dyn_headers xs con = Inr (Some rp, con')"
  obtains c1 rid len' c2 c3 b c4 where "Connection_acquire con = Ready c1"
    "forward_open dbg uninit alloc mul nl task FillPending (Inr ()) (xs_open xs) req dyn_headers c1 = Inr (Inr (rid, len'), c2)"
    "send_polls dbg uninit rid (xs_body xs) len' c2 = (Inr None, c3)"
    "response_polls prs status_code dbg task (xs_response xs) (create_response_start rid) c3 =
      Inr (Returned b (rp_status rp) (rp_headers rp), c4)"
    "frame_polls dbg task (xs_frames xs) b c4 = Inr (rp_frames rp, rp_body rp, con')"
proof -
  from assms obtain c1 where a: "Connection_acquire con = Ready c1"
    by (cases "Connection_acquire con") (auto simp: exchange_def)
  with assms obtain opened c2 where o1: "forward_open dbg uninit alloc mul nl task FillPending (Inr ())
      (xs_open xs) req dyn_headers c1 = Inr (opened, c2)"
    by (auto simp: exchange_def rbind_Inr_iff)
  with a assms obtain rid len' where opened: "opened = Inr (rid, len')"
    by (cases opened) (auto simp: exchange_def)
  note o = o1 [unfolded opened]
  obtain l c3 where s: "send_polls dbg uninit rid (xs_body xs) len' c2 = (l, c3)" by (cases "send_polls dbg uninit rid (xs_body xs) len' c2")
  note e = assms [unfolded exchange_def a poll.case o rbind.simps prod.case sum.case Let_def s]
  then have l: "l = Inr None" by (auto split: sum.split_asm option.split_asm)
  from e [unfolded l] obtain r c4 where r: "response_polls prs status_code dbg task (xs_response xs)
      (create_response_start rid) c3 = Inr (r, c4)" by (auto simp: rbind_Inr_iff)
  from e [unfolded l sum.case option.case r rbind.simps prod.case] obtain b where
    "r = Returned b (rp_status rp) (rp_headers rp)"
    "frame_polls dbg task (xs_frames xs) b c4 = Inr (rp_frames rp, rp_body rp, con')"
    by (cases r) (auto simp: rbind_Inr_iff)
  with a o s r l that show thesis by blast
qed

lemma exchange_run:
  assumes "exchange dbg uninit alloc prs status_code mul nl task req dyn_headers xs con = Inr (Some rp, con')"
    and "forward_run dbg uninit alloc prs status_code mul nl max_req clean (con, ts)"
    and "list_all kv_ok (request_env mul req dyn_headers)"
  shows "\<exists>rid. forward_run dbg uninit alloc prs status_code mul nl max_req clean
    (con', ts @ [Forwarding rid None (Returned (rp_body rp) (rp_status rp) (rp_headers rp))])"
  using assms(1)
proof (rule exchange_SomeD)
  fix c1 rid len' c2 c3 b c4
  assume a: "Connection_acquire con = Ready c1"
    "forward_open dbg uninit alloc mul nl task FillPending (Inr ()) (xs_open xs) req dyn_headers c1 = Inr (Inr (rid, len'), c2)"
    "send_polls dbg uninit rid (xs_body xs) len' c2 = (Inr None, c3)"
    "response_polls prs status_code dbg task (xs_response xs) (create_response_start rid) c3 =
      Inr (Returned b (rp_status rp) (rp_headers rp), c4)"
    "frame_polls dbg task (xs_frames xs) b c4 = Inr (rp_frames rp, rp_body rp, con')"
  let ?run = "forward_run dbg uninit alloc prs status_code mul nl max_req clean"
  from forward_run.step [OF assms(2) acquire [OF a(1)]] have "?run (c1, ts @ Waiting # [])" by simp
  from forward_run.step [OF this open_ok [OF a(2) assms(3)]] have
    "?run (c2, ts @ Forwarding rid len' (create_response_start rid) # [])" by simp
  from send_polls_run [OF this a(3)] have "?run (c3, ts @ Forwarding rid None (create_response_start rid) # [])" .
  from response_polls_run [OF this a(4)] have
    "?run (c4, ts @ Forwarding rid None (Returned b (rp_status rp) (rp_headers rp)) # [])" .
  from frame_polls_run [OF this a(5)] show ?thesis by blast
qed


section \<open>What the polls leave alone\<close>

definition conn_view :: "InnerConnection \<Rightarrow> bytes \<times> bytes \<times> RecordReader" where
  "conn_view con = (io_rx con, io_tx con, fcgi_parser con)"

lemma conn_view_simps [simp]:
  "conn_view (con\<lparr>running_requests := s\<rparr>) = conn_view con" "conn_view (con\<lparr>sem := n\<rparr>) = conn_view con"
  "conn_view (con\<lparr>io_waker := t\<rparr>) = conn_view con" "conn_view (con\<lparr>woken := w\<rparr>) = conn_view con"
  "conn_view (register_io task fill con) = conn_view con"
  by (simp_all add: conn_view_def)

text \<open>A read that ends where a record ends, or within the body of one: all of it is distributed.\<close>

lemma poll_resp_read:
  assumes "io_rx con = []" "data \<noteq> []" "RecordReader_drain (fcgi_parser con) data = Inr (rs, p, [])"
  shows "\<exists>con1. InnerConnection_poll_resp dbg task (FillData data) con = Inr (Ready (Some (Inr ())), con1) \<and>
    conn_view con1 = ([], io_tx con, p) \<and> conn_slot con1 = (\<lambda>k. run_slot k rs (conn_slot con k)) \<and>
    (\<forall>n. conn_ok n con \<longrightarrow> conn_ok n con1)"
proof -
  let ?c = "register_io task (FillData data) con\<lparr>io_rx := data\<rparr>"
  from parse_drain [of dbg data ?c] assms(3) obtain c1 where
    p: "InnerConnection_parse_and_distribute dbg data ?c = Inr ([], c1)" and c1: "fcgi_parser c1 = p" "io_rx c1 = data"
      "conn_slot c1 = (\<lambda>k. run_slot k rs (conn_slot con k))" by auto
  have "conn_ok n con \<longrightarrow> conn_ok n c1" for n using parse_ok [OF _ p] by simp
  with p c1 parse_tx [OF p] assms(1,2) show ?thesis
    by (auto simp: InnerConnection_poll_resp_def poll_fill_buf_def Let_def conn_view_def)
qed

lemma poll_resp_quiet:
  "io_rx con = [] \<Longrightarrow> InnerConnection_poll_resp dbg task FillPending con = Inr (Pending, register_io task FillPending con)"
  by (simp add: InnerConnection_poll_resp_def poll_fill_buf_def Let_def)

lemma poll_frame_view:
  assumes "\<not> fb_done b" "InnerConnection_poll_resp dbg task fill con = Inr (st, con1)"
    and "FCGIBody_poll_frame dbg True task fill b con = Inr (p, b', con')"
  shows "conn_view con' = conn_view con1"
  using assms by (auto simp: FCGIBody_poll_frame_def rbind_Inr_iff Let_def split: if_splits option.splits prod.splits)

section \<open>Reading what is buffered\<close>

lemma frame_polls_done: "fb_done b \<Longrightarrow> frame_polls dbg task fs b con = Inr ([], b, con)"
  by (induction fs) (simp_all add: poll_frame_idle)

lemma frame_polls_append:
  "frame_polls dbg task (fs @ gs) b con = rbind (frame_polls dbg task fs b con) (\<lambda>(ds, b, con).
     rbind (frame_polls dbg task gs b con) (\<lambda>(es, b, con). Inr (ds @ es, b, con)))"
proof (induction fs arbitrary: b con)
  case Nil
  show ?case by (cases "frame_polls dbg task gs b con") auto
next
  case (Cons f fs)
  show ?case
    by (cases "FCGIBody_poll_frame dbg True task f b con")
      (auto simp: Cons.IH rbind_assoc case_prod_unfold)
qed

text \<open>
  One more poll than there are fragments: all of them are handed out, and an ended request is given
  back; otherwise the task is registered.
\<close>

definition drained :: "nat \<Rightarrow> FCGIRequest \<Rightarrow> FCGIRequest option" where
  "drained task q = (if rq_ended q then None else Some (q\<lparr>rq_buf := [], rq_waker := Some task\<rparr>))"

lemma drain_frames:
  assumes "\<not> fb_done b" "fb_was_returned b" "InnerConnection_poll_resp dbg task f con = Inr (st, con1)"
    and "conn_slot con1 (unat (fb_rid b)) = Some q" "BufList_wf (rq_buf q)" "io_rx con1 = []"
  shows "\<exists>con'. frame_polls dbg task (f # replicate (length (rq_buf q)) FillPending) b con =
      Inr (rq_buf q, b\<lparr>fb_done := rq_ended q\<rparr>, con') \<and> conn_view con' = conn_view con1 \<and>
    conn_slot con' = (conn_slot con1)(unat (fb_rid b) := drained task q) \<and>
    (\<forall>n. conn_ok n con1 \<longrightarrow> conn_ok n con')"
  using assms
proof (induction "rq_buf q" arbitrary: q f con con1 st)
  case Nil
  from poll_frame_ready [OF Nil.prems(1,3-5)] obtain con' where
    f: "FCGIBody_poll_frame dbg True task f b con = Inr (frame_result q, b\<lparr>fb_done := frame_release b q\<rparr>, con')"
    and c: "conn_slot con' = (conn_slot con1)(unat (fb_rid b) :=
      (if frame_release b q then None else Some (frame_request task q)))"
    and ok: "\<forall>n. conn_ok n con1 \<longrightarrow> conn_ok n con'" by blast
  from poll_frame_view [OF Nil.prems(1,3) f] f c ok Nil.hyps [symmetric] Nil.prems(2) show ?case
    by (auto simp: frame_result_def frame_release_def frame_request_def drained_def)
next
  case (Cons d rest)
  from poll_frame_ready [OF Cons.prems(1,3-5)] obtain con' where
    f: "FCGIBody_poll_frame dbg True task f b con = Inr (frame_result q, b\<lparr>fb_done := frame_release b q\<rparr>, con')"
    and c: "conn_slot con' = (conn_slot con1)(unat (fb_rid b) :=
      (if frame_release b q then None else Some (frame_request task q)))"
    and ok: "\<forall>n. conn_ok n con1 \<longrightarrow> conn_ok n con'" by blast
  note view = poll_frame_view [OF Cons.prems(1,3) f]
  have res: "frame_result q = Ready (Some d)" "frame_request task q = q\<lparr>rq_buf := rest\<rparr>"
    by (simp_all add: frame_result_def frame_request_def Cons.hyps(2) [symmetric])
  show ?case
  proof (cases "frame_release b q")
    case True
    then have e: "rest = []" "rq_ended q" by (auto simp: frame_release_def Cons.hyps(2) [symmetric])
    with f True c ok view res show ?thesis
      by (simp add: Cons.hyps(2) [symmetric] poll_frame_idle drained_def)
  next
    case False
    let ?q = "q\<lparr>rq_buf := rest\<rparr>"
    have b: "b\<lparr>fb_done := False\<rparr> = b" using Cons.prems(1) by (cases b) simp
    have rx: "io_rx con' = []" using view Cons.prems(6) by (simp add: conn_view_def)
    have s: "conn_slot (register_io task FillPending con') (unat (fb_rid b)) = Some ?q"
      using c False res by simp
    have wf: "BufList_wf (rq_buf ?q)" using Cons.prems(5) by (simp add: Cons.hyps(2) [symmetric])
    from Cons.hyps(1) [OF _ Cons.prems(1,2) poll_resp_quiet [OF rx] s wf] rx obtain con'' where
      2: "frame_polls dbg task (FillPending # replicate (length rest) FillPending) b con' =
        Inr (rest, b\<lparr>fb_done := rq_ended q\<rparr>, con'')" "conn_view con'' = conn_view con'"
      "conn_slot con'' = (conn_slot con')(unat (fb_rid b) := drained task ?q)"
      "\<forall>n. conn_ok n con' \<longrightarrow> conn_ok n con''" by auto
    have "drained task ?q = drained task q" by (simp add: drained_def)
    with f False res 2 c ok view b show ?thesis
      by (auto simp: Cons.hyps(2) [symmetric])
  qed
qed


section \<open>An answer in several reads\<close>

text \<open>
  \<open>drain_reads\<close>: the records that each read completes, when no read leaves an incomplete header or
  incomplete padding behind (those reads are the subject of \<open>poll_resp_short_read_closes\<close>).
\<close>

fun drain_reads :: "RecordReader \<Rightarrow> bytes list \<Rightarrow> (Record list list \<times> RecordReader) option" where
  "drain_reads p [] = Some ([], p)"
| "drain_reads p (data # reads) =
     (case RecordReader_drain p data of
        Inl e \<Rightarrow> None
      | Inr (rs, p, rest) \<Rightarrow>
          if data = [] \<or> rest \<noteq> [] then None
          else map_option (\<lambda>(rss, p). (rs # rss, p)) (drain_reads p reads))"

lemma drain_reads_Cons:
  assumes "drain_reads p (data # reads) = Some (rss, p')"
  obtains rs p1 rss1 where "RecordReader_drain p data = Inr (rs, p1, [])" "data \<noteq> []"
    "drain_reads p1 reads = Some (rss1, p')" "rss = rs # rss1"
  using assms by (auto split: sum.split_asm if_splits)

lemma drain_reads_append:
  "drain_reads p (reads @ reads') = Some (rss, p') \<Longrightarrow>
     \<exists>rss1 p1 rss2. drain_reads p reads = Some (rss1, p1) \<and> drain_reads p1 reads' = Some (rss2, p') \<and>
       rss = rss1 @ rss2 \<and> length rss1 = length reads"
proof (induction reads arbitrary: p rss)
  case (Cons data reads)
  then have "drain_reads p (data # (reads @ reads')) = Some (rss, p')" by simp
  then show ?case
  proof (rule drain_reads_Cons)
    fix rs p1 rss1
    assume a: "RecordReader_drain p data = Inr (rs, p1, [])" "data \<noteq> []"
      "drain_reads p1 (reads @ reads') = Some (rss1, p')" "rss = rs # rss1"
    from Cons.IH [OF a(3)] a(1,2,4) show ?case by fastforce
  qed
qed simp

lemma drain_reads_length: "drain_reads p reads = Some (rss, p') \<Longrightarrow> length rss = length reads"
  using drain_reads_append [of p reads "[]" rss p'] by auto

lemma run_slot_append: "run_slot k (rs @ rs') s = run_slot k rs' (run_slot k rs s)"
  by (simp add: run_slot_def)

lemma stdout_of_append [simp]: "stdout_of k (rs @ rs') = stdout_of k rs @ stdout_of k rs'"
  by (simp add: stdout_of_def)

lemma stdout_of_concat: "stdout_of k (concat rss) = concat (map (stdout_of k) rss)"
proof (induction rss)
  case Nil
  show ?case by (simp add: stdout_of_def)
qed simp

lemma ends_append [simp]: "ends k (rs @ rs') \<longleftrightarrow> ends k rs \<or> ends k rs'"
  by (auto simp: ends_def)

lemma ends_Nil [simp]: "\<not> ends k []"
  by (simp add: ends_def)

text \<open>The slot of a running request after a read.\<close>

lemma slot_after_read:
  assumes "conn_slot con k = Some q" "\<not> rq_aborted q" "rq_buf q = []" "\<not> rq_ended q"
    and "conn_slot con1 = (\<lambda>j. run_slot j rs (conn_slot con j))"
  obtains q1 where "conn_slot con1 k = Some q1" "rq_buf q1 = stdout_of k rs" "rq_ended q1 \<longleftrightarrow> ends k rs" "\<not> rq_aborted q1"
proof -
  from run_slot_Some [OF assms(2), of k rs] obtain q1 where q1: "run_slot k rs (Some q) = Some q1" by blast
  from run_slot_running [OF assms(2) q1] assms that [of q1] q1 show thesis by auto
qed

text \<open>The body, after the header: each read with one poll more than it brings fragments.\<close>

definition frame_schedule :: "nat \<Rightarrow> bytes list \<Rightarrow> Record list list \<Rightarrow> fill list" where
  "frame_schedule k reads rss =
     concat (map (\<lambda>(data, rs). FillData data # replicate (length (stdout_of k rs)) FillPending) (zip reads rss))"

lemma body_reads:
  assumes "drain_reads (fcgi_parser con) reads = Some (rss, p')" "reads \<noteq> []"
    and "\<not> ends k (concat (butlast rss))" "ends k (last rss)"
    and "\<not> fb_done b" "fb_was_returned b" "unat (fb_rid b) = k" "io_rx con = []" "conn_ok n con"
    and "conn_slot con k = Some q" "\<not> rq_aborted q" "rq_buf q = []" "\<not> rq_ended q"
  shows "\<exists>con'. frame_polls dbg task (frame_schedule k reads rss) b con =
      Inr (stdout_of k (concat rss), b\<lparr>fb_done := True\<rparr>, con') \<and> conn_view con' = ([], io_tx con, p') \<and>
    conn_slot con' = (\<lambda>j. if j = k then None else run_slot j (concat rss) (conn_slot con j)) \<and> conn_ok n con'"
  using assms
proof (induction reads arbitrary: con rss q)
  case (Cons data reads)
  obtain rs p1 rss1 where a: "RecordReader_drain (fcgi_parser con) data = Inr (rs, p1, [])" "data \<noteq> []"
    "drain_reads p1 reads = Some (rss1, p')" "rss = rs # rss1" by (rule drain_reads_Cons [OF Cons.prems(1)])
  from poll_resp_read [OF Cons.prems(8) a(2,1), of dbg task] obtain con1 where
    1: "InnerConnection_poll_resp dbg task (FillData data) con = Inr (Ready (Some (Inr ())), con1)"
    and v: "conn_view con1 = ([], io_tx con, p1)" and sl: "conn_slot con1 = (\<lambda>k. run_slot k rs (conn_slot con k))"
    and ok: "conn_ok n con1" using Cons.prems(9) by blast
  obtain q1 where q1: "conn_slot con1 k = Some q1" "rq_buf q1 = stdout_of k rs" "rq_ended q1 \<longleftrightarrow> ends k rs" "\<not> rq_aborted q1"
    by (rule slot_after_read [OF Cons.prems(10-13) sl])
  have wf: "BufList_wf (rq_buf q1)" using conn_ok_request [OF ok] q1(1) by (simp add: conn_slot_def request_ok_def)
  have s1: "conn_slot con1 (unat (fb_rid b)) = Some q1" using q1(1) Cons.prems(7) by simp
  have rx: "io_rx con1 = []" using v by (simp add: conn_view_def)
  from drain_frames [OF Cons.prems(5,6) 1 s1 wf rx] ok v Cons.prems(7) q1(2) obtain con2 where
    2: "frame_polls dbg task (FillData data # replicate (length (stdout_of k rs)) FillPending) b con =
        Inr (stdout_of k rs, b\<lparr>fb_done := rq_ended q1\<rparr>, con2)" "conn_view con2 = ([], io_tx con, p1)"
      "conn_slot con2 = (conn_slot con1)(k := drained task q1)" "conn_ok n con2" by auto
  note sched = frame_polls_append [of dbg task "FillData data # replicate (length (stdout_of k rs)) FillPending"
      "frame_schedule k reads rss1" b con, unfolded 2(1) rbind.simps prod.case]
  have fs: "frame_schedule k (data # reads) (rs # rss1) =
      (FillData data # replicate (length (stdout_of k rs)) FillPending) @ frame_schedule k reads rss1"
    by (simp add: frame_schedule_def)
  show ?case
  proof (cases "reads = []")
    case True
    with a(3,4) Cons.prems(4) have e: "rss1 = []" "p1 = p'" "ends k rs" by simp_all
    with sched 2 True q1(3) sl show ?thesis
      by (simp add: fs a(4) frame_schedule_def drained_def frame_polls_done fun_eq_iff)
  next
    case False
    with drain_reads_length [OF a(3)] have ne: "rss1 \<noteq> []" by auto
    with Cons.prems(3,4) a(4) have e: "\<not> ends k rs" "\<not> ends k (concat (butlast rss1))" "ends k (last rss1)" by simp_all
    let ?q = "q1\<lparr>rq_buf := [], rq_waker := Some task\<rparr>"
    have b: "b\<lparr>fb_done := False\<rparr> = b" using Cons.prems(5) by (cases b) simp
    have p: "fcgi_parser con2 = p1" "io_rx con2 = []" "io_tx con2 = io_tx con" using 2(2) by (simp_all add: conn_view_def)
    have s2: "conn_slot con2 k = Some ?q" using 2(3) q1(3) e(1) by (simp add: drained_def)
    from Cons.IH [OF a(3) [folded p(1)] False e(2,3) Cons.prems(5-7) p(2) 2(4) s2] q1(3,4) e(1) obtain con3 where
      3: "frame_polls dbg task (frame_schedule k reads rss1) b con2 =
          Inr (stdout_of k (concat rss1), b\<lparr>fb_done := True\<rparr>, con3)" "conn_view con3 = ([], io_tx con2, p')"
        "conn_slot con3 = (\<lambda>j. if j = k then None else run_slot j (concat rss1) (conn_slot con2 j))" "conn_ok n con3" by auto
    have "conn_slot con3 = (\<lambda>j. if j = k then None else run_slot j (concat rss) (conn_slot con j))"
      by (rule ext) (simp add: 3(3) 2(3) sl a(4) run_slot_append)
    with 3 sched q1(3) e(1) b p(3) show ?thesis by (intro exI [of _ con3]) (simp add: fs a(4))
  qed
qed simp


text \<open>
  The header, in as many fragments as there are reads: one poll per read, and one that puts the rest of the
  last fragment back. \<open>header_parsed\<close>: the header is complete with the last fragment and not before.
\<close>

definition header_parsed ::
  "(bytes \<Rightarrow> HeaderMap \<Rightarrow> panic + ParseResult \<times> HeaderMap) \<Rightarrow> bytes \<Rightarrow> bytes list \<Rightarrow> bytes \<Rightarrow> HeaderMap \<Rightarrow> bool" where
  "header_parsed prs pre ss rest m \<longleftrightarrow>
     (\<forall>n < length ss. 0 < n \<longrightarrow> prs (pre @ concat (take n ss)) [] = Inr (ParseResult.Pending, [])) \<and>
     prs (pre @ concat ss) [] = Inr (ParseResult.Ok rest, m)"

lemma header_parsed_Cons:
  assumes "header_parsed prs pre (s # ss) rest m" "ss \<noteq> []"
  shows "prs (pre @ s) [] = Inr (ParseResult.Pending, [])" "header_parsed prs (pre @ s) ss rest m"
proof -
  have all: "prs (pre @ concat (take n (s # ss))) [] = Inr (ParseResult.Pending, [])"
    if "n < Suc (length ss)" "0 < n" for n
    using assms(1) that by (simp add: header_parsed_def)
  show "prs (pre @ s) [] = Inr (ParseResult.Pending, [])" using all [of 1] assms(2) by simp
  have "prs ((pre @ s) @ concat (take n ss)) [] = Inr (ParseResult.Pending, [])" if "n < length ss" "0 < n" for n
    using all [of "Suc n"] that by simp
  with assms(1) show "header_parsed prs (pre @ s) ss rest m" by (simp add: header_parsed_def)
qed

lemma fragment_after:
  "create_response_fragment prs status_code fb buf m b =
     create_response_fragment prs status_code fb None m ((case buf of None \<Rightarrow> [] | Some left \<Rightarrow> left) @ b)"
  by (simp add: create_response_fragment_def split: option.split)

definition after_header :: "(bytes \<Rightarrow> u16 option) \<Rightarrow> FCGIBody \<Rightarrow> bytes \<Rightarrow> HeaderMap \<Rightarrow> response" where
  "after_header status_code fb rest m =
     (if rest = [] then response_return fb (response_status status_code m) m else PuttingBack fb rest m)"

lemma header_reads:
  assumes "drain_reads (fcgi_parser con) reads = Some (rss, p')" "reads \<noteq> []"
    and "map (stdout_of k) rss = map (\<lambda>s. [s]) ss" "\<not> ends k (concat (butlast rss))"
    and "header_parsed prs (case buf of None \<Rightarrow> [] | Some left \<Rightarrow> left) ss rest m"
    and "\<not> fb_done fb" "\<not> fb_was_returned fb" "unat (fb_rid fb) = k" "io_rx con = []" "conn_ok n con"
    and "conn_slot con k = Some q" "\<not> rq_aborted q" "rq_buf q = []" "\<not> rq_ended q"
  shows "\<exists>con' q'. response_polls prs status_code dbg task (map FillData reads) (Reading fb buf []) con =
      Inr (after_header status_code fb rest m, con') \<and> conn_view con' = ([], io_tx con, p') \<and>
    conn_slot con' = (\<lambda>j. if j = k then Some q' else run_slot j (concat rss) (conn_slot con j)) \<and>
    rq_buf q' = [] \<and> \<not> rq_aborted q' \<and> (rq_ended q' \<longleftrightarrow> ends k (last rss)) \<and> rq_waker q' = None \<and> conn_ok n con'"
  using assms
proof (induction reads arbitrary: con rss q ss buf)
  case (Cons data reads)
  obtain rs p1 rss1 where a: "RecordReader_drain (fcgi_parser con) data = Inr (rs, p1, [])" "data \<noteq> []"
    "drain_reads p1 reads = Some (rss1, p')" "rss = rs # rss1" by (rule drain_reads_Cons [OF Cons.prems(1)])
  from Cons.prems(3) a(4) obtain s ss1 where ss: "ss = s # ss1" "stdout_of k rs = [s]"
    "map (stdout_of k) rss1 = map (\<lambda>s. [s]) ss1" by (cases ss) auto
  from poll_resp_read [OF Cons.prems(9) a(2,1), of dbg task] obtain con1 where
    1: "InnerConnection_poll_resp dbg task (FillData data) con = Inr (Ready (Some (Inr ())), con1)"
    and v: "conn_view con1 = ([], io_tx con, p1)" and sl: "conn_slot con1 = (\<lambda>k. run_slot k rs (conn_slot con k))"
    and ok: "conn_ok n con1" using Cons.prems(10) by blast
  obtain q1 where q1: "conn_slot con1 k = Some q1" "rq_buf q1 = stdout_of k rs" "rq_ended q1 \<longleftrightarrow> ends k rs" "\<not> rq_aborted q1"
    by (rule slot_after_read [OF Cons.prems(11-14) sl])
  have rq: "request_ok q1" using conn_ok_request [OF ok] q1(1) by (simp add: conn_slot_def)
  then have wf: "BufList_wf (rq_buf q1)" and w: "rq_waker q1 = None" using q1(2) ss(2) by (auto simp: request_ok_def)
  have s1: "conn_slot con1 (unat (fb_rid fb)) = Some q1" using q1(1) Cons.prems(8) by simp
  let ?q = "q1\<lparr>rq_buf := []\<rparr>"
  have "fb\<lparr>fb_done := False\<rparr> = fb" using Cons.prems(6) by (cases fb) simp
  with poll_frame_ready [OF Cons.prems(6) 1 s1 wf] Cons.prems(7,8) q1(2) ss(2) ok obtain con2 where
    2: "FCGIBody_poll_frame dbg True task (FillData data) fb con = Inr (Ready (Some s), fb, con2)"
      "conn_slot con2 = (conn_slot con1)(k \<mapsto> ?q)" "conn_ok n con2"
    by (auto simp: frame_result_def frame_release_def frame_request_def)
  have v2: "conn_view con2 = ([], io_tx con, p1)" using poll_frame_view [OF Cons.prems(6) 1 2(1)] v by simp
  let ?pre = "case buf of None \<Rightarrow> [] | Some left \<Rightarrow> left"
  show ?case
  proof (cases "reads = []")
    case True
    with a(3) ss(3) have e: "rss1 = []" "p1 = p'" "ss1 = []" by simp_all
    have "prs (?pre @ s) [] = Inr (ParseResult.Ok rest, m)"
      using Cons.prems(5) by (simp add: header_parsed_def ss(1) e(3))
    then have "create_response_poll prs status_code dbg True task (FillData data) (Reading fb buf []) con =
        Inr (after_header status_code fb rest m, con2)"
      by (simp add: create_response_poll_def 2(1) fragment_after [of _ _ _ buf])
        (simp add: create_response_fragment_def after_header_def)
    then have "response_polls prs status_code dbg task (map FillData [data]) (Reading fb buf []) con =
        Inr (after_header status_code fb rest m, con2)" by simp
    moreover have "conn_slot con2 = (\<lambda>j. if j = k then Some ?q else run_slot j (concat rss) (conn_slot con j))"
      by (simp add: 2(2) sl a(4) e(1) fun_eq_iff)
    ultimately show ?thesis
      using v2 2(3) q1(3,4) w True e(2) a(4) e(1) by (intro exI [of _ con2] exI [of _ ?q]) simp
  next
    case False
    with drain_reads_length [OF a(3)] have ne: "rss1 \<noteq> []" by auto
    with ss(3) have "ss1 \<noteq> []" by auto
    note hp = header_parsed_Cons [OF Cons.prems(5) [unfolded ss(1)] this]
    have ne2: "\<not> ends k rs" "\<not> ends k (concat (butlast rss1))" using Cons.prems(4) ne a(4) by simp_all
    let ?buf = "Some (?pre @ s)"
    have p: "fcgi_parser con2 = p1" "io_rx con2 = []" "io_tx con2 = io_tx con" using v2 by (simp_all add: conn_view_def)
    have c: "create_response_poll prs status_code dbg True task (FillData data) (Reading fb buf []) con =
        Inr (Reading fb ?buf [], con2)"
      by (simp add: create_response_poll_def 2(1) fragment_after [of _ _ _ buf])
        (simp add: create_response_fragment_def hp(1))
    have hp2: "header_parsed prs (case ?buf of None \<Rightarrow> [] | Some left \<Rightarrow> left) ss1 rest m" using hp(2) by simp
    have s2: "conn_slot con2 k = Some ?q" using 2(2) by simp
    from Cons.IH [OF a(3) [folded p(1)] False ss(3) ne2(2) hp2 Cons.prems(6-8) p(2) 2(3) s2] q1(3,4) ne2(1) obtain con3 q3 where
      3: "response_polls prs status_code dbg task (map FillData reads) (Reading fb ?buf []) con2 =
          Inr (after_header status_code fb rest m, con3)" "conn_view con3 = ([], io_tx con2, p')"
        "conn_slot con3 = (\<lambda>j. if j = k then Some q3 else run_slot j (concat rss1) (conn_slot con2 j))"
        "rq_buf q3 = []" "\<not> rq_aborted q3" "rq_ended q3 \<longleftrightarrow> ends k (last rss1)" "rq_waker q3 = None" "conn_ok n con3" by auto
    have "conn_slot con3 = (\<lambda>j. if j = k then Some q3 else run_slot j (concat rss) (conn_slot con j))"
      by (rule ext) (simp add: 3(3) 2(2) sl a(4) run_slot_append)
    with 3 c p(3) ne show ?thesis by (intro exI [of _ con3] exI [of _ q3]) (simp add: a(4))
  qed
qed simp


section \<open>Sending the request\<close>

text \<open>The body yields its pieces, one per poll, and ends; the stream takes whatever is written.\<close>

definition body_script ::
  "(IoError + nat) list \<Rightarrow> bytes list \<Rightarrow> ((unit + body_frame) option poll \<times> (IoError + nat) list) list" where
  "body_script sc vs = body_polls (map (\<lambda>v. (v, sc)) vs) sc"

lemma body_script_alt: "body_script sc vs = map (\<lambda>v. (data_poll v, sc)) vs @ [(Ready None, sc)]"
  by (simp add: body_script_def body_polls_def)

lemma pieces_taken_same:
  "ample (length (body_wire rid vs @ frame RecordType.StdIn rid [])) sc \<Longrightarrow> pieces_taken rid (map (\<lambda>v. (v, sc)) vs) sc"
proof (induction vs)
  case Nil
  then show ?case by (simp add: pieces_taken_def)
next
  case (Cons v vs)
  have "ample (length (frames RecordType.StdIn rid v)) sc"
    "ample (length (body_wire rid vs @ frame RecordType.StdIn rid [])) sc"
    by (rule ample_mono [OF Cons.prems], simp)+
  with Cons.IH show ?case by (simp add: pieces_taken_def)
qed

lemma exchange_sends:
  fixes alloc con
  defines "rid \<equiv> of_nat (alloc (running_requests con) + 1) :: u16"
  assumes "io_rx con = []" "list_all (\<lambda>h. \<not> refused mul nl h) (req_headers req)"
    and "list_all kv_ok (request_env mul req dyn_headers)" "body_fits req vs"
    and "ample (length (request_wire mul req dyn_headers rid vs)) sc"
  shows "\<exists>len' con1. forward_open dbg uninit alloc mul nl task FillPending (Inr ()) sc req dyn_headers con =
      Inr (Inr (rid, len'), con1) \<and>
    send_polls dbg uninit rid (body_script sc vs) len' con1 =
      (Inr None, opened_connection alloc task (request_wire mul req dyn_headers rid vs) con)"
proof -
  let ?pieces = "map (\<lambda>v. (v, sc)) vs"
  have vs: "map fst ?pieces = vs" by (simp add: comp_def)
  have am: "ample (length (opening_wire mul req dyn_headers rid)) sc"
    by (rule ample_mono [OF assms(6)]) (simp add: opening_wire_def request_wire_def split: option.split)
  have "pieces_taken rid ?pieces sc" if "forward_len req \<noteq> None"
    by (rule pieces_taken_same, rule ample_mono [OF assms(6)]) (use that in \<open>auto simp: request_wire_def\<close>)
  from forward_sends [OF assms(2-4), of ?pieces alloc sc sc, folded rid_def, unfolded vs, OF assms(5) am this]
  show ?thesis unfolding body_script_def by blast
qed

section \<open>Awaiting the response and reading its body\<close>

text \<open>
  \<open>answers\<close>: what the server sends for the request in the slot \<open>k\<close>, in reads that end between two
  records or within the content of one. The reads of \<open>hreads\<close>, with the records \<open>hss\<close>, bring exactly one
  fragment of the request's standard output each, which together contain the header, with \<open>rest\<close> behind
  it in the last; those of \<open>breads\<close> bring the records \<open>bss\<close>, with the body; the last read of all, and none
  before it, ends the request. \<open>p'\<close> is the parser afterwards.
\<close>

definition answers ::
  "(bytes \<Rightarrow> HeaderMap \<Rightarrow> panic + ParseResult \<times> HeaderMap) \<Rightarrow> nat \<Rightarrow> RecordReader \<Rightarrow> bytes list \<Rightarrow> bytes list \<Rightarrow>
     bytes \<Rightarrow> HeaderMap \<Rightarrow> Record list list \<Rightarrow> Record list list \<Rightarrow> RecordReader \<Rightarrow> bool" where
  "answers prs k p hreads breads rest m hss bss p' \<longleftrightarrow>
     (\<exists>ss p1. drain_reads p hreads = Some (hss, p1) \<and> drain_reads p1 breads = Some (bss, p') \<and>
       hreads \<noteq> [] \<and> map (stdout_of k) hss = map (\<lambda>s. [s]) ss \<and> header_parsed prs [] ss rest m \<and>
       \<not> ends k (concat (butlast (hss @ bss))) \<and> ends k (last (hss @ bss)))"

definition rest_frames :: "bytes \<Rightarrow> bytes list" where
  "rest_frames rest = (if rest = [] then [] else [rest])"

lemma response_polls_append:
  "response_polls prs status_code dbg task (fs @ gs) r con =
     rbind (response_polls prs status_code dbg task fs r con) (\<lambda>(r, con).
       response_polls prs status_code dbg task gs r con)"
proof (induction fs arbitrary: r con)
  case (Cons f fs)
  then show ?case
    by (cases "create_response_poll prs status_code dbg True task f r con") auto
qed simp

text \<open>The future returns, with the rest of the last header fragment in the buffer.\<close>

lemma put_back:
  assumes "conn_slot con (unat (fb_rid fb)) = Some q" "rq_buf q = []" "rq_waker q = None" "conn_ok n con"
  shows "\<exists>con'. create_response_poll prs status_code dbg True task FillPending (after_header status_code fb rest m) con =
      Inr (response_return fb (response_status status_code m) m, con') \<and> conn_view con' = conn_view con \<and>
    conn_slot con' = (conn_slot con)(unat (fb_rid fb) \<mapsto> q\<lparr>rq_buf := rest_frames rest\<rparr>) \<and> conn_ok n con'"
proof (cases "rest = []")
  case True
  have "q\<lparr>rq_buf := []\<rparr> = q" using assms(2) by (cases q) simp
  with True assms show ?thesis
    by (auto simp: rest_frames_def after_header_def create_response_poll_def response_return_def fun_eq_iff)
next
  case False
  let ?k = "unat (fb_rid fb)"
  have g: "Slab_get (running_requests con) ?k = Some q" using assms(1) by (simp add: conn_slot_def)
  have "request_ok (q\<lparr>rq_buf := [rest]\<rparr>)" using assms(3) False by (simp add: request_ok_def)
  from conn_ok_put [OF assms(4) g this] g False assms(2) show ?thesis
    by (auto simp: rest_frames_def after_header_def create_response_poll_def Slab_index_def BufList_push_def conn_slot_def slab_simps)
qed

text \<open>The polls of the body: what the header left in the buffer, then the reads.\<close>

definition body_schedule :: "nat \<Rightarrow> bytes \<Rightarrow> bytes list \<Rightarrow> Record list list \<Rightarrow> fill list" where
  "body_schedule k rest breads bss =
     (FillPending # replicate (length (rest_frames rest)) FillPending) @ frame_schedule k breads bss"

lemma response_complete:
  assumes "answers prs k (fcgi_parser con) hreads breads rest m hss bss p'"
    and "\<not> fb_done fb" "\<not> fb_was_returned fb" "unat (fb_rid fb) = k" "io_rx con = []" "conn_ok n con"
    and "conn_slot con k = Some q" "\<not> rq_aborted q" "rq_buf q = []" "\<not> rq_ended q"
  shows "\<exists>con1 con2.
    response_polls prs status_code dbg task (map FillData hreads @ [FillPending]) (Reading fb None []) con =
      Inr (Returned (fb\<lparr>fb_was_returned := True\<rparr>) (response_status status_code m) m, con1) \<and>
    frame_polls dbg task (body_schedule k rest breads bss) (fb\<lparr>fb_was_returned := True\<rparr>) con1 =
      Inr (rest_frames rest @ stdout_of k (concat bss), fb\<lparr>fb_was_returned := True, fb_done := True\<rparr>, con2) \<and>
    conn_view con2 = ([], io_tx con, p') \<and>
    conn_slot con2 = (\<lambda>j. if j = k then None else run_slot j (concat (hss @ bss)) (conn_slot con j)) \<and> conn_ok n con2"
proof -
  from assms(1) obtain ss p1 where h: "drain_reads (fcgi_parser con) hreads = Some (hss, p1)"
    and b: "drain_reads p1 breads = Some (bss, p')" and ne: "hreads \<noteq> []"
    and st: "map (stdout_of k) hss = map (\<lambda>s. [s]) ss" and hp: "header_parsed prs [] ss rest m"
    and en: "\<not> ends k (concat (butlast (hss @ bss)))" "ends k (last (hss @ bss))"
    unfolding answers_def by blast
  let ?buf = "rest_frames rest"
  let ?b = "fb\<lparr>fb_was_returned := True\<rparr>"
  have hp': "header_parsed prs (case None of None \<Rightarrow> [] | Some left \<Rightarrow> left) ss rest m" using hp by simp
  have "set (concat (butlast hss)) \<subseteq> set (concat (butlast (hss @ bss)))"
    by (auto simp: butlast_append dest: in_set_butlastD)
  with en(1) have e1: "\<not> ends k (concat (butlast hss))" unfolding ends_def by blast
  from header_reads [OF h ne st e1 hp' assms(2-10)] obtain c1 q1 where
    1: "response_polls prs status_code dbg task (map FillData hreads) (Reading fb None []) con =
        Inr (after_header status_code fb rest m, c1)" "conn_view c1 = ([], io_tx con, p1)"
      "conn_slot c1 = (\<lambda>j. if j = k then Some q1 else run_slot j (concat hss) (conn_slot con j))"
      "rq_buf q1 = []" "\<not> rq_aborted q1" "rq_ended q1 \<longleftrightarrow> ends k (last hss)" "rq_waker q1 = None" "conn_ok n c1" by blast
  have s1: "conn_slot c1 (unat (fb_rid fb)) = Some q1" by (simp add: 1(3) assms(4))
  from put_back [OF s1 1(4,7,8)] obtain c2 where
    2: "create_response_poll prs status_code dbg True task FillPending (after_header status_code fb rest m) c1 =
        Inr (response_return fb (response_status status_code m) m, c2)" "conn_view c2 = conn_view c1"
      "conn_slot c2 = (conn_slot c1)(unat (fb_rid fb) \<mapsto> q1\<lparr>rq_buf := ?buf\<rparr>)" "conn_ok n c2" by blast
  have r: "response_polls prs status_code dbg task (map FillData hreads @ [FillPending]) (Reading fb None []) con =
      Inr (Returned ?b (response_status status_code m) m, c2)"
    by (simp add: response_polls_append 1(1) 2(1)) (simp add: response_return_def)
  have rx2: "io_rx c2 = []" using 1(2) 2(2) by (simp add: conn_view_def)
  let ?q = "q1\<lparr>rq_buf := ?buf\<rparr>"
  have d: "\<not> fb_done ?b" "fb_was_returned ?b" using assms(2) by simp_all
  have s2: "conn_slot (register_io task FillPending c2) (unat (fb_rid ?b)) = Some ?q" by (simp add: 2(3))
  have rx: "io_rx (register_io task FillPending c2) = []" using rx2 by simp
  have wf2: "BufList_wf (rq_buf ?q)" by (simp add: rest_frames_def)
  from drain_frames [OF d poll_resp_quiet [OF rx2, of dbg task] s2 wf2 rx] 2(4) obtain c3 where
    3: "frame_polls dbg task (FillPending # replicate (length ?buf) FillPending) ?b c2 =
        Inr (?buf, ?b\<lparr>fb_done := rq_ended q1\<rparr>, c3)" "conn_view c3 = conn_view c2"
      "conn_slot c3 = (conn_slot c2)(k := drained task ?q)" "conn_ok n c3"
    by (auto simp: assms(4))
  have v3: "io_rx c3 = []" "io_tx c3 = io_tx con" "fcgi_parser c3 = p1"
    using 3(2) 2(2) 1(2) by (simp_all add: conn_view_def)
  have s3: "conn_slot c3 = (\<lambda>j. if j = k then drained task ?q else run_slot j (concat hss) (conn_slot con j))"
    by (simp add: 3(3) 2(3) 1(3) assms(4) fun_eq_iff)
  show ?thesis
  proof (cases "breads = []")
    case True
    with b en(2) 1(6) have e: "rq_ended q1" "bss = []" "p1 = p'" by auto
    have "conn_view c3 = ([], io_tx con, p')" using v3 e(3) by (simp add: conn_view_def)
    moreover have "conn_slot c3 = (\<lambda>j. if j = k then None else run_slot j (concat (hss @ bss)) (conn_slot con j))"
      using e(1,2) by (auto simp: s3 drained_def fun_eq_iff)
    ultimately show ?thesis using r 3(1,4) e(1,2) True
      by - (rule exI [of _ c2], rule exI [of _ c3], simp add: body_schedule_def frame_schedule_def stdout_of_concat [of _ "[]", simplified])
  next
    case False
    with drain_reads_length [OF b] have bne: "bss \<noteq> []" by auto
    with en have e: "\<not> ends k (concat (butlast bss))" "ends k (last bss)" "\<not> ends k (concat hss)"
      by (simp_all add: butlast_append)
    have hne: "hss \<noteq> []" using drain_reads_length [OF h] ne by auto
    then have "\<not> ends k (last hss)" using e(3) unfolding ends_def set_concat by (meson UN_I last_in_set)
    with 1(6) have ne1: "\<not> rq_ended q1" by simp
    let ?q3 = "?q\<lparr>rq_buf := [], rq_waker := Some task\<rparr>"
    have bd: "?b\<lparr>fb_done := False\<rparr> = ?b" using assms(2) by (cases fb) simp
    have s3': "conn_slot c3 k = Some ?q3" using ne1 by (simp add: s3 drained_def)
    have ok3: "\<not> rq_aborted ?q3" "rq_buf ?q3 = []" "\<not> rq_ended ?q3" using 1(5) ne1 by simp_all
    have fk: "unat (fb_rid ?b) = k" using assms(4) by simp
    from body_reads [OF b [folded v3(3)] False e(1,2) d fk v3(1) 3(4) s3' ok3] obtain c4 where
      4: "frame_polls dbg task (frame_schedule k breads bss) ?b c3 = Inr (stdout_of k (concat bss), ?b\<lparr>fb_done := True\<rparr>, c4)"
        "conn_view c4 = ([], io_tx c3, p')"
        "conn_slot c4 = (\<lambda>j. if j = k then None else run_slot j (concat bss) (conn_slot c3 j))" "conn_ok n c4" by blast
    have f: "frame_polls dbg task (body_schedule k rest breads bss) ?b c2 =
        Inr (?buf @ stdout_of k (concat bss), ?b\<lparr>fb_done := True\<rparr>, c4)"
      unfolding body_schedule_def frame_polls_append 3(1) using 4(1) ne1 bd by simp
    have "conn_slot c4 = (\<lambda>j. if j = k then None else run_slot j (concat (hss @ bss)) (conn_slot con j))"
      by (simp add: 4(3) s3 run_slot_append fun_eq_iff)
    then show ?thesis using r f 4(2,4) v3(2)
      by - (rule exI [of _ c2], rule exI [of _ c4], simp)
  qed
qed

section \<open>The whole exchange\<close>

definition finished_body :: "nat \<Rightarrow> FCGIBody" where
  "finished_body k = \<lparr>fb_rid = of_nat k, fb_done = True, fb_was_returned = True\<rparr>"

text \<open>The script of an exchange: the stream takes what is written and delivers one read per poll.\<close>

definition exchange_polls ::
  "(IoError + nat) list \<Rightarrow> nat \<Rightarrow> bytes list \<Rightarrow> bytes list \<Rightarrow> bytes list \<Rightarrow> bytes \<Rightarrow> Record list list \<Rightarrow> exchange_script" where
  "exchange_polls sc k vs hreads breads rest bss =
     \<lparr>xs_open = sc, xs_body = body_script sc vs, xs_response = map FillData hreads @ [FillPending],
      xs_frames = body_schedule k rest breads bss\<rparr>"

lemma exchange_works:
  fixes alloc con
  defines "k \<equiv> alloc (running_requests con)"
  defines "w \<equiv> \<lambda>mul req dyn_headers vs. request_wire mul req dyn_headers (of_nat (k + 1)) vs"
  assumes "conn_ok n con" "n \<le> 65535" "0 < sem con" "io_rx con = []" "alloc_ok alloc"
    and "list_all (\<lambda>h. \<not> refused mul nl h) (req_headers req)"
    and "list_all kv_ok (request_env mul req dyn_headers)" "body_fits req vs"
    and "ample (length (w mul req dyn_headers vs)) sc"
    and "answers prs k (fcgi_parser con) hreads breads rest m hss bss p'"
  shows "\<exists>con'. exchange dbg uninit alloc prs status_code mul nl task req dyn_headers
      (exchange_polls sc k vs hreads breads rest bss) con =
      Inr (Some \<lparr>rp_status = response_status status_code m, rp_headers = m,
        rp_frames = rest_frames rest @ stdout_of k (concat bss), rp_body = finished_body k\<rparr>, con') \<and>
    conn_view con' = ([], io_tx con @ w mul req dyn_headers vs, p') \<and>
    conn_slot con' = (\<lambda>j. if j = k then None else run_slot j (concat (hss @ bss)) (conn_slot con j)) \<and> conn_ok n con'"
proof -
  define rid :: u16 where "rid = of_nat (k + 1)"
  let ?c1 = "con\<lparr>sem := sem con - Suc 0\<rparr>" and ?w = "request_wire mul req dyn_headers rid vs"
  let ?c2 = "opened_connection alloc task ?w ?c1"
  have w: "w mul req dyn_headers vs = ?w" by (simp add: w_def rid_def)
  have acq: "Connection_acquire con = Ready ?c1" using assms(5) by (simp add: Connection_acquire_def)
  have "length (running_requests con) < 65535" using assms(3-5) by (simp add: conn_ok_def)
  with assms(7) have key: "Slab_get (running_requests con) k = None" "k < 65535"
    by (simp_all add: alloc_ok_def k_def)
  have new: "request_ok FCGIRequest_new" by (simp add: request_ok_def FCGIRequest_new_def BufList_new_def)
  have ok2: "conn_ok n ?c2"
    using assms(3,5) key(1) new by (auto simp: conn_ok_def opened_connection_def k_def
      slab.wf_ins slab.size_ins slab.all_values_ins)
  have rk: "unat (rid - 1) = k" unfolding rid_def by (rule request_id_key(2) [OF key(2)])
  have slot: "conn_slot ?c2 = (conn_slot con)(k \<mapsto> FCGIRequest_new)"
    by (simp add: opened_connection_def conn_slot_def slab_simps k_def)
  have c2: "io_rx ?c2 = []" "fcgi_parser ?c2 = fcgi_parser con" "io_tx ?c2 = io_tx con @ ?w"
    using assms(6) by (simp_all add: opened_connection_def)
  have rx1: "io_rx ?c1 = []" using assms(6) by simp
  have am: "ample (length (request_wire mul req dyn_headers (of_nat (alloc (running_requests ?c1) + 1)) vs)) sc"
    using assms(11) by (simp add: w rid_def k_def)
  from exchange_sends [where alloc = alloc and con = ?c1 and dbg = dbg and uninit = uninit and task = task,
      OF rx1 assms(8-10) am] obtain len' d where
    o: "forward_open dbg uninit alloc mul nl task FillPending (Inr ()) sc req dyn_headers ?c1 = Inr (Inr (rid, len'), d)"
    and s: "send_polls dbg uninit rid (body_script sc vs) len' d = (Inr None, ?c2)" by (auto simp: k_def rid_def)
  let ?fb = "\<lparr>fb_rid = rid - 1, fb_done = False, fb_was_returned = False\<rparr>"
  have q: "conn_slot ?c2 k = Some FCGIRequest_new" "\<not> rq_aborted FCGIRequest_new" "rq_buf FCGIRequest_new = []"
    "\<not> rq_ended FCGIRequest_new" by (simp_all add: slot FCGIRequest_new_def BufList_new_def)
  have fb: "\<not> fb_done ?fb" "\<not> fb_was_returned ?fb" "unat (fb_rid ?fb) = k" using rk by simp_all
  from response_complete [OF assms(12) [folded c2(2)] fb c2(1) ok2 q] obtain c3 c4 where
    r: "response_polls prs status_code dbg task (map FillData hreads @ [FillPending]) (Reading ?fb None []) ?c2 =
        Inr (Returned (?fb\<lparr>fb_was_returned := True\<rparr>) (response_status status_code m) m, c3)"
      "frame_polls dbg task (body_schedule k rest breads bss) (?fb\<lparr>fb_was_returned := True\<rparr>) c3 =
        Inr (rest_frames rest @ stdout_of k (concat bss), ?fb\<lparr>fb_was_returned := True, fb_done := True\<rparr>, c4)"
      "conn_view c4 = ([], io_tx ?c2, p')"
      "conn_slot c4 = (\<lambda>j. if j = k then None else run_slot j (concat (hss @ bss)) (conn_slot ?c2 j))" "conn_ok n c4" by blast
  have fin: "?fb\<lparr>fb_was_returned := True, fb_done := True\<rparr> = finished_body k"
    by (simp add: finished_body_def rid_def)
  have e: "exchange dbg uninit alloc prs status_code mul nl task req dyn_headers
      (exchange_polls sc k vs hreads breads rest bss) con =
      Inr (Some \<lparr>rp_status = response_status status_code m, rp_headers = m,
        rp_frames = rest_frames rest @ stdout_of k (concat bss), rp_body = finished_body k\<rparr>, c4)"
    unfolding exchange_def exchange_polls_def acq poll.case exchange_script.simps o rbind.simps prod.case sum.case
      Let_def s option.case create_response_start_def r(1) response.case r(2) fin ..
  have "conn_slot c4 = (\<lambda>j. if j = k then None else run_slot j (concat (hss @ bss)) (conn_slot con j))"
    by (simp add: r(4) slot fun_eq_iff)
  with e r(3,5) c2(3) w show ?thesis by (intro exI [of _ c4]) simp
qed


section \<open>One exchange after the other\<close>

lemma conn_ok_card: "conn_ok n con \<Longrightarrow> length (running_requests con) = card (dom (conn_slot con)) \<and> finite (dom (conn_slot con))"
proof -
  assume "conn_ok n con"
  then have "distinct (map fst (running_requests con))" by (simp add: conn_ok_def Slab_wf_def)
  from distinct_card [OF this] have "card (fst ` set (running_requests con)) = length (running_requests con)" by simp
  then show ?thesis by (simp add: conn_slot_def Slab_get_def dom_map_of_conv_image_fst)
qed

lemma sem_grows:
  assumes "conn_ok n con" "conn_ok n con'" "dom (conn_slot con') \<subseteq> dom (conn_slot con)"
  shows "sem con \<le> sem con'"
proof -
  from conn_ok_card [OF assms(1)] conn_ok_card [OF assms(2)] card_mono [OF _ assms(3)]
  have "length (running_requests con') \<le> length (running_requests con)" by simp
  with assms(1,2) show ?thesis by (simp add: conn_ok_def)
qed

lemma run_conn_ok:
  assumes "forward_run dbg uninit alloc prs status_code mul nl max_req clean (con, ts)" "alloc_ok alloc"
  shows "\<exists>n \<le> 65535. conn_ok n con"
proof -
  from reachable_ok [OF assms(2) run_reachable [OF assms(1)]] obtain m where
    "conn_ok m con" "m + queued (map task_client ts) = unat max_req" by (auto simp: task_system_def system_ok_def)
  moreover have "unat max_req < 65536" by simp
  ultimately have "m \<le> 65535" by linarith
  with \<open>conn_ok m con\<close> show ?thesis by blast
qed

text \<open>An idle connection is one that can be used as if it were new.\<close>

definition idle :: "nat \<Rightarrow> InnerConnection \<Rightarrow> bool" where
  "idle n con \<longleftrightarrow> running_requests con = [] \<and> io_rx con = [] \<and> fcgi_parser con = RecordReader_new \<and> sem con = n"

lemma idle_new: "idle (unat n) (Connection_new n)"
  by (simp add: idle_def Connection_new_def)

lemma idle_ok: "idle n con \<Longrightarrow> conn_ok n con"
  by (simp add: idle_def conn_ok_def Slab_wf_def slab.all_values_def Slab_get_def)

lemma idleI:
  assumes "conn_ok n con" "conn_view con = ([], t, RecordReader_new)" "conn_slot con = (\<lambda>_. None)"
  shows "idle n con"
proof -
  have "running_requests con = []"
    using assms(3) by (cases "running_requests con") (auto simp: conn_slot_def Slab_get_def fun_eq_iff split: if_splits)
  with assms(1,2) show ?thesis by (simp add: idle_def conn_view_def conn_ok_def)
qed

text \<open>A call with all that its caller and its server do: the request, the pieces of its body, and the answer.\<close>

record call =
  cl_req :: HttpRequest
  cl_env :: "(bytes \<times> bytes) list"
  cl_pieces :: "bytes list"
  cl_hreads :: "bytes list"
  cl_breads :: "bytes list"
  cl_rest :: bytes
  cl_map :: HeaderMap
  cl_hss :: "Record list list"
  cl_bss :: "Record list list"

definition call_wire :: "MultiHeaderStrategy \<Rightarrow> nat \<Rightarrow> call \<Rightarrow> bytes" where
  "call_wire mul k cl = request_wire mul (cl_req cl) (cl_env cl) (of_nat (k + 1)) (cl_pieces cl)"

definition call_reply :: "(bytes \<Rightarrow> u16 option) \<Rightarrow> nat \<Rightarrow> call \<Rightarrow> reply" where
  "call_reply status_code k cl = \<lparr>rp_status = response_status status_code (cl_map cl), rp_headers = cl_map cl,
     rp_frames = rest_frames (cl_rest cl) @ stdout_of k (concat (cl_bss cl)), rp_body = finished_body k\<rparr>"

definition call_script :: "(IoError + nat) list \<Rightarrow> nat \<Rightarrow> call \<Rightarrow> exchange_script" where
  "call_script sc k cl = exchange_polls sc k (cl_pieces cl) (cl_hreads cl) (cl_breads cl) (cl_rest cl) (cl_bss cl)"

definition call_ok ::
  "(bytes \<Rightarrow> HeaderMap \<Rightarrow> panic + ParseResult \<times> HeaderMap) \<Rightarrow> MultiHeaderStrategy \<Rightarrow> HeaderMultilineStrategy \<Rightarrow>
     (IoError + nat) list \<Rightarrow> nat \<Rightarrow> RecordReader \<Rightarrow> RecordReader \<Rightarrow> call \<Rightarrow> bool" where
  "call_ok prs mul nl sc k p p' cl \<longleftrightarrow>
     list_all (\<lambda>h. \<not> refused mul nl h) (req_headers (cl_req cl)) \<and>
     list_all kv_ok (request_env mul (cl_req cl) (cl_env cl)) \<and> body_fits (cl_req cl) (cl_pieces cl) \<and>
     ample (length (call_wire mul k cl)) sc \<and>
     answers prs k p (cl_hreads cl) (cl_breads cl) (cl_rest cl) (cl_map cl) (cl_hss cl) (cl_bss cl) p'"

definition call_exchange ::
  "bool \<Rightarrow> (nat \<Rightarrow> u8) \<Rightarrow> (FCGIRequest slots \<Rightarrow> nat) \<Rightarrow>
     (bytes \<Rightarrow> HeaderMap \<Rightarrow> panic + ParseResult \<times> HeaderMap) \<Rightarrow> (bytes \<Rightarrow> u16 option) \<Rightarrow>
     MultiHeaderStrategy \<Rightarrow> HeaderMultilineStrategy \<Rightarrow> nat \<Rightarrow> (IoError + nat) list \<Rightarrow> call \<Rightarrow>
     InnerConnection \<Rightarrow> panic + reply option \<times> InnerConnection" where
  "call_exchange dbg uninit alloc prs status_code mul nl task sc cl con =
     exchange dbg uninit alloc prs status_code mul nl task (cl_req cl) (cl_env cl)
       (call_script sc (alloc (running_requests con)) cl) con"

fun call_exchanges ::
  "bool \<Rightarrow> (nat \<Rightarrow> u8) \<Rightarrow> (FCGIRequest slots \<Rightarrow> nat) \<Rightarrow>
     (bytes \<Rightarrow> HeaderMap \<Rightarrow> panic + ParseResult \<times> HeaderMap) \<Rightarrow> (bytes \<Rightarrow> u16 option) \<Rightarrow>
     MultiHeaderStrategy \<Rightarrow> HeaderMultilineStrategy \<Rightarrow> nat \<Rightarrow> (IoError + nat) list \<Rightarrow> call list \<Rightarrow>
     InnerConnection \<Rightarrow> panic + reply option list \<times> InnerConnection" where
  "call_exchanges dbg uninit alloc prs status_code mul nl task sc [] con = Inr ([], con)"
| "call_exchanges dbg uninit alloc prs status_code mul nl task sc (cl # cls) con =
     rbind (call_exchange dbg uninit alloc prs status_code mul nl task sc cl con) (\<lambda>(rp, con).
     rbind (call_exchanges dbg uninit alloc prs status_code mul nl task sc cls con) (\<lambda>(rps, con).
       Inr (rp # rps, con)))"

lemma call_works:
  fixes con alloc
  defines "k \<equiv> alloc (running_requests con)"
  assumes "conn_ok n con" "n \<le> 65535" "0 < sem con" "io_rx con = []" "alloc_ok alloc"
    and "call_ok prs mul nl sc k (fcgi_parser con) p' cl"
  shows "\<exists>con'. call_exchange dbg uninit alloc prs status_code mul nl task sc cl con =
      Inr (Some (call_reply status_code k cl), con') \<and>
    conn_view con' = ([], io_tx con @ call_wire mul k cl, p') \<and>
    conn_slot con' = (\<lambda>j. if j = k then None else run_slot j (concat (cl_hss cl @ cl_bss cl)) (conn_slot con j)) \<and>
    conn_ok n con' \<and> sem con \<le> sem con'"
proof -
  have c: "list_all (\<lambda>h. \<not> refused mul nl h) (req_headers (cl_req cl))"
    "list_all kv_ok (request_env mul (cl_req cl) (cl_env cl))" "body_fits (cl_req cl) (cl_pieces cl)"
    "ample (length (request_wire mul (cl_req cl) (cl_env cl) (of_nat (alloc (running_requests con) + 1)) (cl_pieces cl))) sc"
    "answers prs (alloc (running_requests con)) (fcgi_parser con) (cl_hreads cl) (cl_breads cl) (cl_rest cl) (cl_map cl)
      (cl_hss cl) (cl_bss cl) p'"
    using assms(7) by (simp_all add: call_ok_def call_wire_def k_def)
  from exchange_works [where alloc = alloc and con = con and dbg = dbg and uninit = uninit and task = task
      and status_code = status_code, OF assms(2-6) c] obtain con' where
    x: "exchange dbg uninit alloc prs status_code mul nl task (cl_req cl) (cl_env cl) (call_script sc k cl) con =
        Inr (Some (call_reply status_code k cl), con')"
      "conn_view con' = ([], io_tx con @ call_wire mul k cl, p')"
      "conn_slot con' = (\<lambda>j. if j = k then None else run_slot j (concat (cl_hss cl @ cl_bss cl)) (conn_slot con j))"
      "conn_ok n con'"
    unfolding k_def call_script_def call_reply_def call_wire_def by blast
  have "dom (conn_slot con') \<subseteq> dom (conn_slot con)"
  proof
    fix j
    assume "j \<in> dom (conn_slot con')"
    then show "j \<in> dom (conn_slot con)" by (cases "conn_slot con j") (auto simp: x(3) dom_def split: if_splits)
  qed
  from sem_grows [OF assms(2) x(4) this] x show ?thesis by (auto simp: call_exchange_def k_def)
qed

lemma call_idle:
  assumes "idle n con" "0 < n" "n \<le> 65535" "alloc_ok alloc"
    and "call_ok prs mul nl sc (alloc []) RecordReader_new RecordReader_new cl"
  shows "\<exists>con'. call_exchange dbg uninit alloc prs status_code mul nl task sc cl con =
      Inr (Some (call_reply status_code (alloc []) cl), con') \<and>
    idle n con' \<and> io_tx con' = io_tx con @ call_wire mul (alloc []) cl"
proof -
  have c: "0 < sem con" "io_rx con = []" "fcgi_parser con = RecordReader_new" "running_requests con = []"
    using assms(1,2) by (simp_all add: idle_def)
  have ck: "call_ok prs mul nl sc (alloc (running_requests con)) (fcgi_parser con) RecordReader_new cl"
    using assms(5) c by simp
  from call_works [OF idle_ok [OF assms(1)] assms(3) c(1,2) assms(4) ck, of dbg uninit status_code task, unfolded c(4)]
  obtain con' where x: "call_exchange dbg uninit alloc prs status_code mul nl task sc cl con =
      Inr (Some (call_reply status_code (alloc []) cl), con')"
    "conn_view con' = ([], io_tx con @ call_wire mul (alloc []) cl, RecordReader_new)"
    "conn_slot con' = (\<lambda>j. if j = alloc [] then None else run_slot j (concat (cl_hss cl @ cl_bss cl)) (conn_slot con j))"
    "conn_ok n con'" by blast
  have "conn_slot con = (\<lambda>_. None)" by (simp add: c(4) conn_slot_def Slab_get_def fun_eq_iff)
  then have "conn_slot con' = (\<lambda>_. None)" by (simp add: x(3) fun_eq_iff)
  from idleI [OF x(4,2) this] x(1,2) show ?thesis by (simp add: conn_view_def)
qed

lemma calls_idle:
  assumes "alloc_ok alloc" "0 < n" "n \<le> 65535" "idle n con"
    and "list_all (call_ok prs mul nl sc (alloc []) RecordReader_new RecordReader_new) cls"
  shows "\<exists>con'. call_exchanges dbg uninit alloc prs status_code mul nl task sc cls con =
      Inr (map (\<lambda>cl. Some (call_reply status_code (alloc []) cl)) cls, con') \<and>
    idle n con' \<and> io_tx con' = io_tx con @ concat (map (call_wire mul (alloc [])) cls)"
  using assms(5,4)
proof (induction cls arbitrary: con)
  case (Cons cl cls)
  then have cl: "call_ok prs mul nl sc (alloc []) RecordReader_new RecordReader_new cl" by simp
  from call_idle [OF Cons.prems(2) assms(2,3,1) cl, of dbg uninit status_code task] obtain con1 where
    1: "call_exchange dbg uninit alloc prs status_code mul nl task sc cl con =
        Inr (Some (call_reply status_code (alloc []) cl), con1)"
      "idle n con1" "io_tx con1 = io_tx con @ call_wire mul (alloc []) cl" by blast
  from Cons.IH [OF _ 1(2)] Cons.prems(1) 1 show ?case by fastforce
qed simp

lemma limit_bounds: "unat (n :: u16) \<le> 65535" "0 < n \<Longrightarrow> 0 < unat n"
proof -
  have "unat n < 65536" by simp
  then show "unat n \<le> 65535" by linarith
  show "0 < n \<Longrightarrow> 0 < unat n" by (simp add: word_gt_0 unat_gt_0)
qed

section \<open>Properties\<close>

text \<open>
  C3. One exchange, end to end, on a connection in any state that calls of \<open>forward\<close> can bring it to and in
  which a permit is free and nothing that was received is unread (\<open>io_rx\<close>). The conditions are those of \<open>call_ok\<close>: no header
  of the request is refused, its variables can be encoded, its body has the announced length, the stream takes
  what is written, and the server answers (\<open>answers\<close>) in reads of this form:
  (1) none ends within the header or the padding of a record;
  (2) each read up to the end of the response header brings exactly one fragment of the standard output of this
  request; what is behind the end of the header in the last of them is the beginning of the body, but no second
  fragment comes with it (it would get in front of this beginning: \<open>create_response_puts_back\<close>);
  (3) the last read ends the request, and none before it.
  Then the caller gets the status and the header of the answer and its body, whole and in order; the stream
  has got exactly the request; the slot and the permit are free again, and the requests of others have got the
  records for them. The final state is a state of the task model.
\<close>

theorem exchange_completes:
  assumes "forward_run dbg uninit alloc prs status_code mul nl max_req clean (con, ts)" "alloc_ok alloc"
    and "0 < sem con" "io_rx con = []"
    and "call_ok prs mul nl sc (alloc (running_requests con)) (fcgi_parser con) p' cl"
    and "k = alloc (running_requests con)"
  shows "\<exists>con' rid. call_exchange dbg uninit alloc prs status_code mul nl task sc cl con =
      Inr (Some (call_reply status_code k cl), con') \<and>
    forward_run dbg uninit alloc prs status_code mul nl max_req clean (con', ts @ [Forwarding rid None
      (Returned (finished_body k) (response_status status_code (cl_map cl)) (cl_map cl))]) \<and>
    io_tx con' = io_tx con @ call_wire mul k cl \<and> io_rx con' = [] \<and> fcgi_parser con' = p' \<and>
    conn_slot con' = (\<lambda>j. if j = k then None else run_slot j (concat (cl_hss cl @ cl_bss cl)) (conn_slot con j)) \<and>
    sem con \<le> sem con'"
proof -
  from run_conn_ok [OF assms(1,2)] obtain n where n: "n \<le> 65535" "conn_ok n con" by blast
  from call_works [OF n(2,1) assms(3,4,2,5), of dbg uninit status_code task] obtain con' where
    x: "call_exchange dbg uninit alloc prs status_code mul nl task sc cl con = Inr (Some (call_reply status_code k cl), con')"
      "conn_view con' = ([], io_tx con @ call_wire mul k cl, p')"
      "conn_slot con' = (\<lambda>j. if j = k then None else run_slot j (concat (cl_hss cl @ cl_bss cl)) (conn_slot con j))"
      "sem con \<le> sem con'" by (auto simp: assms(6))
  have kv: "list_all kv_ok (request_env mul (cl_req cl) (cl_env cl))" using assms(5) by (simp add: call_ok_def)
  from exchange_run [OF x(1) [unfolded call_exchange_def] assms(1) kv] x show ?thesis
    by (auto simp: conn_view_def call_reply_def)
qed

text \<open>
  The call of the witnesses: the header (two bytes, for the parser used here) comes in two reads, with a
  byte of the body behind it; the last read brings the rest of the body and the end of the request.
\<close>

definition example_prs :: "bytes \<Rightarrow> HeaderMap \<Rightarrow> panic + ParseResult \<times> HeaderMap" where
  "example_prs b m = Inr (if length b < 2 then (ParseResult.Pending, m)
     else (ParseResult.Ok (drop 2 b), [(bstr ''status'', bstr ''404'')]))"

definition example_out :: "u16 \<Rightarrow> bytes \<Rightarrow> Record" where
  "example_out n b = \<lparr>header = \<lparr>version = 1, rtype = RecordType.StdOut, request_id = 1, content_length = n,
     padding_length = 0\<rparr>, body = Body.StdOut b\<rparr>"

definition example_end :: Record where
  "example_end = \<lparr>header = \<lparr>version = 1, rtype = RecordType.EndRequest, request_id = 1, content_length = 8,
     padding_length = 0\<rparr>, body = Body.EndRequest \<lparr>app_status = 0, protocol_status = ProtoStatus.Complete\<rparr>\<rparr>"

definition example_call :: call where
  "example_call = \<lparr>cl_req = example_get, cl_env = [], cl_pieces = [],
     cl_hreads = [[1, 6, 0, 1, 0, 1, 0, 0, 72], [1, 6, 0, 1, 0, 2, 0, 0, 10, 65]],
     cl_breads = [[1, 6, 0, 1, 0, 1, 0, 0, 66, 1, 3, 0, 1, 0, 8, 0, 0, 0, 0, 0, 0, 0, 0, 0, 0]],
     cl_rest = [65], cl_map = [(bstr ''status'', bstr ''404'')],
     cl_hss = [[example_out 1 [72]], [example_out 2 [10, 65]]], cl_bss = [[example_out 1 [66], example_end]]\<rparr>"

lemma example_drain:
  "drain_reads RecordReader_new (cl_hreads example_call) = Some (cl_hss example_call, RecordReader_new) \<and>
    drain_reads RecordReader_new (cl_breads example_call) = Some (cl_bss example_call, RecordReader_new)"
  by code_simp

lemma example_records:
  "map (stdout_of 0) (cl_hss example_call) = map (\<lambda>s. [s]) [[72], [10, 65]]"
  "stdout_of 0 (concat (cl_bss example_call)) = [[66]]"
  "\<not> ends 0 (concat (butlast (cl_hss example_call @ cl_bss example_call)))"
  "ends 0 (last (cl_hss example_call @ cl_bss example_call))"
  by (simp_all add: example_call_def example_out_def example_end_def stdout_of_def ends_def for_request_def)

lemma example_wire_length: "length (call_wire OnlyFirst 0 example_call) \<le> 104"
proof -
  have "call_wire OnlyFirst 0 example_call = opening_wire OnlyFirst example_get [] 1"
    by (simp add: call_wire_def example_call_def request_wire_def opening_wire_def)
  with example_get_length show ?thesis by simp
qed

lemma example_call_ok:
  "call_ok example_prs OnlyFirst Ignore (replicate 104 (Inr (Suc 0))) 0 RecordReader_new RecordReader_new example_call"
proof -
  have "header_parsed example_prs [] [[72], [10, 65]] [65] [(bstr ''status'', bstr ''404'')]"
    by (auto simp: header_parsed_def example_prs_def less_Suc_eq)
  then have "answers example_prs 0 RecordReader_new (cl_hreads example_call) (cl_breads example_call) (cl_rest example_call)
      (cl_map example_call) (cl_hss example_call) (cl_bss example_call) RecordReader_new"
    unfolding answers_def using example_drain example_records
    by (intro exI [of _ "[[72], [10, 65]]"] exI [of _ RecordReader_new]) (simp add: example_call_def)
  then show ?thesis
    using example_kv_ok(2) ample_mono [OF ample_replicate example_wire_length]
    by (simp add: call_ok_def) (simp add: example_call_def body_fits_def)
qed

theorem exchange_completes_witness:
  "\<exists>con'. call_exchange True (\<lambda>_. 0) least_vacant example_prs (\<lambda>_. None) OnlyFirst Ignore 7
      (replicate 104 (Inr (Suc 0))) example_call (Connection_new 1) =
      Inr (Some \<lparr>rp_status = 200, rp_headers = [(bstr ''status'', bstr ''404'')], rp_frames = [[65], [66]],
        rp_body = finished_body 0\<rparr>, con') \<and>
    io_tx con' = call_wire OnlyFirst 0 example_call \<and> 1 \<le> sem con'"
proof -
  let ?c = "Connection_new 1"
  have run: "forward_run True (\<lambda>_. 0) least_vacant example_prs (\<lambda>_. None) OnlyFirst Ignore 1 True (?c, [])"
    by (rule forward_run.start)
  have c: "0 < sem ?c" "io_rx ?c = []" "least_vacant (running_requests ?c) = 0" "fcgi_parser ?c = RecordReader_new"
    "io_tx ?c = []" "sem ?c = 1"
    by (simp_all add: Connection_new_def least_vacant_def)
  have ok: "call_ok example_prs OnlyFirst Ignore (replicate 104 (Inr (Suc 0))) (least_vacant (running_requests ?c))
      (fcgi_parser ?c) RecordReader_new example_call" unfolding c by (rule example_call_ok)
  have rp: "call_reply (\<lambda>_. None) 0 example_call = \<lparr>rp_status = 200, rp_headers = [(bstr ''status'', bstr ''404'')],
      rp_frames = [[65], [66]], rp_body = finished_body 0\<rparr>"
    using example_records(2)
    by (simp add: call_reply_def) (simp add: example_call_def rest_frames_def response_status_def HeaderMap_get_def)
  from exchange_completes [OF run least_vacant_ok c(1,2) ok c(3) [symmetric], of 7] show ?thesis
    unfolding rp c by auto
qed

text \<open>
  C4. A connection is reusable: on a new connection whose limit is not zero, let any number of calls be made, one
  after the other, each with the conditions \<open>call_ok\<close>: no header of the request is refused, its variables can be
  encoded, its body has the announced length, the stream takes what is written; and of the reads that bring the
  answer none ends within the header or the padding of a record, each brings exactly one fragment of the standard
  output until the response header is complete, the last one, and none before it, ends the request, and no
  record is left unfinished. Then each call gets its own answer, the stream has got their requests in order,
  and the connection is idle again, as it was when it was new.
\<close>

theorem connection_serves_all:
  assumes "alloc_ok alloc" "0 < max_req"
    and "list_all (call_ok prs mul nl sc (alloc []) RecordReader_new RecordReader_new) cls"
  shows "\<exists>con. call_exchanges dbg uninit alloc prs status_code mul nl task sc cls (Connection_new max_req) =
      Inr (map (\<lambda>cl. Some (call_reply status_code (alloc []) cl)) cls, con) \<and>
    idle (unat max_req) con \<and> io_tx con = concat (map (call_wire mul (alloc [])) cls)"
  using calls_idle [OF assms(1) limit_bounds(2) [OF assms(2)] limit_bounds(1) idle_new assms(3)]
  by (simp add: Connection_new_def)

theorem connection_serves_all_witness:
  "\<exists>con. call_exchanges True (\<lambda>_. 0) least_vacant example_prs (\<lambda>_. None) OnlyFirst Ignore 7
      (replicate 104 (Inr (Suc 0))) [example_call, example_call] (Connection_new 1) =
      Inr ([Some (call_reply (\<lambda>_. None) 0 example_call), Some (call_reply (\<lambda>_. None) 0 example_call)], con) \<and>
    idle 1 con \<and> io_tx con = call_wire OnlyFirst 0 example_call @ call_wire OnlyFirst 0 example_call"
proof -
  have k: "least_vacant [] = 0" by (simp add: least_vacant_def)
  have l: "list_all (call_ok example_prs OnlyFirst Ignore (replicate 104 (Inr (Suc 0))) (least_vacant []) RecordReader_new
      RecordReader_new) [example_call, example_call]" using example_call_ok by (simp add: k)
  have pos: "0 < (1 :: u16)" by simp
  from connection_serves_all [OF least_vacant_ok pos l, of True "\<lambda>_. 0" "\<lambda>_. None" 7] show ?thesis by (simp add: k)
qed

end
