(* ===== verification/Con_Pool.thy ===== *)
theory Con_Pool
  imports Forward_Invariants Decimal
begin

text \<open>
  \<open>src/client/con_pool.rs\<close>: \<open>ConPool\<close> asks the server for its limits and opens a connection
  with them.

  What the server's answer brings is a script of reads: an error or some bytes, where no bytes are
  the end of the stream (\<open>read_buf\<close> then returns 0, again and again); a script that has run out
  stands for a read that is still pending. \<open>parse_int\<close> goes through UTF-8 first, which makes no
  difference for the digits and the sign that a number has.
\<close>

section \<open>The negotiation\<close>

record ConPool =
  max_cons :: nat
  max_req_per_con :: nat
  con_pool :: Connection

definition parse_int :: "nat \<Rightarrow> bytes \<Rightarrow> nat option" where
  "parse_int limit bs = parse_unsigned limit bs"

text \<open>The inner loop, over the pairs of one record; it stops parsing at the \<open>break\<close>.\<close>

function negotiate_pairs :: "bytes \<Rightarrow> nat \<times> nat \<Rightarrow> panic + nat \<times> nat" where
  "negotiate_pairs kvs lims =
     rbind (NVDrain_next kvs) (\<lambda>(kv, kvs).
       case kv of
         None \<Rightarrow> Inr lims
       | Some kv \<Rightarrow>
           if name_data kv = MAX_CONNS then
             negotiate_pairs kvs
               (case parse_int 255 (value_data kv) of Some v \<Rightarrow> (v, snd lims) | None \<Rightarrow> lims)
           else if name_data kv = MAX_REQS then
             negotiate_pairs kvs
               (case parse_int 65535 (value_data kv) of Some v \<Rightarrow> (fst lims, v) | None \<Rightarrow> lims)
           else if name_data kv = MPXS_CONNS \<and> value_data kv = bstr ''0'' then Inr (fst lims, 1)
           else negotiate_pairs kvs lims)"
  by pat_completeness auto
termination
  by (relation "measure (\<lambda>(kvs, lims). length kvs)")
    (auto simp: NVDrain_next_def rbind_Inr_iff dest: parse_pair_length split: if_splits)

declare negotiate_pairs.simps [simp del]

fun negotiate_records :: "Record list \<Rightarrow> nat \<times> nat \<Rightarrow> panic + nat \<times> nat" where
  "negotiate_records [] lims = Inr lims"
| "negotiate_records (r # recs) lims =
     (case body r of
        Body.GetValuesResult kvs \<Rightarrow>
          rbind (NVBody_drain kvs) (\<lambda>kvs.
          rbind (negotiate_pairs kvs lims) (\<lambda>lims.
            negotiate_records recs lims))
      | _ \<Rightarrow> negotiate_records recs lims)"

section \<open>\<open>send_and_receive\<close>\<close>

lemma Record_read_length: "Record_read data = Inr (Some r, rest) \<Longrightarrow> length rest < length data"
  by (drule Record_read_SomeD) (auto simp: header_bytes_def put_u16_def)

function read_records :: "bytes \<Rightarrow> panic + Record list \<times> bytes" where
  "read_records pbuf =
     rbind (Record_read pbuf) (\<lambda>(ro, pbuf).
       case ro of
         None \<Rightarrow> Inr ([], pbuf)
       | Some r \<Rightarrow> rbind (read_records pbuf) (\<lambda>(recs, pbuf). Inr (r # recs, pbuf)))"
  by pat_completeness auto
termination
  by (relation "measure length") (auto dest: Record_read_length)

declare read_records.simps [simp del]

fun receive_loop :: "(IoError + bytes) list \<Rightarrow> bytes \<Rightarrow> Record list \<Rightarrow> fail + Record list" where
  "receive_loop [] rbuf recs = Inl Stalled"
| "receive_loop (Inl e # reads) rbuf recs = Inl (Io e)"
| "receive_loop (Inr d # reads) rbuf recs =
     (case read_records (rbuf @ d) of
        Inl p \<Rightarrow> Inl (Panicked p)
      | Inr (rs, pbuf) \<Rightarrow>
          if pbuf = [] then Inr (recs @ rs) else receive_loop reads pbuf (recs @ rs))"

definition send_and_receive :: "(IoError + bytes) list \<Rightarrow> fail + Record list" where
  "send_and_receive reads = receive_loop reads [] []"

section \<open>\<open>ConPool::new_with_strategy\<close>\<close>

definition ConPool_query :: "(nat \<Rightarrow> u8) \<Rightarrow> unit iom" where
  "ConPool_query uninit =
     (let kvw = FCGIWriter_kv_stream uninit MGMT_REQUEST_ID RecordType.GetValues in
      io_bind (NameValuePairWriter_add_kv uninit MAX_CONNS [] kvw) (\<lambda>kvw.
      io_bind (NameValuePairWriter_add_kv uninit MAX_REQS [] kvw) (\<lambda>kvw.
      io_bind (NameValuePairWriter_add_kv uninit MPXS_CONNS [] kvw) (\<lambda>kvw.
        NameValuePairWriter_flush kvw))))"

text \<open>\<open>connect1\<close>, \<open>connect2\<close>: what the two calls of \<open>Stream::connect\<close> return.\<close>

definition ConPool_new_with_strategy ::
  "(nat \<Rightarrow> u8) \<Rightarrow> IoError + io \<Rightarrow> (IoError + bytes) list \<Rightarrow> IoError + unit \<Rightarrow>
     MultiHeaderStrategy \<Rightarrow> HeaderMultilineStrategy \<Rightarrow> fail + ConPool" where
  "ConPool_new_with_strategy uninit connect1 reads connect2 mul nl =
     (case connect1 of
        Inl e \<Rightarrow> Inl (Io e)
      | Inr stream \<Rightarrow>
          rbind (fst (ConPool_query uninit stream)) (\<lambda>_.
          rbind (send_and_receive reads) (\<lambda>recs.
          case negotiate_records recs (1, 1) of
            Inl p \<Rightarrow> Inl (Panicked p)
          | Inr (cons, req) \<Rightarrow>
              (case Connection_connect_with_strategy connect2 (of_nat req) mul nl of
                 Inl e \<Rightarrow> Inl (Io e)
               | Inr c \<Rightarrow> Inr \<lparr>max_cons = cons, max_req_per_con = req, con_pool = c\<rparr>))))"

definition ConPool_new ::
  "(nat \<Rightarrow> u8) \<Rightarrow> IoError + io \<Rightarrow> (IoError + bytes) list \<Rightarrow> IoError + unit \<Rightarrow> fail + ConPool" where
  "ConPool_new uninit connect1 reads connect2 =
     ConPool_new_with_strategy uninit connect1 reads connect2 OnlyFirst Ignore"

text \<open>\<open>forward\<close> calls the \<open>forward\<close> of the connection.\<close>

definition ConPool_forward_open ::
  "bool \<Rightarrow> (nat \<Rightarrow> u8) \<Rightarrow> (FCGIRequest slots \<Rightarrow> nat) \<Rightarrow> nat \<Rightarrow> fill \<Rightarrow> IoError + unit \<Rightarrow> (IoError + nat) list \<Rightarrow>
     HttpRequest \<Rightarrow> (bytes \<times> bytes) list \<Rightarrow> ConPool \<Rightarrow> panic + (fail + u16 \<times> usize option) \<times> ConPool" where
  "ConPool_forward_open dbg uninit alloc task fill reconnect sc req dyn_headers self =
     rbind (Connection_forward_open dbg uninit alloc task fill reconnect sc req dyn_headers (con_pool self))
       (\<lambda>(res, c). Inr (res, self\<lparr>con_pool := c\<rparr>))"

text \<open>
  \<open>prep_server\<close>: the command that starts the application, with the listening socket as its standard
  input (on Unix). \<open>bound\<close>: what \<open>Listener::bind\<close> returns, a file descriptor.
\<close>

datatype Stdio = Null | FromRawFd nat

record Command =
  program :: bytes
  stdin :: Stdio

definition prep_server :: "bool \<Rightarrow> IoError + nat \<Rightarrow> bytes \<Rightarrow> IoError + Command" where
  "prep_server unix bound prog =
     rbind (if unix then rbind bound (\<lambda>fd. Inr (FromRawFd fd)) else Inr Null) (\<lambda>stdin'.
       Inr \<lparr>program = prog, stdin = stdin'\<rparr>)"

section \<open>What the answer means\<close>

text \<open>
  The specification: the pairs up to the first \<open>MPXS_CONNS\<close> with the value 0 count; of several
  valid values for a name the last one; that \<open>MPXS_CONNS\<close> fixes one request per connection.
\<close>

definition no_mpxs :: "NameValuePair \<Rightarrow> bool" where
  "no_mpxs kv \<longleftrightarrow> name_data kv = MPXS_CONNS \<and> value_data kv = bstr ''0''"

definition limit_of :: "bytes \<Rightarrow> nat \<Rightarrow> NameValuePair list \<Rightarrow> nat \<Rightarrow> nat" where
  "limit_of name limit kvs dflt =
     fold (\<lambda>kv n. if name_data kv = name then (case parse_int limit (value_data kv) of Some v \<Rightarrow> v | None \<Rightarrow> n)
       else n) kvs dflt"

definition limits :: "NameValuePair list \<Rightarrow> nat \<times> nat \<Rightarrow> nat \<times> nat" where
  "limits kvs lims =
     (let ks = takeWhile (\<lambda>kv. \<not> no_mpxs kv) kvs in
      (limit_of MAX_CONNS 255 ks (fst lims),
       if list_ex no_mpxs kvs then 1 else limit_of MAX_REQS 65535 ks (snd lims)))"

lemma names_distinct: "MAX_CONNS \<noteq> MAX_REQS" "MAX_CONNS \<noteq> MPXS_CONNS" "MAX_REQS \<noteq> MPXS_CONNS"
  by (simp_all add: MAX_CONNS_def MAX_REQS_def MPXS_CONNS_def bstr_def)

lemma drain_next_pair:
  "short_pair p \<Longrightarrow> NVDrain_next (pair_wire p @ r) = Inr (Some p, r)"
  by (simp add: NVDrain_next_def parse_pair_wire)

lemma negotiate_pairs_limits:
  "list_all short_pair kvs \<Longrightarrow> negotiate_pairs (concat (map pair_wire kvs)) lims = Inr (limits kvs lims)"
proof (induction kvs arbitrary: lims)
  case Nil
  then show ?case
    by (subst negotiate_pairs.simps) (simp add: NVDrain_next_def limits_def limit_of_def)
next
  case (Cons kv kvs)
  then have n: "NVDrain_next (concat (map pair_wire (kv # kvs))) = Inr (Some kv, concat (map pair_wire kvs))"
    and ih: "negotiate_pairs (concat (map pair_wire kvs)) l = Inr (limits kvs l)" for l
    by (simp_all add: drain_next_pair)
  show ?case
  proof (cases "no_mpxs kv")
    case True
    then show ?thesis
      using names_distinct
      by (subst negotiate_pairs.simps, subst n) (auto simp: no_mpxs_def limits_def limit_of_def)
  next
    case False
    then show ?thesis
      using names_distinct
      by (subst negotiate_pairs.simps, subst n)
        (auto simp: ih limits_def limit_of_def Let_def no_mpxs_def split: option.split)
  qed
qed

section \<open>Receiving in pieces\<close>

lemma read_records_None: "Record_read data = Inr (None, rest) \<Longrightarrow> read_records data = Inr ([], rest)"
  by (subst read_records.simps) simp

lemma read_records_Some:
  "Record_read data = Inr (Some r, rest) \<Longrightarrow>
     read_records data = rbind (read_records rest) (\<lambda>(recs, pbuf). Inr (r # recs, pbuf))"
  by (subst read_records.simps) simp

lemma read_records_Nil: "read_records [] = Inr ([], [])"
  by (rule read_records_None) (simp add: Record_read_short)

text \<open>A part of a record is no record yet.\<close>

lemma Record_read_prefix:
  assumes "Record_read (xs @ ys) = Inr (Some r, [])" "ys \<noteq> []"
  shows "Record_read xs = Inr (None, xs)"
proof (cases "length xs < 8")
  case False
  from Record_read_SomeD [OF assms(1)] obtain x payload pad where
    d: "xs @ ys = header_bytes (header r) x @ payload @ pad"
    "length payload = unat (content_length (header r))" "length pad = unat (padding_length (header r))" by auto
  let ?d = "drop 8 xs"
  have "take 8 (xs @ ys) = header_bytes (header r) x" by (simp add: d(1))
  with False have xs: "xs = header_bytes (header r) x @ ?d"
    by (metis append_take_drop_id linorder_not_less take_all_iff take_append diff_is_0_eq' nat_le_linear take0 append_Nil2)
  then have "header_bytes (header r) x @ ?d @ ys = header_bytes (header r) x @ payload @ pad"
    using d(1) by (metis append_assoc)
  then have "?d @ ys = payload @ pad" by simp
  then have "length ?d + length ys = length payload + length pad" by (metis length_append)
  with assms(2) d(2,3) have "length ?d < unat (content_length (header r)) + unat (padding_length (header r))"
    by (cases ys) auto
  from Record_read_incomplete [OF this, of x] xs show ?thesis by simp
qed (rule Record_read_short)

lemma receive_record:
  "Record_read (rbuf @ concat chunks) = Inr (Some r, []) \<Longrightarrow> chunks \<noteq> [] \<Longrightarrow> last chunks \<noteq> [] \<Longrightarrow>
   rbuf @ hd chunks \<noteq> [] \<Longrightarrow>
     receive_loop (map Inr chunks) rbuf recs = Inr (recs @ [r])"
proof (induction chunks arbitrary: rbuf)
  case (Cons d chunks)
  show ?case
  proof (cases "chunks = []")
    case True
    with Cons.prems(1) have "read_records (rbuf @ d) = Inr ([r], [])"
      by (simp add: read_records_Some read_records_Nil)
    with True show ?thesis by simp
  next
    case False
    with Cons.prems(3) have ne: "concat chunks \<noteq> []" "last chunks \<noteq> []"
      by (auto simp: concat_eq_Nil_conv dest: last_in_set)
    from Cons.prems(1) have "Record_read ((rbuf @ d) @ concat chunks) = Inr (Some r, [])" by simp
    from read_records_None [OF Record_read_prefix [OF this ne(1)]] Cons.IH [of "rbuf @ d"] this False ne Cons.prems(4)
    show ?thesis by auto
  qed
qed simp


section \<open>The whole exchange\<close>

lemma read_frame:
  assumes "length p < 65536"
  shows "Record_read (frame rt rid p @ rest) =
    rbind (Record_parse_body p rt) (\<lambda>b. Inr (Some \<lparr>header = Header_new rt rid (of_nat (length p)), body = b\<rparr>, rest))"
proof -
  let ?h = "Header_new rt rid (of_nat (length p))"
  let ?pad = "take (unat (padding_length ?h)) (Header_write_into ?h)"
  have "length p = unat (content_length ?h)" using assms by (simp add: Header_new_def)
  moreover have "length ?pad = unat (padding_length ?h)"
    using align_padding_lt [of "of_nat (length p)"] by (simp add: Header_new_def)
  ultimately have "Record_read (header_bytes ?h 0 @ p @ ?pad @ rest) =
      rbind (Record_parse_body p (rtype ?h)) (\<lambda>b. Inr (Some \<lparr>header = ?h, body = b\<rparr>, rest))"
    by (rule Record_read_whole)
  then show ?thesis by (simp add: frame_def Let_def Header_write_into_bytes Header_new_def)
qed

lemma limit_of_le: "dflt \<le> limit \<Longrightarrow> limit_of name limit kvs dflt \<le> limit"
proof (induction kvs arbitrary: dflt)
  case (Cons kv kvs)
  have "parse_int limit v = Some n \<Longrightarrow> n \<le> limit" for v n
    by (auto simp: parse_int_def parse_unsigned_def Let_def split: if_splits)
  with Cons show ?case by (auto simp: limit_of_def split: option.split)
qed (simp add: limit_of_def)

lemma limits_le: "fst (limits kvs (1, 1)) \<le> 255 \<and> snd (limits kvs (1, 1)) \<le> 65535"
  by (simp add: limits_def Let_def limit_of_le)

text \<open>The query is the three names with empty values, as one \<open>GetValues\<close> stream of request id 0.\<close>

lemma query_sends:
  "sends (ConPool_query uninit)
    (stream_wire RecordType.GetValues 0 (kv_wire [(MAX_CONNS, []), (MAX_REQS, []), (MPXS_CONNS, [])])) ()"
proof -
  have "list_all kv_ok [(MAX_CONNS, []), (MAX_REQS, []), (MPXS_CONNS, [])]"
    by (simp add: kv_ok_def MAX_CONNS_def MAX_REQS_def MPXS_CONNS_def bstr_def)
  from extend_flush_sends [OF this, of uninit 0 RecordType.GetValues] show ?thesis
    by (simp add: ConPool_query_def NameValuePairWriter_extend_def io_bind_assoc Let_def MGMT_REQUEST_ID_def)
qed

text \<open>The answer, received in any pieces and read.\<close>

lemma receive_answer:
  assumes "list_all short_pair kvs" "length (concat (map pair_wire kvs)) < 65536"
    and "concat chunks = frame RecordType.GetValuesResult MGMT_REQUEST_ID (concat (map pair_wire kvs))"
    and "chunks \<noteq> []" "hd chunks \<noteq> []" "last chunks \<noteq> []"
  obtains recs where "send_and_receive (map Inr chunks) = Inr recs"
    "negotiate_records recs (1, 1) = Inr (limits kvs (1, 1))"
proof -
  let ?p = "concat (map pair_wire kvs)"
  let ?h = "Header_new RecordType.GetValuesResult MGMT_REQUEST_ID (of_nat (length ?p))"
  from NVBody_from_bytes_Inr [OF assms(2)] obtain nv where
    nv: "NVBody_from_bytes ?p = Inr nv" "NVBody_wf nv" "NVBody_content nv = ?p" by blast
  let ?r = "\<lparr>header = ?h, body = Body.GetValuesResult nv\<rparr>"
  have "Record_read ([] @ concat chunks) = Inr (Some ?r, [])"
    using read_frame [OF assms(2), of RecordType.GetValuesResult MGMT_REQUEST_ID "[]"] nv(1)
    by (simp add: assms(3) Record_parse_body_def)
  from receive_record [OF this assms(4,6), of "[]"] assms(5)
  have "send_and_receive (map Inr chunks) = Inr [?r]" by (simp add: send_and_receive_def)
  moreover have "negotiate_records [?r] (1, 1) = Inr (limits kvs (1, 1))"
    using NVBody_drain_wf [OF nv(2)] nv(3) negotiate_pairs_limits [OF assms(1), of "(1, 1)"]
    by (cases "limits kvs (1, 1)") simp
  ultimately show ?thesis by (rule that)
qed

lemma pool_connection:
  assumes "ConPool_new_with_strategy uninit connect1 reads connect2 mul nl = Inr pool"
  shows "con_pool pool = \<lparr>conn_inner = Connection_new (of_nat (max_req_per_con pool)), header_mul = mul, header_nl = nl\<rparr>"
proof (cases connect1)
  case (Inr stream)
  with assms obtain recs where
    r: "(case negotiate_records recs (1, 1) of Inl p \<Rightarrow> Inl (Panicked p)
       | Inr (cons, req) \<Rightarrow> (case Connection_connect_with_strategy connect2 (of_nat req) mul nl of
             Inl e \<Rightarrow> Inl (Io e)
           | Inr c \<Rightarrow> Inr \<lparr>max_cons = cons, max_req_per_con = req, con_pool = c\<rparr>)) = Inr pool"
    by (auto simp: ConPool_new_with_strategy_def rbind_Inr_iff)
  show ?thesis
  proof (cases "negotiate_records recs (1, 1)")
    case (Inr l)
    with r show ?thesis
      by (cases l; cases connect2) (auto simp: Connection_connect_with_strategy_def)
  qed (use r in simp)
qed (use assms in \<open>simp add: ConPool_new_with_strategy_def\<close>)

text \<open>Whatever the server answers, the limits fit the fields of the pool, \<open>u8\<close> and \<open>u16\<close>.\<close>

lemma parse_int_le: "parse_int limit v = Some n \<Longrightarrow> n \<le> limit"
  by (auto simp: parse_int_def parse_unsigned_def Let_def split: if_splits)

definition limits_fit :: "nat \<times> nat \<Rightarrow> bool" where
  "limits_fit lims \<longleftrightarrow> fst lims \<le> 255 \<and> snd lims \<le> 65535"

lemma drain_next_length: "NVDrain_next kvs = Inr (Some p, rest) \<Longrightarrow> length rest < length kvs"
  by (auto simp: NVDrain_next_def rbind_Inr_iff dest: parse_pair_length split: if_splits)

lemma negotiate_pairs_fit:
  "negotiate_pairs kvs lims = Inr lims' \<Longrightarrow> limits_fit lims \<Longrightarrow> limits_fit lims'"
proof (induction "length kvs" arbitrary: kvs lims rule: less_induct)
  case less
  from less.prems(1) obtain kv rest where n: "NVDrain_next kvs = Inr (kv, rest)"
    by (subst (asm) negotiate_pairs.simps) (auto simp: rbind_Inr_iff)
  show ?case
  proof (cases kv)
    case None
    with n less.prems show ?thesis by (subst (asm) negotiate_pairs.simps) simp
  next
    case (Some p)
    from drain_next_length [OF n [unfolded Some]] have IH: "negotiate_pairs rest l = Inr lims' \<Longrightarrow> limits_fit l \<Longrightarrow> limits_fit lims'" for l
      by (rule less.hyps)
    have fits: "limits_fit (case parse_int 255 v of Some n \<Rightarrow> (n, snd lims) | None \<Rightarrow> lims)"
      "limits_fit (case parse_int 65535 v of Some n \<Rightarrow> (fst lims, n) | None \<Rightarrow> lims)"
      "limits_fit (fst lims, 1)" for v
      using less.prems(2) by (auto simp: limits_fit_def dest: parse_int_le split: option.split)
    show ?thesis
      using n Some less.prems IH fits by (subst (asm) negotiate_pairs.simps) (auto split: if_splits)
  qed
qed

lemma negotiate_records_fit:
  "negotiate_records recs lims = Inr lims' \<Longrightarrow> limits_fit lims \<Longrightarrow> limits_fit lims'"
proof (induction recs arbitrary: lims)
  case (Cons r recs)
  then show ?case by (cases "body r") (auto simp: rbind_Inr_iff dest: negotiate_pairs_fit)
qed simp

lemma pool_limits:
  assumes "ConPool_new_with_strategy uninit connect1 reads connect2 mul nl = Inr pool"
  shows "max_cons pool \<le> 255 \<and> max_req_per_con pool \<le> 65535"
proof (cases connect1)
  case (Inr stream)
  with assms obtain recs where
    r: "(case negotiate_records recs (1, 1) of Inl p \<Rightarrow> Inl (Panicked p)
       | Inr (cons, req) \<Rightarrow> (case Connection_connect_with_strategy connect2 (of_nat req) mul nl of
             Inl e \<Rightarrow> Inl (Io e)
           | Inr c \<Rightarrow> Inr \<lparr>max_cons = cons, max_req_per_con = req, con_pool = c\<rparr>)) = Inr pool"
    by (auto simp: ConPool_new_with_strategy_def rbind_Inr_iff)
  then obtain l where l: "negotiate_records recs (1, 1) = Inr l" by (auto split: sum.splits)
  from negotiate_records_fit [OF l] r l show ?thesis
    by (cases l; cases connect2) (auto simp: Connection_connect_with_strategy_def limits_fit_def)
qed (use assms in \<open>simp add: ConPool_new_with_strategy_def\<close>)

section \<open>Properties\<close>

text \<open>
  C16. The negotiation, end to end: the query goes out, the server answers with one
  \<open>GetValuesResult\<close> record of pairs whose names and values are shorter than 128 bytes,
  cut into any pieces on the way (the first and the last not empty); the pool takes the limits that the
  answer means (the defaults are 1) and opens its connection with them. They fit the types of the
  fields.
\<close>

theorem ConPool_negotiates:
  assumes "list_all short_pair kvs" "length (concat (map pair_wire kvs)) < 65536"
    and "concat chunks = frame RecordType.GetValuesResult MGMT_REQUEST_ID (concat (map pair_wire kvs))"
    and "chunks \<noteq> []" "hd chunks \<noteq> []" "last chunks \<noteq> []"
    and "ConPool_query uninit stream = (Inr (), stream')"
  shows "ConPool_new_with_strategy uninit (Inr stream) (map Inr chunks) (Inr ()) mul nl =
      Inr \<lparr>max_cons = fst (limits kvs (1, 1)), max_req_per_con = snd (limits kvs (1, 1)),
        con_pool = \<lparr>conn_inner = Connection_new (of_nat (snd (limits kvs (1, 1)))),
          header_mul = mul, header_nl = nl\<rparr>\<rparr> \<and>
    fst (limits kvs (1, 1)) \<le> 255 \<and> snd (limits kvs (1, 1)) \<le> 65535"
proof -
  from receive_answer [OF assms(1-6)] obtain recs where
    "send_and_receive (map Inr chunks) = Inr recs" "negotiate_records recs (1, 1) = Inr (limits kvs (1, 1))" .
  then show ?thesis
    using assms(7) limits_le [of kvs]
    by (cases "limits kvs (1, 1)") (simp add: ConPool_new_with_strategy_def Connection_connect_with_strategy_def)
qed

definition example_answer :: "NameValuePair list" where
  "example_answer = [\<lparr>name_data = MAX_REQS, value_data = bstr ''12''\<rparr>]"

lemma example_limits: "limits example_answer (1, 1) = (1, 12)"
  using names_distinct
  by (simp add: limits_def example_answer_def no_mpxs_def limit_of_def parse_int_def parse_unsigned_def
    is_digit_def from_digits_def bstr_def)

lemma query_succeeds: "\<exists>stream stream'. ConPool_query uninit stream = (Inr (), stream')"
proof -
  let ?w = "stream_wire RecordType.GetValues 0 (kv_wire [(MAX_CONNS, []), (MAX_REQS, []), (MPXS_CONNS, [])])"
  from sends_ample [OF query_sends [of uninit], of 0 "\<lparr>sent = [], script = replicate (length ?w) (Inr 1)\<rparr>"]
  show ?thesis by (auto simp: ample_def)
qed

lemma one_read_pool:
  assumes "list_all short_pair kvs" "length (concat (map pair_wire kvs)) < 65536" "limits kvs (1, 1) = (cons, req)"
    and "n = of_nat req"
  shows "\<exists>stream. ConPool_new_with_strategy (\<lambda>_. 0) (Inr stream)
      [Inr (frame RecordType.GetValuesResult 0 (concat (map pair_wire kvs)))] (Inr ()) mul nl =
    Inr \<lparr>max_cons = cons, max_req_per_con = req,
      con_pool = \<lparr>conn_inner = Connection_new n, header_mul = mul, header_nl = nl\<rparr>\<rparr>"
proof -
  let ?f = "frame RecordType.GetValuesResult 0 (concat (map pair_wire kvs))"
  from query_succeeds obtain stream stream' where q: "ConPool_query (\<lambda>_. 0) stream = (Inr (), stream')" by blast
  have "?f \<noteq> []" by (simp add: frame_def Let_def Header_write_into_def put_u16_def)
  with receive_answer [OF assms(1,2), of "[?f]"] obtain recs where
    "send_and_receive (map Inr [?f]) = Inr recs" "negotiate_records recs (1, 1) = Inr (limits kvs (1, 1))"
    by (auto simp: MGMT_REQUEST_ID_def)
  with q assms(3,4) show ?thesis
    by (intro exI [of _ stream]) (simp add: ConPool_new_with_strategy_def Connection_connect_with_strategy_def)
qed

theorem ConPool_negotiates_witness:
  "\<exists>stream. ConPool_new_with_strategy (\<lambda>_. 0) (Inr stream)
      (map Inr [take 5 (frame RecordType.GetValuesResult 0 (concat (map pair_wire example_answer))),
        drop 5 (frame RecordType.GetValuesResult 0 (concat (map pair_wire example_answer)))]) (Inr ()) Combine Ignore =
    Inr \<lparr>max_cons = 1, max_req_per_con = 12,
      con_pool = \<lparr>conn_inner = Connection_new (of_nat 12), header_mul = Combine, header_nl = Ignore\<rparr>\<rparr>"
proof -
  let ?f = "frame RecordType.GetValuesResult 0 (concat (map pair_wire example_answer))"
  from query_succeeds obtain stream stream' where q: "ConPool_query (\<lambda>_. 0) stream = (Inr (), stream')" by blast
  have ps: "list_all short_pair example_answer" "length (concat (map pair_wire example_answer)) < 65536"
    by (simp_all add: example_answer_def short_pair_def MAX_REQS_def bstr_def pair_wire_def put_len_def)
  have "length ?f \<ge> 8" by (simp add: frame_def Let_def Header_write_into_def)
  then have ne: "take 5 ?f \<noteq> []" "drop 5 ?f \<noteq> []" by auto
  from ConPool_negotiates [OF ps _ _ _ _ q, of "[take 5 ?f, drop 5 ?f]"] ne show ?thesis
    by (auto simp: example_limits MGMT_REQUEST_ID_def simp del: One_nat_def)
qed

text \<open>
  C38. An answer that is cut off leaves the pool in an endless loop: at the end of the stream
  \<open>read_buf\<close> returns no bytes and no error, and with a part of a record in the buffer the loop of
  \<open>send_and_receive\<close> reads again, any number \<open>n\<close> of times.
\<close>

theorem truncated_answer_spins:
  assumes "Record_read (part @ ys) = Inr (Some r, [])" "part \<noteq> []" "ys \<noteq> []"
  shows "send_and_receive (Inr part # replicate n (Inr [])) = Inl Stalled"
proof -
  have part: "read_records part = Inr ([], part)"
    by (rule read_records_None) (rule Record_read_prefix [OF assms(1,3)])
  have "receive_loop (replicate n (Inr [])) part [] = Inl Stalled"
    by (induction n) (simp_all add: part assms(2))
  with part assms(2) show ?thesis by (simp add: send_and_receive_def)
qed

theorem truncated_answer_spins_witness:
  "send_and_receive (Inr [1, 10, 0] # replicate 1000 (Inr [])) = Inl Stalled"
  by (rule truncated_answer_spins [where ys = "[0, 0, 0, 0, 0]"
        and r = "\<lparr>header = \<lparr>version = 1, rtype = RecordType.GetValuesResult, request_id = 0,
          content_length = 0, padding_length = 0\<rparr>, body = Body.GetValuesResult NVBody_new\<rparr>"])
    (simp_all add: Record_read_def Header_parse_8 RecordType_try_from_def be16_def slice_def advance_def
      Record_parse_body_def NVBody_from_bytes_def NVBody_new_def BufList_new_def)

text \<open>
  C39. Nothing keeps the server from announcing \<open>MAX_REQS\<close> as 0. The pool's connection then never has
  a permit: in every state that it can reach, and whatever the stream and a reconnect bring, a
  request waits.
\<close>

theorem zero_requests_block:
  assumes "ConPool_new_with_strategy uninit connect1 reads connect2 mul nl = Inr pool" "max_req_per_con pool = 0"
    and "reachable dbg alloc prs status_code (of_nat (max_req_per_con pool)) (c, cs)" "alloc_ok alloc"
  shows "conn_inner (con_pool pool) = Connection_new 0 \<and> running_requests c = [] \<and> Connection_acquire c = Pending"
proof -
  have "conn_inner (con_pool pool) = Connection_new (of_nat (max_req_per_con pool))"
    using pool_connection [OF assms(1)] by simp
  moreover have "conn_ok 0 c"
    using reachable_ok [OF assms(4,3)] assms(2) by (auto simp: system_ok_def)
  ultimately show ?thesis using assms(2) by (simp add: conn_ok_def Connection_acquire_def)
qed

definition zero_answer :: "NameValuePair list" where
  "zero_answer = [\<lparr>name_data = MAX_REQS, value_data = bstr ''0''\<rparr>]"

lemma zero_limits: "limits zero_answer (1, 1) = (1, 0)"
  using names_distinct
  by (simp add: limits_def zero_answer_def no_mpxs_def limit_of_def parse_int_def parse_unsigned_def
    is_digit_def from_digits_def bstr_def)

lemma zero_pool:
  "\<exists>stream. ConPool_new_with_strategy (\<lambda>_. 0) (Inr stream)
      [Inr (frame RecordType.GetValuesResult 0 (concat (map pair_wire zero_answer)))] (Inr ()) Combine Ignore =
    Inr \<lparr>max_cons = 1, max_req_per_con = 0,
      con_pool = \<lparr>conn_inner = Connection_new 0, header_mul = Combine, header_nl = Ignore\<rparr>\<rparr>"
proof (rule one_read_pool [OF _ _ zero_limits])
  show "list_all short_pair zero_answer" "length (concat (map pair_wire zero_answer)) < 65536"
    by (simp_all add: zero_answer_def short_pair_def MAX_REQS_def bstr_def pair_wire_def put_len_def)
qed simp

theorem zero_requests_block_witness:
  "\<exists>stream pool. ConPool_new_with_strategy (\<lambda>_. 0) (Inr stream)
      [Inr (frame RecordType.GetValuesResult 0 (concat (map pair_wire zero_answer)))] (Inr ()) Combine Ignore = Inr pool \<and>
    Connection_acquire (conn_inner (con_pool pool)) = Pending"
proof -
  from zero_pool obtain stream where p: "ConPool_new_with_strategy (\<lambda>_. 0) (Inr stream)
      [Inr (frame RecordType.GetValuesResult 0 (concat (map pair_wire zero_answer)))] (Inr ()) Combine Ignore =
    Inr \<lparr>max_cons = 1, max_req_per_con = 0,
      con_pool = \<lparr>conn_inner = Connection_new 0, header_mul = Combine, header_nl = Ignore\<rparr>\<rparr>" by blast
  from zero_requests_block [OF p _ _ least_vacant_ok, of True parse_example "\<lambda>_. None" "Connection_new 0" "[]"]
    reachable.start
  show ?thesis by (intro exI conjI) (rule p, simp)
qed


text \<open>
  A new pool serves a request: if the server allows at least one, the first call of \<open>forward\<close> gets a
  permit, becomes request 1 on the pool's connection, and with a transport that takes what is written
  the head of the request is what the server finds on the stream, with the header strategy that was
  given to the pool.
\<close>

lemma fresh_pool_serves:
  assumes "ConPool_new_with_strategy uninit connect1 reads connect2 mul nl = Inr pool"
    and "0 < max_req_per_con pool" "alloc [] = 0"
    and "list_all (\<lambda>h. \<not> refused mul nl h) (req_headers req)" "list_all kv_ok (request_env mul req dyn_headers)"
    and "ample (length (opening_wire mul req dyn_headers 1)) sc"
  shows "\<exists>inner pool'. Connection_acquire (conn_inner (con_pool pool)) = Ready inner \<and>
    ConPool_forward_open dbg uninit alloc task FillPending reconnect sc req dyn_headers
      (pool\<lparr>con_pool := (con_pool pool)\<lparr>conn_inner := inner\<rparr>\<rparr>) =
      Inr (Inr (1, map_option of_nat (forward_len req)), pool') \<and>
    io_tx (conn_inner (con_pool pool')) = opening_wire mul req dyn_headers 1"
proof -
  let ?n = "of_nat (max_req_per_con pool) :: u16" and ?w = "opening_wire mul req dyn_headers 1"
  have pool: "con_pool pool = \<lparr>conn_inner = Connection_new ?n, header_mul = mul, header_nl = nl\<rparr>"
    by (rule pool_connection [OF assms(1)])
  have "unat ?n = max_req_per_con pool" using pool_limits [OF assms(1)] by (intro unat_of_nat_u16) simp
  then have "sem (Connection_new ?n) \<noteq> 0" using assms(2) by (simp add: Connection_new_def)
  then obtain inner where inner: "Connection_acquire (Connection_new ?n) = Ready inner" "running_requests inner = []"
    "io_rx inner = []" "io_tx inner = []" by (simp add: Connection_acquire_def) (simp add: Connection_new_def)
  from forward_open_quiet [OF inner(3) assms(4,5), of alloc sc dbg uninit task reconnect] assms(3,6)
  have "forward_open dbg uninit alloc mul nl task FillPending reconnect sc req dyn_headers inner =
      Inr (Inr (1, map_option of_nat (forward_len req)), opened_connection alloc task ?w inner)"
    by (simp add: inner(2))
  with inner pool show ?thesis
    by (simp add: ConPool_forward_open_def Connection_forward_open_def opened_connection_def)
qed

lemma fresh_pool_serves_example:
  "\<exists>stream pool inner pool'. ConPool_new_with_strategy (\<lambda>_. 0) (Inr stream)
      [Inr (frame RecordType.GetValuesResult 0 (concat (map pair_wire example_answer)))] (Inr ()) OnlyFirst Ignore =
      Inr pool \<and> Connection_acquire (conn_inner (con_pool pool)) = Ready inner \<and>
    ConPool_forward_open True (\<lambda>_. 0) least_vacant 1 FillPending (Inr ()) (replicate 104 (Inr (Suc 0))) example_get []
      (pool\<lparr>con_pool := (con_pool pool)\<lparr>conn_inner := inner\<rparr>\<rparr>) = Inr (Inr (1, None), pool') \<and>
    io_tx (conn_inner (con_pool pool')) = opening_wire OnlyFirst example_get [] 1"
proof -
  have "list_all short_pair example_answer" "length (concat (map pair_wire example_answer)) < 65536"
    by (simp_all add: example_answer_def short_pair_def MAX_REQS_def bstr_def pair_wire_def put_len_def)
  from one_read_pool [OF this example_limits refl, of OnlyFirst Ignore] obtain stream pool where
    p: "ConPool_new_with_strategy (\<lambda>_. 0) (Inr stream)
      [Inr (frame RecordType.GetValuesResult 0 (concat (map pair_wire example_answer)))] (Inr ()) OnlyFirst Ignore = Inr pool"
    and n: "max_req_per_con pool = 12" by auto
  have a: "ample (length (opening_wire OnlyFirst example_get [] 1)) (replicate 104 (Inr (Suc 0)))"
    using example_get_length [of 1] by (simp add: ample_def)
  have k: "least_vacant [] = 0" by (simp add: least_vacant_def)
  have r: "list_all (\<lambda>h. \<not> refused OnlyFirst Ignore h) (req_headers example_get)" by simp
  have n': "0 < max_req_per_con pool" using n by simp
  note s = fresh_pool_serves [where alloc = least_vacant, where req = example_get, where dyn_headers = "[]",
      OF p n' k r example_kv_ok(2) a, of True 1 "Inr ()"]
  from s p show ?thesis by auto
qed

end
