(* ===== verification/Webserver.thy ===== *)
theory Webserver
  imports Forward_Invariants Con_Pool "HOL-Library.Multiset"
begin

text \<open>
  \<open>examples/webserver.rs\<close>: the program that the repository gives as the use of the crate, an HTTP
  server that forwards every request to one application through one \<open>ConPool\<close>.

  Every visitor has a task (\<open>hyper\<close> runs it) that is in \<open>fwd_to_fcgi\<close>: it takes the mutex of the pool, calls \<open>forward\<close>
  and releases the mutex when the response or the error is there; the response body is read afterwards,
  without the mutex, while other visitors call. A state has the connection, the calls of \<open>forward\<close> that were
  made on it and the holder of the mutex. HTTP itself is outside: a visitor is a path and a request, and what
  \<open>hyper\<close> does with the response is any sequence of polls. A visitor may go away at any time; then its task is
  dropped.
\<close>

section \<open>The start\<close>

text \<open>
  How \<open>amain\<close> gets to the loop that accepts connections: still connecting to the application, an
  error that it prints, or listening. \<open>bound\<close> is what \<open>bind\<close> returns.
\<close>

datatype startup =
    Connecting
  | FcgiError IoError
  | BindError IoError
  | Listening ConPool

definition amain_start ::
  "(nat \<Rightarrow> u8) \<Rightarrow> IoError + io \<Rightarrow> (IoError + bytes) list \<Rightarrow> IoError + unit \<Rightarrow> IoError + unit \<Rightarrow> panic + startup" where
  "amain_start uninit connect1 reads connect2 bound =
     (case ConPool_new uninit connect1 reads connect2 of
        Inl (Panicked p) \<Rightarrow> Inl p
      | Inl Stalled \<Rightarrow> Inr Connecting
      | Inl (Io e) \<Rightarrow> Inr (FcgiError e)
      | Inr fcgi_app \<Rightarrow>
          (case bound of
             Inl e \<Rightarrow> Inr (BindError e)
           | Inr _ \<Rightarrow> Inr (Listening fcgi_app)))"

section \<open>A visitor\<close>

text \<open>The parameters are in a \<open>HashMap\<close>: \<open>forward\<close> gets them in an order that nobody knows.\<close>

definition file_path :: "bytes \<Rightarrow> bytes" where
  "file_path path = bstr ''.'' @ path"

definition fwd_params :: "bytes \<Rightarrow> (bytes \<times> bytes) list" where
  "fwd_params path =
     [(bstr ''SCRIPT_NAME'', file_path path),
      (bstr ''SERVER_NAME'', bstr ''Awesome Server 1.0''),
      (bstr ''SERVER_PORT'', bstr ''80''),
      (bstr ''SERVER_PROTOCOL'', bstr ''HTTP''),
      (bstr ''SCRIPT_FILENAME'', file_path path)]"

text \<open>The holder of the mutex may still be without a permit; then it has no call on the connection yet.\<close>

datatype holder = Free | NeedsPermit | Calling nat

type_synonym web_state = "InnerConnection \<times> task list \<times> holder"

text \<open>\<open>forward\<close> has not returned yet. It has when the response is there, and also when it failed or was dropped.\<close>

fun in_progress :: "task \<Rightarrow> bool" where
  "in_progress Waiting = True"
| "in_progress (Forwarding rid None (Returned b st m)) = False"
| "in_progress (Forwarding rid sending r) = True"
| "in_progress Finished = False"

text \<open>
  The steps of \<open>fwd_to_fcgi\<close>: it locks the pool, waits for a permit, calls \<open>forward\<close> with the parameters
  of the path, and the guard goes out of scope when \<open>forward\<close> has returned. \<open>opened\<close> and \<open>open_failed\<close> are the first
  part of \<open>forward\<close>; a further step of a call, and one of a response body, is a step of \<open>forward_step\<close>
  for this call alone. (\<open>forward_step\<close> also has the closing of the connection, which this program never calls:
  what holds of all steps holds without it.)
\<close>

inductive web_step ::
  "bool \<Rightarrow> (nat \<Rightarrow> u8) \<Rightarrow> (FCGIRequest slots \<Rightarrow> nat) \<Rightarrow> (bytes \<Rightarrow> HeaderMap \<Rightarrow> panic + ParseResult \<times> HeaderMap) \<Rightarrow>
     (bytes \<Rightarrow> u16 option) \<Rightarrow> MultiHeaderStrategy \<Rightarrow> HeaderMultilineStrategy \<Rightarrow>
     web_state \<Rightarrow> bool \<Rightarrow> web_state \<Rightarrow> bool"
  for dbg uninit alloc prs status_code mul nl where
  lock: "web_step dbg uninit alloc prs status_code mul nl (c, ts, Free) True (c, ts, NeedsPermit)"
| give_up: "web_step dbg uninit alloc prs status_code mul nl (c, ts, NeedsPermit) True (c, ts, Free)"
| permit: "Connection_acquire c = Ready c' \<Longrightarrow>
    web_step dbg uninit alloc prs status_code mul nl (c, ts, NeedsPermit) True (c', ts @ [Waiting], Calling (length ts))"
| cancel: "web_step dbg uninit alloc prs status_code mul nl (c, ts @ Waiting # us, Calling (length ts)) True
    (c\<lparr>sem := Suc (sem c)\<rparr>, ts @ Finished # us, Calling (length ts))"
| opened: "mset params = mset (fwd_params path) \<Longrightarrow> list_all kv_ok (request_env mul req params) \<Longrightarrow>
    forward_open dbg uninit alloc mul nl task fill reconnect sc req params c = Inr (Inr (rid, len'), c') \<Longrightarrow>
    web_step dbg uninit alloc prs status_code mul nl (c, ts @ Waiting # us, Calling (length ts)) True
      (c', ts @ Forwarding rid len' (create_response_start rid) # us, Calling (length ts))"
| open_failed: "mset params = mset (fwd_params path) \<Longrightarrow> list_all kv_ok (request_env mul req params) \<Longrightarrow>
    forward_open dbg uninit alloc mul nl task fill reconnect sc req params c = Inr (Inl e, c') \<Longrightarrow>
    clean = (\<not> tx_failed sc e) \<Longrightarrow>
    web_step dbg uninit alloc prs status_code mul nl (c, ts @ Waiting # us, Calling (length ts)) clean
      (c', ts @ Finished # us, Calling (length ts))"
| call: "forward_step dbg uninit alloc prs status_code mul nl (c, [t]) ok (c', [t']) \<Longrightarrow> in_progress t \<Longrightarrow> t \<noteq> Waiting \<Longrightarrow>
    web_step dbg uninit alloc prs status_code mul nl (c, ts @ t # us, Calling (length ts)) ok
      (c', ts @ t' # us, Calling (length ts))"
| unlock: "\<not> in_progress t \<Longrightarrow>
    web_step dbg uninit alloc prs status_code mul nl (c, ts @ t # us, Calling (length ts)) True (c, ts @ t # us, Free)"
| body: "forward_step dbg uninit alloc prs status_code mul nl (c, [t]) ok (c', [t']) \<Longrightarrow> \<not> in_progress t \<Longrightarrow>
    h \<noteq> Calling (length ts) \<Longrightarrow>
    web_step dbg uninit alloc prs status_code mul nl (c, ts @ t # us, h) ok (c', ts @ t' # us, h)"

text \<open>A run of the loop on the pool that the program has. Its strategies are those of the connection.\<close>

inductive web_run ::
  "bool \<Rightarrow> (nat \<Rightarrow> u8) \<Rightarrow> (FCGIRequest slots \<Rightarrow> nat) \<Rightarrow> (bytes \<Rightarrow> HeaderMap \<Rightarrow> panic + ParseResult \<times> HeaderMap) \<Rightarrow>
     (bytes \<Rightarrow> u16 option) \<Rightarrow> ConPool \<Rightarrow> bool \<Rightarrow> web_state \<Rightarrow> bool"
  for dbg uninit alloc prs status_code pool where
  start: "web_run dbg uninit alloc prs status_code pool True (conn_inner (con_pool pool), [], Free)"
| step: "web_run dbg uninit alloc prs status_code pool clean s \<Longrightarrow>
    web_step dbg uninit alloc prs status_code (header_mul (con_pool pool)) (header_nl (con_pool pool)) s ok s' \<Longrightarrow>
    web_run dbg uninit alloc prs status_code pool (clean \<and> ok) s'"

section \<open>The calls are calls of \<open>forward\<close>\<close>

lemma Cons_append_singleton: "[t] = ts @ u # us \<longleftrightarrow> ts = [] \<and> us = [] \<and> t = u"
  by (cases ts) auto

text \<open>A step of one call is one whatever other calls there are.\<close>

lemma forward_step_local:
  assumes "forward_step dbg uninit alloc prs status_code mul nl (c, [t]) ok (c', [t'])"
  shows "forward_step dbg uninit alloc prs status_code mul nl (c, ts @ t # us) ok (c', ts @ t' # us)"
  using assms
  by (cases rule: forward_step.cases) (auto simp: Cons_append_singleton intro: forward_step.intros)

lemma in_progress_done: "\<not> in_progress t \<longleftrightarrow> t = Finished \<or> (\<exists>rid b st m. t = Forwarding rid None (Returned b st m))"
  by (cases t rule: in_progress.cases) auto

text \<open>A response that was returned does not come back into progress.\<close>

lemma done_stays:
  assumes "forward_step dbg uninit alloc prs status_code mul nl (c, [t]) ok (c', [t'])" "\<not> in_progress t"
  shows "\<not> in_progress t'"
  using assms
  by (cases rule: forward_step.cases) (auto simp: Cons_append_singleton create_response_poll_def in_progress_done)

lemma web_step_forward:
  assumes "web_step dbg uninit alloc prs status_code mul nl (c, ts, h) ok (c', ts', h')"
  shows "(c', ts') = (c, ts) \<and> ok \<or> forward_step dbg uninit alloc prs status_code mul nl (c, ts) ok (c', ts')"
  using assms
  by (cases rule: web_step.cases) (auto intro: forward_step.acquire forward_step.cancel forward_step.open_ok
    forward_step.open_failed forward_step_local)

text \<open>The pool that the program listens with.\<close>

lemma started_pool:
  assumes "amain_start uninit connect1 reads connect2 bound = Inr (Listening pool)"
  shows "con_pool pool = \<lparr>conn_inner = Connection_new (of_nat (max_req_per_con pool)), header_mul = OnlyFirst,
      header_nl = Ignore\<rparr> \<and> unat (of_nat (max_req_per_con pool) :: u16) = max_req_per_con pool"
proof -
  from assms have new: "ConPool_new_with_strategy uninit connect1 reads connect2 OnlyFirst Ignore = Inr pool"
    by (auto simp: amain_start_def ConPool_new_def split: sum.splits fail.splits)
  from pool_connection [OF new] pool_limits [OF new] show ?thesis by (simp add: unat_of_nat_u16)
qed

lemma web_run_forward:
  "web_run dbg uninit alloc prs status_code pool clean s \<Longrightarrow> s = (c, ts, h) \<Longrightarrow>
    con_pool pool = \<lparr>conn_inner = Connection_new n, header_mul = mul, header_nl = nl\<rparr> \<Longrightarrow>
    forward_run dbg uninit alloc prs status_code mul nl n clean (c, ts)"
proof (induction arbitrary: c ts h rule: web_run.induct)
  case start
  then show ?case by (auto intro: forward_run.start)
next
  case (step clean s ok s')
  obtain c0 ts0 h0 where s: "s = (c0, ts0, h0)" by (cases s)
  from web_step_forward [OF step(2) [unfolded s step.prems(1)]] step.IH [OF s step.prems(2)] step.prems(2) show ?case
    by (auto intro: forward_run.step)
qed

section \<open>The mutex\<close>

lemma all_mid:
  "(\<forall>j < length ts + Suc (length us). P j ((ts @ t # us) ! j)) \<longleftrightarrow>
    P (length ts) t \<and> (\<forall>j < length ts. P j (ts ! j)) \<and> (\<forall>j < length us. P (Suc (length ts + j)) (us ! j))"
proof (intro iffI conjI allI impI)
  fix j
  assume all: "P (length ts) t \<and> (\<forall>j < length ts. P j (ts ! j)) \<and> (\<forall>j < length us. P (Suc (length ts + j)) (us ! j))"
    and j: "j < length ts + Suc (length us)"
  consider "j < length ts" | "j = length ts" | i where "j = Suc (length ts + i)"
    using less_imp_Suc_add [of "length ts" j] by (cases j "length ts" rule: linorder_cases) auto
  then show "P j ((ts @ t # us) ! j)" using all j by cases (simp_all add: nth_append)
next
  fix j
  assume "\<forall>j < length ts + Suc (length us). P j ((ts @ t # us) ! j)" "j < length us"
  then show "P (Suc (length ts + j)) (us ! j)" by (auto simp: nth_append dest!: spec [of _ "Suc (length ts + j)"])
next
  fix j
  assume "\<forall>j < length ts + Suc (length us). P j ((ts @ t # us) ! j)" "j < length ts"
  then show "P j (ts ! j)" by (auto simp: nth_append dest!: spec [of _ j])
qed (auto dest!: spec [of _ "length ts"])

text \<open>The calls go one at a time: a call in progress is that of the holder of the mutex.\<close>

definition one_at_a_time :: "task list \<Rightarrow> holder \<Rightarrow> bool" where
  "one_at_a_time ts h \<longleftrightarrow> (\<forall>j < length ts. in_progress (ts ! j) \<longrightarrow> h = Calling j)"

lemma one_at_a_time_mid:
  "one_at_a_time (ts @ t # us) h \<longleftrightarrow> (in_progress t \<longrightarrow> h = Calling (length ts)) \<and>
    (\<forall>j < length ts. in_progress (ts ! j) \<longrightarrow> h = Calling j) \<and>
    (\<forall>j < length us. in_progress (us ! j) \<longrightarrow> h = Calling (Suc (length ts + j)))"
  using all_mid [of ts us "\<lambda>j t. in_progress t \<longrightarrow> h = Calling j" t] by (simp add: one_at_a_time_def)

lemma web_step_one:
  assumes "web_step dbg uninit alloc prs status_code mul nl s ok s'" "one_at_a_time (fst (snd s)) (snd (snd s))"
  shows "one_at_a_time (fst (snd s')) (snd (snd s'))"
  using assms
proof (induction rule: web_step.induct)
  case (permit c c' ts)
  then show ?case by (auto simp: one_at_a_time_def nth_append less_Suc_eq)
next
  case (body c t ok c' t' h ts us)
  with done_stays [OF body(1,2)] show ?case by (simp add: one_at_a_time_mid)
next
  case (lock c ts)
  then show ?case by (auto simp: one_at_a_time_def)
next
  case (give_up c ts)
  then show ?case by (auto simp: one_at_a_time_def)
qed (auto simp: one_at_a_time_mid)

lemma web_run_one:
  "web_run dbg uninit alloc prs status_code pool clean s \<Longrightarrow> one_at_a_time (fst (snd s)) (snd (snd s))"
proof (induction rule: web_run.induct)
  case start
  then show ?case by (simp add: one_at_a_time_def)
next
  case (step clean s ok s')
  then show ?case by (blast intro: web_step_one)
qed

section \<open>Permits\<close>

lemma queued_waiting: "queued (map task_client ts) = length (filter (\<lambda>t. t = Waiting) ts)"
proof (induction ts)
  case (Cons t ts)
  then show ?case by (cases t) simp_all
qed simp

lemma permits:
  "system_ok n (c, map task_client ts) \<Longrightarrow>
    sem c + length (filter (\<lambda>t. t = Waiting) ts) + length (running_requests c) = n"
  by (auto simp: system_ok_def conn_ok_def queued_waiting)

text \<open>What the states of a run of the program have.\<close>

lemma web_run_ok:
  assumes "amain_start uninit connect1 reads connect2 bound = Inr (Listening pool)"
    and "web_run dbg uninit alloc prs status_code pool clean (c, ts, h)" "alloc_ok alloc"
  shows "forward_run dbg uninit alloc prs status_code OnlyFirst Ignore (of_nat (max_req_per_con pool)) clean (c, ts)"
    and "system_ok (max_req_per_con pool) (c, map task_client ts)" "one_at_a_time ts h"
proof -
  note p = started_pool [OF assms(1)]
  show run: "forward_run dbg uninit alloc prs status_code OnlyFirst Ignore (of_nat (max_req_per_con pool)) clean (c, ts)"
    using web_run_forward [OF assms(2) refl] p by blast
  from reachable_ok [OF assms(3) run_reachable [OF run]] p show "system_ok (max_req_per_con pool) (c, map task_client ts)"
    by (simp add: task_system_def)
  from web_run_one [OF assms(2)] show "one_at_a_time ts h" by simp
qed

lemma web_steps_system:
  assumes "(\<lambda>s s'. \<exists>ok. web_step dbg uninit alloc prs status_code mul nl s ok s')\<^sup>*\<^sup>* (c, ts, h) s'" "s' = (c', ts', h')"
  shows "(system_step dbg alloc prs status_code)\<^sup>*\<^sup>* (c, map task_client ts) (c', map task_client ts')"
  using assms
proof (induction arbitrary: c' ts' h' rule: rtranclp_induct)
  case (step s1 s2)
  obtain c1 ts1 h1 where s1: "s1 = (c1, ts1, h1)" by (cases s1)
  from step(2) obtain ok where "web_step dbg uninit alloc prs status_code mul nl (c1, ts1, h1) ok (c', ts', h')"
    by (auto simp: s1 step.prems)
  from web_step_forward [OF this] task_simulates [of dbg uninit alloc prs status_code mul nl "(c1, ts1)" ok "(c', ts')"]
  have "(system_step dbg alloc prs status_code)\<^sup>*\<^sup>* (c1, map task_client ts1) (c', map task_client ts')"
    by (auto simp: task_system_def)
  with step.IH [OF s1] show ?case by (rule rtranclp_trans)
qed simp

text \<open>
  One error is enough to stop the program: with a pool of one request (what it takes when the application
  announces nothing), a slot that no call owns, as a failed write leaves it, keeps the only permit. From
  there on no visitor is served: in every later state there is no permit, no call has one, and who has the mutex
  waits.
\<close>

lemma one_error_stops_webserver:
  assumes "amain_start uninit connect1 reads connect2 bound = Inr (Listening pool)" "max_req_per_con pool = 1"
    and "web_run dbg uninit alloc prs status_code pool clean (c, ts, h)" "alloc_ok alloc"
    and "conn_slot c k = Some q" "\<not> rq_aborted q" "k \<notin> set (concat (map (client_keys \<circ> task_client) ts))"
    and "(\<lambda>s s'. \<exists>ok. web_step dbg uninit alloc prs status_code OnlyFirst Ignore s ok s')\<^sup>*\<^sup>* (c, ts, h) (c', ts', h')"
  shows "Connection_acquire c' = Pending \<and> Waiting \<notin> set ts'"
proof -
  have "orphan k (c, map task_client ts)" using assms(5-7) by (simp add: orphan_def slot_running_def)
  from orphans_kept [OF web_steps_system [OF assms(8) refl] web_run_ok(2) [OF assms(1,3,4)] this assms(4)]
  have ok: "system_ok 1 (c', map task_client ts')" "slot_running c' k" by (simp_all add: orphan_def assms(2))
  then have "running_requests c' \<noteq> []" by (auto simp: slot_running_def conn_slot_def Slab_get_def)
  with permits [OF ok(1)] have "sem c' = 0" "filter (\<lambda>t. t = Waiting) ts' = []" by (cases "running_requests c'"; simp)+
  then show ?thesis by (auto simp: Connection_acquire_def filter_empty_conv)
qed

section \<open>Properties\<close>

text \<open>
  C17. The mutex of the pool, for visitors at the same time: whatever the interleaving of their tasks, what the
  application sends and what the stream takes, their calls are calls of \<open>forward\<close> with the strategies and the limit
  of the pool, so that all that is shown of these holds. The calls go one at a time: from the permit until the response or
  the error is there, a call in progress is that of the holder of the mutex. No visitor waits for another
  call: if the holder waits for a permit and none is free, then no call is in progress and the running requests
  have all the permits; what it waits for are response bodies, which are read without the mutex (or requests that
  nobody owns any more).
\<close>

theorem webserver_one_call:
  assumes "amain_start uninit connect1 reads connect2 bound = Inr (Listening pool)"
    and "web_run dbg uninit alloc prs status_code pool clean (c, ts, h)" "alloc_ok alloc"
  shows "forward_run dbg uninit alloc prs status_code OnlyFirst Ignore (of_nat (max_req_per_con pool)) clean (c, ts) \<and>
    (\<forall>j < length ts. in_progress (ts ! j) \<longrightarrow> h = Calling j) \<and>
    (h = NeedsPermit \<and> Connection_acquire c = Pending \<longrightarrow>
      length (running_requests c) = max_req_per_con pool \<and> list_all (\<lambda>t. \<not> in_progress t) ts)"
proof -
  note run = web_run_ok [OF assms]
  have "length (running_requests c) = max_req_per_con pool \<and> list_all (\<lambda>t. \<not> in_progress t) ts"
    if "h = NeedsPermit" "Connection_acquire c = Pending"
  proof -
    have idle: "\<forall>t \<in> set ts. \<not> in_progress t" using run(3) that(1) by (auto simp: one_at_a_time_def in_set_conv_nth)
    then have "filter (\<lambda>t. t = Waiting) ts = []" by (auto simp: filter_empty_conv)
    with permits [OF run(2)] that(2) idle show ?thesis
      by (auto simp: Connection_acquire_def list_all_iff split: if_splits)
  qed
  with run(1,3) show ?thesis by (auto simp: one_at_a_time_def)
qed

text \<open>
  A pool of one request, a visitor whose request the stream does not take, and the next one: it waits for a
  permit, and the slot of the first has it.
\<close>

lemma example_pool:
  "\<exists>stream. amain_start (\<lambda>_. 0) (Inr stream) [Inr (frame RecordType.GetValuesResult 0 [])] (Inr ()) (Inr ()) =
    Inr (Listening \<lparr>max_cons = 1, max_req_per_con = 1,
      con_pool = \<lparr>conn_inner = Connection_new 1, header_mul = OnlyFirst, header_nl = Ignore\<rparr>\<rparr>)"
proof -
  have l: "limits [] (1, 1) = (1, 1)" by (simp add: limits_def no_mpxs_def limit_of_def)
  from one_read_pool [of "[]", OF _ _ l, of 1 OnlyFirst Ignore] obtain stream where
    "ConPool_new_with_strategy (\<lambda>_. 0) (Inr stream) [Inr (frame RecordType.GetValuesResult 0 [])] (Inr ()) OnlyFirst Ignore =
      Inr \<lparr>max_cons = 1, max_req_per_con = 1,
        con_pool = \<lparr>conn_inner = Connection_new 1, header_mul = OnlyFirst, header_nl = Ignore\<rparr>\<rparr>" by auto
  then show ?thesis by (intro exI [of _ stream]) (simp add: amain_start_def ConPool_new_def)
qed

lemma example_visit_kv_ok: "list_all kv_ok (request_env OnlyFirst example_get (fwd_params (bstr ''/'')))"
  by (simp add: request_env_def request_meta_def http_env_def kv_ok_def example_get_def forward_len_def
    header_get_def fwd_params_def file_path_def bstr_def QUERY_STRING_def REQUEST_METHOD_def)

theorem webserver_one_call_witness:
  "\<exists>stream pool c. amain_start (\<lambda>_. 0) (Inr stream) [Inr (frame RecordType.GetValuesResult 0 [])] (Inr ()) (Inr ()) =
      Inr (Listening pool) \<and>
    web_run True (\<lambda>_. 0) least_vacant (\<lambda>b m. Inr (ParseResult.Err, m)) (\<lambda>_. None) pool False (c, [Finished], NeedsPermit) \<and>
    Connection_acquire c = Pending \<and> max_req_per_con pool = 1 \<and> length (running_requests c) = 1"
proof -
  let ?pool = "\<lparr>max_cons = 1, max_req_per_con = 1,
      con_pool = \<lparr>conn_inner = Connection_new 1, header_mul = OnlyFirst, header_nl = Ignore\<rparr>\<rparr>"
  let ?run = "web_run True (\<lambda>_. 0) least_vacant (\<lambda>b m. Inr (ParseResult.Err, m)) (\<lambda>_. None) ?pool"
  let ?step = "web_step True (\<lambda>_. 0) least_vacant (\<lambda>b m. Inr (ParseResult.Err, m)) (\<lambda>_. None) OnlyFirst Ignore"
  let ?c = "Connection_new 1\<lparr>sem := 0\<rparr>" and ?ps = "fwd_params (bstr ''/'')"
  from example_pool obtain stream where p: "amain_start (\<lambda>_. 0) (Inr stream) [Inr (frame RecordType.GetValuesResult 0 [])]
    (Inr ()) (Inr ()) = Inr (Listening ?pool)" by blast
  have step: "?run ok s \<Longrightarrow> ?step s ok' s' \<Longrightarrow> ?run (ok \<and> ok') s'" for ok ok' s s'
    by (rule web_run.step) simp_all
  have 0: "?run True (Connection_new 1, [], Free)" using web_run.start [where pool = ?pool] by simp
  have a: "Connection_acquire (Connection_new 1) = Ready ?c" by (simp add: Connection_acquire_def Connection_new_def)
  from step [OF step [OF 0 lock] permit [OF a]] have 1: "?run True (?c, [Waiting], Calling 0)" by simp
  have rx: "io_rx ?c = []" by (simp add: Connection_new_def)
  have "\<exists>s'. forward_opening (\<lambda>_. 0) OnlyFirst Ignore example_get ?ps rid \<lparr>sent = t, script = []\<rparr> = (Inl Stalled, s')" for rid t
    by (simp add: forward_opening_def forward_head_def io_bind_def FCGIWriter_encode_def
      FCGIWriter_write_whole_buf_def Header_write_into_def)
  then obtain w where w: "forward_opening (\<lambda>_. 0) OnlyFirst Ignore example_get ?ps 1 \<lparr>sent = [], script = []\<rparr> = (Inl Stalled, w)"
    by blast
  let ?d = "opened_connection least_vacant 2 [] ?c\<lparr>io_tx := sent w\<rparr>"
  have e: "io_tx (Connection_new 1) = []" "running_requests (Connection_new 1) = []" by (simp_all add: Connection_new_def)
  have o: "forward_open True (\<lambda>_. 0) least_vacant OnlyFirst Ignore 2 FillPending (Inr ()) [] example_get ?ps ?c =
      Inr (Inl Stalled, ?d)"
    using w by (simp add: forward_open_def admit_quiet [OF rx] run_tx_def opened_connection_def e least_vacant_def)
  from step [OF 1 open_failed [where ts = "[]" and us = "[]", OF refl example_visit_kv_ok o refl, simplified]]
  have 2: "?run False (?d, [Finished], Calling 0)" by (simp add: tx_failed_def)
  from step [OF step [OF 2 unlock [where ts = "[]" and us = "[]", simplified]] lock]
  have 3: "?run False (?d, [Finished], NeedsPermit)" by simp
  have b: "Connection_acquire ?d = Pending" by (simp add: Connection_acquire_def opened_connection_def)
  from webserver_one_call [OF p 3 least_vacant_ok] b have "length (running_requests ?d) = 1" by simp
  with p 3 b show ?thesis by (intro exI conjI) (assumption | simp)+
qed

end
