(* ===== verification/Tests_Fcgi.thy ===== *)
theory Tests_Fcgi
  imports Fcgi_Reader "HOL-Library.Code_Target_Nat"
begin

text \<open>
  The unit tests of \<open>src/fastcgi.rs\<close>, as definitions over the model with the byte strings of the
  tests, and the proof that the model passes them: the serialiser does what the authors expect, for
  every content of the uninitialised padding and with debug assertions on or off. A test is
  \<open>Inr True\<close> when all its assertions hold; a panic is \<open>Inl\<close>, a failed assertion \<open>Inr False\<close>.
\<close>

section \<open>The tests\<close>

definition copy_to_slice :: "nat \<Rightarrow> bytes \<Rightarrow> panic + bytes" where
  "copy_to_slice n b = (if n \<le> length b then Inr (take n b) else Inl BufUnderflow)"

text \<open>What the tests begin with: a request and one variable as a whole \<open>Params\<close> stream.\<close>

definition encode_params :: "bool \<Rightarrow> (nat \<Rightarrow> u8) \<Rightarrow> NameValuePair \<Rightarrow> panic + bytes" where
  "encode_params dbg uninit pair =
     rbind (Record_append dbg uninit (BeginRequestBody_new Responder 0 1)) (\<lambda>b1.
     rbind (NVBody_add dbg NVBody_new pair) (\<lambda>(res, nv).
     case res of
       Inl _ \<Rightarrow> Inl UnwrapNone
     | Inr _ \<Rightarrow>
         rbind (NVBody_to_record nv RecordType.Params 1) (\<lambda>r2.
         rbind (Record_append dbg uninit r2) (\<lambda>b2.
         rbind (NVBody_to_record NVBody_new RecordType.Params 1) (\<lambda>r3.
         rbind (Record_append dbg uninit r3) (\<lambda>b3.
           Inr (b1 @ b2 @ b3)))))))"

definition script_filename :: NameValuePair where
  "script_filename = NameValuePair_new (bstr ''SCRIPT_FILENAME'') (bstr ''/home/daniel/Public/test.php'')"

definition encode_simple_get_expected :: bytes where
  "encode_simple_get_expected =
     [1, 1, 0, 1, 0, 8, 0, 0, 0, 1, 0, 0, 0, 0, 0, 0, 1, 4, 0, 1, 0, 45, 3, 0, 15, 28] @
     bstr ''SCRIPT_FILENAME/home/daniel/Public/test.php'' @ [1, 4, 0, 1, 4, 0, 1, 0, 0, 0, 0]"

definition encode_simple_get :: "bool \<Rightarrow> (nat \<Rightarrow> u8) \<Rightarrow> panic + bool" where
  "encode_simple_get dbg uninit =
     rbind (encode_params dbg uninit script_filename) (\<lambda>b.
     rbind (copy_to_slice 80 b) (\<lambda>dst.
       Inr (take 69 dst = take 69 encode_simple_get_expected \<and>
         drop 72 dst = drop 72 encode_simple_get_expected)))"

definition encode_post_expected :: bytes where
  "encode_post_expected =
     [1, 1, 0, 1, 0, 8, 0, 0, 0, 1, 0, 0, 0, 0, 0, 0, 1, 4, 0, 1, 0, 45, 3, 0, 15, 28] @
     bstr ''SCRIPT_FILENAME/home/daniel/Public/test.php'' @
     [255, 255, 255, 1, 4, 0, 1, 0, 0, 0, 0, 1, 5, 0, 1, 0, 3, 5, 0] @ bstr ''a=b'' @
     [255, 255, 255, 255, 255, 1, 5, 0, 1, 0, 0, 0, 0]"

definition encode_post :: "bool \<Rightarrow> (nat \<Rightarrow> u8) \<Rightarrow> panic + bool" where
  "encode_post dbg uninit =
     rbind (encode_params dbg uninit script_filename) (\<lambda>b1.
     rbind (Record_append dbg uninit (fst (STDINBody_new 1 (bstr ''a=b'')))) (\<lambda>b2.
     rbind (Record_append dbg uninit (fst (STDINBody_new 1 []))) (\<lambda>b3.
     rbind (copy_to_slice 104 (b1 @ b2 @ b3)) (\<lambda>dst.
       let dst = dst[69 := 255, 70 := 255, 71 := 255, 91 := 255, 92 := 255, 93 := 255, 94 := 255, 95 := 255] in
       Inr (dst = encode_post_expected)))))"

definition http_accept :: NameValuePair where
  "http_accept = NameValuePair_new (bstr ''HTTP_ACCEPT'')
     (bstr ''text/html,application/xhtml+xml,application/xml;q=0.9,image/avif,image'' @
      bstr ''/webp,image/apng,*/*;q=0.8,application/signed-exchange;v=b3;q=0.7'')"

definition encode_long_param_expected :: bytes where
  "encode_long_param_expected =
     [1, 1, 0, 1, 0, 8, 0, 0, 0, 1, 0, 0, 0, 0, 0, 0, 1, 4, 0, 1, 0, 151, 1, 0, 11, 128, 0, 0, 135] @
     bstr ''HTTP_ACCEPTtext/html,application/xhtml+xml,application/xml;q=0.9,image'' @
     bstr ''/avif,image/webp,image/apng,*/*;q=0.8,application/signed-exchange;v=b3'' @ bstr '';q=0.7'' @
     [1, 1, 4, 0, 1, 0, 0, 0, 0]"

definition encode_long_param :: "bool \<Rightarrow> (nat \<Rightarrow> u8) \<Rightarrow> panic + bool" where
  "encode_long_param dbg uninit =
     rbind (encode_params dbg uninit http_accept) (\<lambda>b.
     rbind (copy_to_slice 184 b) (\<lambda>dst.
       Inr (dst[175 := 1] = encode_long_param_expected)))"

section \<open>The model passes them\<close>

lemma encode_simple_get_debug: "encode_simple_get True uninit = Inr True"
  by code_simp

lemma encode_simple_get_release: "encode_simple_get False uninit = Inr True"
  by code_simp

lemma encode_simple_get_passes: "encode_simple_get dbg uninit = Inr True"
  by (cases dbg) (simp_all add: encode_simple_get_debug encode_simple_get_release)

lemma encode_post_debug: "encode_post True uninit = Inr True"
  by code_simp

lemma encode_post_release: "encode_post False uninit = Inr True"
  by code_simp

lemma encode_post_passes: "encode_post dbg uninit = Inr True"
  by (cases dbg) (simp_all add: encode_post_debug encode_post_release)

lemma encode_long_param_debug: "encode_long_param True uninit = Inr True"
  by code_simp

lemma encode_long_param_release: "encode_long_param False uninit = Inr True"
  by code_simp

lemma encode_long_param_passes: "encode_long_param dbg uninit = Inr True"
  by (cases dbg) (simp_all add: encode_long_param_debug encode_long_param_release)

end
