(* ===== verification/Tests_Bytes.thy ===== *)
theory Tests_Bytes
  imports Exchange "HOL-Library.Code_Target_Nat"
begin

text \<open>
  The byte strings of the tests of \<open>src/client/connection.rs\<close> and \<open>src/httparse.rs\<close>: the requests that the mock
  applications expect, the answers that they send, and what the model makes of each: the wire form
  of the requests, the records of the answers, their headers. All by evaluation.

  The parsers of the crates \<open>httparse\<close> and \<open>http\<close> stay parameters of the tests; \<open>cgi_library\<close> says
  what is relied on, their results on the header blocks of the tests.
\<close>

section \<open>Header blocks\<close>

text \<open>
  A header block as \<open>httparse\<close> documents it: lines of a name, a colon, blanks and a value, to an empty
  line. \<open>None\<close>: a line without a colon, or too many of them.
\<close>

fun line_end :: "bytes \<Rightarrow> nat option" where
  "line_end [] = None"
| "line_end [b] = None"
| "line_end (b # c # bs) = (if b = 13 \<and> c = 10 then Some 0 else map_option Suc (line_end (c # bs)))"

definition split_header :: "bytes \<Rightarrow> (bytes \<times> nat) option" where
  "split_header l =
     (let name = takeWhile (\<lambda>b. b \<noteq> 58) l; val = drop (length name + 1) l in
      if length name = length l then None
      else Some (name, length name + 1 + length (takeWhile (\<lambda>b. b = 32) val)))"

fun http_headers :: "nat \<Rightarrow> nat \<Rightarrow> bytes \<Rightarrow> parse_status option" where
  "http_headers 0 pos bs = (if line_end bs = Some 0 then Some (Complete (pos + 2) []) else None)"
| "http_headers (Suc n_headers) pos bs =
     (case line_end bs of
        None \<Rightarrow> Some Partial
      | Some n \<Rightarrow>
          if n = 0 then Some (Complete (pos + 2) [])
          else
            (case split_header (take n bs) of
               None \<Rightarrow> None
             | Some (name, off) \<Rightarrow>
                 (case http_headers n_headers (pos + n + 2) (drop (n + 2) bs) of
                    Some (Complete stop hs) \<Rightarrow> Some (Complete stop ((name, pos + off, n - off) # hs))
                  | r \<Rightarrow> r)))"

definition lower_name :: "bytes \<Rightarrow> bytes option" where
  "lower_name n = Some (map (\<lambda>c. if 65 \<le> c \<and> c \<le> 90 then c + 32 else c) n)"

definition three_digits :: "bytes \<Rightarrow> u16 option" where
  "three_digits s = (case s of [a, b, c] \<Rightarrow> Some (100 * ucast (a - 48) + 10 * ucast (b - 48) + ucast (c - 48)) | _ \<Rightarrow> None)"

section \<open>What the tests send and receive\<close>

text \<open>The request body of the tests, a queue of byte strings.\<close>

fun TestBod_poll_frame :: "bytes list \<Rightarrow> (unit + body_frame) option poll \<times> bytes list" where
  "TestBod_poll_frame [] = (Ready None, [])"
| "TestBod_poll_frame (i # l) = (Ready (Some (Inr (DataFrame i))), l)"

definition TestBod_size_hint :: "bytes list \<Rightarrow> nat" where
  "TestBod_size_hint l = sum_list (map length l)"

definition SCRIPT_FILENAME :: "bytes \<times> bytes" where
  "SCRIPT_FILENAME = (bstr ''SCRIPT_FILENAME'', bstr ''/home/daniel/Public/test.php'')"

text \<open>\<open>simple_get\<close>\<close>

definition simple_get_request :: HttpRequest where
  "simple_get_request = \<lparr>uri_query = Some (bstr ''lol=1''), req_method = bstr ''GET'',
     req_headers = [(bstr ''accept'', [bstr ''text/html''])], hint_lower = TestBod_size_hint [], hint_upper = Some (TestBod_size_hint [])\<rparr>"

definition simple_get_to_php :: bytes where
  "simple_get_to_php =
     [1, 1, 0, 1, 0, 8, 0, 0, 0, 1, 1, 0, 0, 0, 0, 0, 1, 4, 0, 1, 0, 105, 7, 0, 15, 28] @
     bstr ''SCRIPT_FILENAME/home/daniel/Public/test.php'' @ [12, 5] @ bstr ''QUERY_STRINGlol=1'' @
     [14, 3] @ bstr ''REQUEST_METHODGET'' @ [11, 9] @ bstr ''HTTP_ACCEPTtext/html'' @
     [1, 4, 0, 1, 0, 105, 7, 1, 4, 0, 1, 0, 0, 0, 0, 1, 5, 0, 1, 0, 0, 0, 0]"

definition simple_get_stderr :: bytes where
  "simple_get_stderr =
     bstr ''PHP Fatal error:  Kann nicht durch 0 teilen in /home/daniel/Public/tes'' @
     bstr ''t.php on line 14'' @ [10]"

definition simple_get_body :: bytes where
  "simple_get_body =
     bstr ''<html><body>'' @ [10] @ bstr ''pub'' @ [10] @ bstr ''<pre>Array'' @ [10, 40, 10, 41, 10] @
     bstr ''Array'' @ [10, 40, 10] @ bstr ''    [lol] => 1'' @ [10, 41, 10] @ bstr ''Array'' @
     [10, 40, 10] @ bstr ''    [lol] => 1'' @ [10, 41, 10] @ bstr ''Array'' @ [10, 40, 10] @
     bstr ''    [HTTP_accept] => text/html'' @ [10] @ bstr ''    [REQUEST_METHOD] => GET'' @ [10] @
     bstr ''    [QUERY_STRING] => lol=1'' @ [10] @ bstr ''    [SCRIPT_NAME] => /test'' @ [10] @
     bstr ''    [SCRIPT_FILENAME] => /home/daniel/Public/test.php'' @ [10] @
     bstr ''    [FCGI_ROLE] => RESPONDER'' @ [10] @ bstr ''    [PHP_SELF] => /test'' @ [10] @
     bstr ''    [REQUEST_TIME_FLOAT] => 1587740954.2741'' @ [10] @
     bstr ''    [REQUEST_TIME] => 1587740954'' @ [10, 41, 10]"

definition simple_get_block :: bytes where
  "simple_get_block =
     bstr ''Status: 404 Not Found'' @ [13, 10] @ bstr ''X-Powered-By: PHP/7.3.16'' @ [13, 10] @
     bstr ''X-Authenticate: NTLM'' @ [13, 10] @ bstr ''Content-type: text/html; charset=UTF-8'' @
     [13, 10, 13, 10] @
     simple_get_body"

definition simple_get_from_php :: bytes where
  "simple_get_from_php =
     [1, 7, 0, 1, 0, 87, 1, 0] @ simple_get_stderr @ [0, 1, 6, 0, 1, 1, 247, 1, 0] @ simple_get_block @
     [0, 1, 3, 0, 1, 0, 8, 0, 0, 0, 0, 0, 0, 0, 0, 0, 0]"

text \<open>\<open>app_answer_split_mid_record\<close>\<close>

definition plain_request :: HttpRequest where
  "plain_request = \<lparr>uri_query = None, req_method = bstr ''GET'', req_headers = [],
     hint_lower = TestBod_size_hint [], hint_upper = Some (TestBod_size_hint [])\<rparr>"

definition split_from_flup :: bytes where
  "split_from_flup =
     [1, 6, 0, 1, 0, 64, 0, 0] @ bstr ''Status: 200 OK'' @ [13, 10] @ bstr ''Content-Type: text/plain'' @
     [13, 10] @ bstr ''Content-Length: 13'' @ [13, 10, 13, 10, 1, 6, 0, 1, 0, 13, 3, 0] @
     bstr ''Hello World!'' @ [10]"

definition split_body :: bytes where
  "split_body =
     bstr ''Hello World!'' @ [10]"

text \<open>\<open>app_http_headers_split\<close>\<close>

definition headers_from_flup1 :: bytes where
  "headers_from_flup1 =
     [1, 6, 0, 1, 0, 30, 0, 0] @ bstr ''Status: 200 OK'' @ [13, 10] @ bstr ''Content-Type: ''"

definition headers_from_flup2 :: bytes where
  "headers_from_flup2 =
     [1, 6, 0, 1, 0, 34, 0, 0] @ bstr ''text/plain'' @ [13, 10] @ bstr ''Content-Length: 13'' @
     [13, 10, 13, 10, 1, 3, 0, 1, 0, 8, 0, 0, 0, 0, 0, 0, 0, 0, 0, 0]"

text \<open>\<open>simple_post\<close>\<close>

definition simple_post_request :: HttpRequest where
  "simple_post_request = \<lparr>uri_query = None, req_method = bstr ''POST'',
     req_headers = [(bstr ''content-length'', [bstr ''8'']), (bstr ''content-type'', [bstr ''multipart/form-data''])],
     hint_lower = TestBod_size_hint [bstr ''test=123''], hint_upper = Some (TestBod_size_hint [bstr ''test=123''])\<rparr>"

definition simple_post_to_php :: bytes where
  "simple_post_to_php =
     [1, 1, 0, 1, 0, 8, 0, 0, 0, 1, 1, 0, 0, 0, 0, 0, 1, 4, 0, 1, 0, 129, 7, 0, 15, 28] @
     bstr ''SCRIPT_FILENAME/home/daniel/Public/test.php'' @ [12, 0] @ bstr ''QUERY_STRING'' @ [14, 4] @
     bstr ''REQUEST_METHODPOST'' @ [12, 19] @ bstr ''CONTENT_TYPEmultipart/form-data'' @ [14, 1] @
     bstr ''CONTENT_LENGTH8'' @ [1, 4, 0, 1, 0, 129, 7, 1, 4, 0, 1, 0, 0, 0, 0, 1, 5, 0, 1, 0, 8, 0, 0] @
     bstr ''test=123'' @ [1, 5, 0, 1, 0, 0, 0, 0]"

definition simple_post_from_php :: bytes where
  "simple_post_from_php =
     [1, 6, 0, 1, 0, 35, 5, 0] @ bstr ''Status: 201 Created'' @ [13, 10, 13, 10] @
     bstr ''<html><body>#+#+#'' @ [1, 3, 0, 1, 0, 8, 0, 0, 0, 0, 0, 0, 0, 0, 0, 0]"

definition simple_post_body :: bytes where
  "simple_post_body =
     bstr ''<html><body>''"

text \<open>\<open>long_header\<close>\<close>

definition long_header_request :: HttpRequest where
  "long_header_request = \<lparr>uri_query = None, req_method = bstr ''GET'',
     req_headers = [(bstr ''accept'', [bstr ''text/html,application/xhtml+xml,application/xml;q=0.9,image/avif,image'' @
     bstr ''/webp,image/apng,*/*;q=0.8,application/signed-exchange;v=b3;q=0.7''])],
     hint_lower = TestBod_size_hint [], hint_upper = Some (TestBod_size_hint [])\<rparr>"

definition long_header_to_php :: bytes where
  "long_header_to_php =
     [1, 1, 0, 1, 0, 8, 0, 0, 0, 1, 1, 0, 0, 0, 0, 0, 1, 4, 0, 1, 0, 184, 0, 0, 12, 0] @
     bstr ''QUERY_STRING'' @ [14, 3] @ bstr ''REQUEST_METHODGET'' @ [11, 128, 0, 0, 135] @
     bstr ''HTTP_ACCEPTtext/html,application/xhtml+xml,application/xml;q=0.9,image'' @
     bstr ''/avif,image/webp,image/apng,*/*;q=0.8,application/signed-exchange;v=b3'' @ bstr '';q=0.7'' @
     [1, 4, 0, 1, 0, 0, 0, 0, 1, 5, 0, 1, 0, 0, 0, 0]"

definition long_header_from_php :: bytes where
  "long_header_from_php =
     [1, 6, 0, 1, 0, 27, 5, 0] @ bstr ''Status: 404 Not Found'' @
     [13, 10, 13, 10, 13, 10, 1, 6, 0, 1, 0, 1, 3, 0, 1, 0, 8, 0, 0, 0, 0, 0, 0, 0, 0, 0, 0]"

text \<open>The example of the documentation\<close>

definition doc_from_php :: bytes where
  "doc_from_php =
     [1, 6, 0, 1, 0, 56, 0, 0] @ bstr ''Status: 404 Not Found'' @ [13, 10] @
     bstr ''X-Powered-By: PHP/7.3.16'' @ [13, 10, 13, 10] @ bstr ''test!'' @
     [1, 3, 0, 1, 0, 8, 0, 0, 0, 0, 0, 0, 0, 0, 0, 0]"

text \<open>The fragments that hold a header, or its beginning.\<close>

definition split_block :: bytes where
  "split_block = take 64 (drop 8 split_from_flup)"

definition headers_block1 :: bytes where
  "headers_block1 = drop 8 headers_from_flup1"

definition headers_block2 :: bytes where
  "headers_block2 = take 34 (drop 8 headers_from_flup2)"

definition simple_post_block :: bytes where
  "simple_post_block = take 35 (drop 8 simple_post_from_php)"

definition long_header_block :: bytes where
  "long_header_block = take 27 (drop 8 long_header_from_php)"

definition doc_block :: bytes where
  "doc_block = take 56 (drop 8 doc_from_php)"

text \<open>\<open>test_parse\<close> of \<open>src/httparse.rs\<close>: the header of \<open>simple_get\<close>, with another status.\<close>

definition test_parse_header :: bytes where
  "test_parse_header =
     bstr ''Status: 202 Not Found'' @ [13, 10] @ bstr ''X-Powered-By: PHP/7.3.16'' @ [13, 10] @
     bstr ''X-Authenticate: NTLM'' @ [13, 10] @ bstr ''Content-type: text/html; charset=UTF-8'' @ [13, 10, 13, 10]"

definition test_parse_block :: bytes where
  "test_parse_block = test_parse_header @ simple_get_body"

text \<open>What the tests rely on: the header blocks, the header names and the status codes in them.\<close>

definition test_blocks :: "bytes list" where
  "test_blocks = [simple_get_block, split_block, headers_block1, headers_block1 @ headers_block2, simple_post_block,
     long_header_block, doc_block, test_parse_block]"

definition test_names :: "bytes list" where
  "test_names = [bstr ''Status'', bstr ''X-Powered-By'', bstr ''X-Authenticate'', bstr ''Content-type'',
     bstr ''Content-Type'', bstr ''Content-Length'']"

definition cgi_library ::
  "(nat \<Rightarrow> bytes \<Rightarrow> parse_status option) \<Rightarrow> (bytes \<Rightarrow> bytes option) \<Rightarrow> (bytes \<Rightarrow> u16 option) \<Rightarrow> bool" where
  "cgi_library parse_headers from_bytes status_code \<longleftrightarrow>
     list_all (\<lambda>bs. parse_headers MAX_HEADERS bs = http_headers MAX_HEADERS 0 bs) test_blocks \<and>
     list_all (\<lambda>n. from_bytes n = lower_name n) test_names \<and>
     list_all (\<lambda>s. status_code s = three_digits s) [bstr ''404'', bstr ''201'', bstr ''200'']"

section \<open>The bytes of the tests\<close>

text \<open>What the requests look like on the wire.\<close>

lemma simple_get_wire: "request_wire OnlyFirst simple_get_request [SCRIPT_FILENAME] 1 [] = simple_get_to_php"
  by code_simp

lemma simple_post_wire:
  "request_wire OnlyFirst simple_post_request [SCRIPT_FILENAME] 1 [bstr ''test=123''] = simple_post_to_php"
  by code_simp

lemma long_header_wire: "request_wire OnlyFirst long_header_request [] 1 [] = long_header_to_php"
  by code_simp

lemma plain_wire_length: "length (request_wire OnlyFirst plain_request [] 1 []) \<le> 300"
  by code_simp

text \<open>What the reader makes of the answers.\<close>

definition out_record :: "u16 \<Rightarrow> u8 \<Rightarrow> bytes \<Rightarrow> Record" where
  "out_record n p b = \<lparr>header = \<lparr>version = 1, rtype = RecordType.StdOut, request_id = 1, content_length = n,
     padding_length = p\<rparr>, body = Body.StdOut b\<rparr>"

definition end_record :: Record where
  "end_record = \<lparr>header = \<lparr>version = 1, rtype = RecordType.EndRequest, request_id = 1, content_length = 8,
     padding_length = 0\<rparr>, body = Body.EndRequest \<lparr>app_status = 0, protocol_status = ProtoStatus.Complete\<rparr>\<rparr>"

definition err_record :: Record where
  "err_record = \<lparr>header = \<lparr>version = 1, rtype = RecordType.StdErr, request_id = 1, content_length = 87,
     padding_length = 1\<rparr>, body = Body.StdErr simple_get_stderr\<rparr>"

lemma drain_whole:
  assumes "length payload = unat (content_length h)" "length pad = unat (padding_length h)"
    and "Record_parse_body payload (rtype h) = Inr b" "RecordReader_drain RecordReader_new rest = Inr (rs, p, r)"
    and "data = header_bytes h x @ payload @ pad @ rest"
  shows "RecordReader_drain RecordReader_new data = Inr (\<lparr>header = h, body = b\<rparr> # rs, p, r)"
proof -
  have "RecordReader_read RecordReader_new data = Inr (Some \<lparr>header = h, body = b\<rparr>, RecordReader_new, rest)"
    using read_whole [OF assms(1,2)] by (simp add: assms(3,5))
  with assms(4) show ?thesis by (simp add: drain_Some)
qed

lemma simple_get_lengths: "length simple_get_stderr = 87 \<and> length simple_get_block = 503"
  by code_simp

lemma end_record_drain:
  "RecordReader_drain RecordReader_new [1, 3, 0, 1, 0, 8, 0, 0, 0, 0, 0, 0, 0, 0, 0, 0] =
    Inr ([end_record], RecordReader_new, [])"
  by code_simp

lemma simple_get_drain: "RecordReader_drain RecordReader_new simple_get_from_php =
    Inr ([err_record, out_record 503 1 simple_get_block, end_record], RecordReader_new, [])"
proof -
  let ?h1 = "\<lparr>version = 1, rtype = RecordType.StdOut, request_id = 1, content_length = 503, padding_length = 1\<rparr>"
  let ?h0 = "\<lparr>version = 1, rtype = RecordType.StdErr, request_id = 1, content_length = 87, padding_length = 1\<rparr>"
  let ?d2 = "[1, 3, 0, 1, 0, 8, 0, 0, 0, 0, 0, 0, 0, 0, 0, 0] :: bytes"
  let ?d1 = "[1, 6, 0, 1, 1, 247, 1, 0] @ simple_get_block @ [0] @ ?d2 :: bytes"
  have 1: "RecordReader_drain RecordReader_new ?d1 = Inr ([out_record 503 1 simple_get_block, end_record], RecordReader_new, [])"
    unfolding out_record_def
    by (rule drain_whole [where h = ?h1 and pad = "[0]" and x = 0, OF _ _ _ end_record_drain])
      (simp_all add: simple_get_lengths Record_parse_body_def header_bytes_def put_u16_def)
  show ?thesis
    unfolding err_record_def
    by (rule drain_whole [where h = ?h0 and pad = "[0]" and x = 0, OF _ _ _ 1])
      (simp_all add: simple_get_lengths Record_parse_body_def header_bytes_def put_u16_def simple_get_from_php_def)
qed

lemma simple_post_drain: "RecordReader_drain RecordReader_new simple_post_from_php =
    Inr ([out_record 35 5 simple_post_block, end_record], RecordReader_new, [])"
  by code_simp

lemma long_header_drain: "RecordReader_drain RecordReader_new long_header_from_php =
    Inr ([out_record 27 5 long_header_block, end_record], RecordReader_new, [])"
  by code_simp

lemma doc_drain: "RecordReader_drain RecordReader_new doc_from_php =
    Inr ([out_record 56 0 doc_block, end_record], RecordReader_new, [])"
  by code_simp

text \<open>What the parsers make of the header blocks.\<close>

definition named_in :: "bytes list \<Rightarrow> parse_status option \<Rightarrow> bool" where
  "named_in names r = (case r of Some (Complete stop hs) \<Rightarrow> list_all (\<lambda>h. fst h \<in> set names) hs | _ \<Rightarrow> True)"

lemma blocks_named: "list_all (\<lambda>bs. named_in test_names (http_headers MAX_HEADERS 0 bs)) test_blocks"
  by code_simp

lemma add_headers_named:
  "list_all (\<lambda>n. from_bytes n = lower_name n) names \<Longrightarrow> list_all (\<lambda>h. fst h \<in> set names) hs \<Longrightarrow>
    add_headers from_bytes bs hs m = add_headers lower_name bs hs m"
  by (induction hs arbitrary: m) (auto simp: list_all_iff split: option.splits)

abbreviation "cgi_parse \<equiv> parse (\<lambda>n. http_headers n 0) lower_name"

lemma simple_get_parse: "cgi_parse simple_get_block [] = Inr (ParseResult.Ok simple_get_body,
    [(bstr ''status'', bstr ''404 Not Found''), (bstr ''x-powered-by'', bstr ''PHP/7.3.16''),
     (bstr ''x-authenticate'', bstr ''NTLM''), (bstr ''content-type'', bstr ''text/html; charset=UTF-8'')])"
  by code_simp

lemma split_parse: "cgi_parse split_block [] = Inr (ParseResult.Ok [],
    [(bstr ''status'', bstr ''200 OK''), (bstr ''content-type'', bstr ''text/plain''), (bstr ''content-length'', bstr ''13'')])"
  by code_simp

lemma headers_parse1: "cgi_parse headers_block1 [] = Inr (ParseResult.Pending, [])"
  by code_simp

lemma headers_parse2: "cgi_parse (headers_block1 @ headers_block2) [] = Inr (ParseResult.Ok [],
    [(bstr ''status'', bstr ''200 OK''), (bstr ''content-type'', bstr ''text/plain''), (bstr ''content-length'', bstr ''13'')])"
  by code_simp

lemma simple_post_parse: "cgi_parse simple_post_block [] = Inr (ParseResult.Ok simple_post_body,
    [(bstr ''status'', bstr ''201 Created'')])"
  by code_simp

lemma long_header_parse: "cgi_parse long_header_block [] = Inr (ParseResult.Ok [13, 10],
    [(bstr ''status'', bstr ''404 Not Found'')])"
  by code_simp

lemma doc_parse: "cgi_parse doc_block [] = Inr (ParseResult.Ok (bstr ''test!''),
    [(bstr ''status'', bstr ''404 Not Found''), (bstr ''x-powered-by'', bstr ''PHP/7.3.16'')])"
  by code_simp

lemma split_drain: "RecordReader_drain RecordReader_new split_from_flup =
    Inr ([out_record 64 0 split_block, out_record 13 3 split_body],
      \<lparr>current = Some \<lparr>version = 1, rtype = RecordType.StdOut, request_id = 1, content_length = 0, padding_length = 3\<rparr>\<rparr>, [])"
  by code_simp

lemma headers_drain1: "RecordReader_drain RecordReader_new headers_from_flup1 =
    Inr ([out_record 30 0 headers_block1], RecordReader_new, [])"
  by code_simp

lemma headers_drain2: "RecordReader_drain RecordReader_new headers_from_flup2 =
    Inr ([out_record 34 0 headers_block2, end_record], RecordReader_new, [])"
  by code_simp

lemma blocks_nonempty: "simple_get_block \<noteq> [] \<and> split_block \<noteq> [] \<and> headers_block1 \<noteq> [] \<and> headers_block2 \<noteq> [] \<and>
    simple_post_block \<noteq> [] \<and> long_header_block \<noteq> [] \<and> doc_block \<noteq> []"
  by code_simp

lemma test_kv_ok: "list_all kv_ok (request_env OnlyFirst simple_get_request [SCRIPT_FILENAME]) \<and>
    list_all kv_ok (request_env OnlyFirst simple_post_request [SCRIPT_FILENAME]) \<and>
    list_all kv_ok (request_env OnlyFirst long_header_request []) \<and>
    list_all kv_ok (request_env OnlyFirst plain_request [])"
  by code_simp

lemma wire_lengths: "length simple_get_to_php \<le> 300 \<and> length simple_post_to_php \<le> 300 \<and> length long_header_to_php \<le> 300"
  by code_simp

lemma statuses: "three_digits (bstr ''404'') = Some 404 \<and> three_digits (bstr ''201'') = Some 201 \<and> three_digits (bstr ''200'') = Some 200"
  by code_simp

lemma test_parse_parse: "cgi_parse test_parse_block [] = Inr (ParseResult.Ok simple_get_body,
    [(bstr ''status'', bstr ''202 Not Found''), (bstr ''x-powered-by'', bstr ''PHP/7.3.16''),
     (bstr ''x-authenticate'', bstr ''NTLM''), (bstr ''content-type'', bstr ''text/html; charset=UTF-8'')])"
  by code_simp

lemma in_test_blocks [simp]: "simple_get_block \<in> set test_blocks" "split_block \<in> set test_blocks"
  "headers_block1 \<in> set test_blocks" "headers_block1 @ headers_block2 \<in> set test_blocks"
  "simple_post_block \<in> set test_blocks" "long_header_block \<in> set test_blocks" "doc_block \<in> set test_blocks"
  "test_parse_block \<in> set test_blocks"
  by (simp_all add: test_blocks_def)

lemma parse_library:
  assumes "cgi_library parse_headers from_bytes status_code" "bs \<in> set test_blocks"
  shows "parse parse_headers from_bytes bs m = cgi_parse bs m"
proof -
  have n: "list_all (\<lambda>n. from_bytes n = lower_name n) test_names"
    and h: "parse_headers MAX_HEADERS bs = http_headers MAX_HEADERS 0 bs"
    and k: "named_in test_names (http_headers MAX_HEADERS 0 bs)"
    using assms blocks_named by (auto simp: cgi_library_def list_all_iff)
  from k show ?thesis
    by (auto simp: parse_def h named_in_def add_headers_named [OF n] split: option.splits parse_status.splits)
qed

lemma library_simps:
  assumes "cgi_library parse_headers from_bytes status_code"
  shows "status_code (bstr ''404'') = Some 404" "status_code (bstr ''201'') = Some 201"
    "status_code (bstr ''200'') = Some 200"
  using assms statuses by (simp_all add: cgi_library_def)

lemma cgi_library_example: "cgi_library (\<lambda>n. http_headers n 0) lower_name three_digits"
  by (simp add: cgi_library_def list_all_iff)

section \<open>The test of the header parser\<close>

definition test_parse ::
  "(nat \<Rightarrow> bytes \<Rightarrow> parse_status option) \<Rightarrow> (bytes \<Rightarrow> bytes option) \<Rightarrow> bool" where
  "test_parse parse_headers from_bytes =
     (case parse parse_headers from_bytes test_parse_block [] of
        Inr (ParseResult.Ok rest, m) \<Rightarrow>
          rest = drop 113 test_parse_block \<and>
          HeaderMap_get (bstr ''status'') m = Some (bstr ''202 Not Found'') \<and>
          HeaderMap_get (bstr ''x-powered-by'') m = Some (bstr ''PHP/7.3.16'') \<and>
          HeaderMap_get (bstr ''x-authenticate'') m = Some (bstr ''NTLM'') \<and>
          HeaderMap_get (bstr ''content-type'') m = Some (bstr ''text/html; charset=UTF-8'')
      | _ \<Rightarrow> False)"

lemma test_parse_passes:
  assumes "cgi_library parse_headers from_bytes status_code"
  shows "test_parse parse_headers from_bytes"
proof -
  have "length test_parse_header = 113" by code_simp
  then have "drop 113 test_parse_block = simple_get_body" by (simp add: test_parse_block_def)
  then show ?thesis
    by (simp add: test_parse_def parse_library [OF assms] test_parse_parse HeaderMap_get_def bstr_def)
qed

end
