(* ===== verification/Tests_Connection.thy ===== *)
theory Tests_Connection
  imports Tests_Bytes
begin

text \<open>
  The tests of \<open>src/client/connection.rs\<close>, as definitions over the model, and the proof that the
  model passes them: what the mock application asserts of the request, and what the client asserts
  of the response. A test is a run of \<open>exchange\<close> on a new connection; what the mock writes in one
  call arrives in one read.
\<close>

section \<open>The tests\<close>

text \<open>The socket takes whatever is written.\<close>

definition accepting :: "(IoError + nat) list" where
  "accepting = replicate 300 (Inr 4096)"

text \<open>The polls of the request body, until it ends.\<close>

lemma TestBod_shorter: "(p, l') = TestBod_poll_frame l \<Longrightarrow> p \<noteq> Ready None \<Longrightarrow> length l' < length l"
  by (cases l) auto

function TestBod_polls :: "bytes list \<Rightarrow> ((unit + body_frame) option poll \<times> (IoError + nat) list) list" where
  "TestBod_polls l =
     (case TestBod_poll_frame l of
        (Ready None, l) \<Rightarrow> [(Ready None, accepting)]
      | (p, l) \<Rightarrow> (p, accepting) # TestBod_polls l)"
  by pat_completeness auto
termination
  by (relation "measure length") (auto dest: TestBod_shorter)

declare TestBod_polls.simps [simp del]

lemma TestBod_polls_script: "TestBod_polls l = body_script accepting l"
  by (induction l) (subst TestBod_polls.simps; simp add: body_script_alt data_poll_def)+

definition run_test ::
  "(bytes \<Rightarrow> HeaderMap \<Rightarrow> panic + ParseResult \<times> HeaderMap) \<Rightarrow> (bytes \<Rightarrow> u16 option) \<Rightarrow> HttpRequest \<Rightarrow>
     (bytes \<times> bytes) list \<Rightarrow> exchange_script \<Rightarrow> (reply \<times> InnerConnection) option" where
  "run_test prs status_code req params xs =
     (case Connection_connect (Inr ()) 1 of
        Inl e \<Rightarrow> None
      | Inr fcgi_con \<Rightarrow>
          (case exchange True (\<lambda>_. 0) least_vacant prs status_code (header_mul fcgi_con) (header_nl fcgi_con) 0
              req params xs (conn_inner fcgi_con) of
             Inr (Some res, con) \<Rightarrow> Some (res, con)
           | _ \<Rightarrow> None))"

definition simple_get ::
  "(bytes \<Rightarrow> HeaderMap \<Rightarrow> panic + ParseResult \<times> HeaderMap) \<Rightarrow> (bytes \<Rightarrow> u16 option) \<Rightarrow> bool" where
  "simple_get prs status_code =
     (case run_test prs status_code simple_get_request [SCRIPT_FILENAME]
         \<lparr>xs_open = accepting, xs_body = TestBod_polls [],
          xs_response = [FillData simple_get_from_php, FillPending], xs_frames = [FillPending, FillPending]\<rparr> of
        None \<Rightarrow> False
      | Some (res, con) \<Rightarrow>
          io_tx con = simple_get_to_php \<and> rp_status res = 404 \<and>
          HeaderMap_get (bstr ''x-powered-by'') (rp_headers res) = Some (bstr ''PHP/7.3.16'') \<and>
          rp_frames res = [simple_get_body] \<and> fb_done (rp_body res))"

definition app_answer_split_mid_record ::
  "(bytes \<Rightarrow> HeaderMap \<Rightarrow> panic + ParseResult \<times> HeaderMap) \<Rightarrow> (bytes \<Rightarrow> u16 option) \<Rightarrow> bool" where
  "app_answer_split_mid_record prs status_code =
     (case run_test prs status_code plain_request []
         \<lparr>xs_open = accepting, xs_body = TestBod_polls [],
          xs_response = [FillData split_from_flup], xs_frames = [FillPending]\<rparr> of
        None \<Rightarrow> False
      | Some (res, con) \<Rightarrow> rp_frames res = [split_body])"

definition app_http_headers_split ::
  "(bytes \<Rightarrow> HeaderMap \<Rightarrow> panic + ParseResult \<times> HeaderMap) \<Rightarrow> (bytes \<Rightarrow> u16 option) \<Rightarrow> bool" where
  "app_http_headers_split prs status_code =
     (case run_test prs status_code plain_request []
         \<lparr>xs_open = accepting, xs_body = TestBod_polls [],
          xs_response = [FillData headers_from_flup1, FillData headers_from_flup2, FillPending],
          xs_frames = [FillPending]\<rparr> of
        None \<Rightarrow> False
      | Some (res, con) \<Rightarrow>
          rp_status res = 200 \<and>
          HeaderMap_get (bstr ''content-length'') (rp_headers res) = Some (bstr ''13'') \<and>
          HeaderMap_get (bstr ''content-type'') (rp_headers res) = Some (bstr ''text/plain'') \<and>
          rp_frames res = [] \<and> fb_done (rp_body res))"

definition simple_post ::
  "(bytes \<Rightarrow> HeaderMap \<Rightarrow> panic + ParseResult \<times> HeaderMap) \<Rightarrow> (bytes \<Rightarrow> u16 option) \<Rightarrow> bool" where
  "simple_post prs status_code =
     (case run_test prs status_code simple_post_request [SCRIPT_FILENAME]
         \<lparr>xs_open = accepting, xs_body = TestBod_polls [bstr ''test=123''],
          xs_response = [FillData simple_post_from_php, FillPending], xs_frames = [FillPending, FillPending]\<rparr> of
        None \<Rightarrow> False
      | Some (res, con) \<Rightarrow>
          io_tx con = simple_post_to_php \<and> rp_status res = 201 \<and>
          rp_frames res = [simple_post_body] \<and> fb_done (rp_body res))"

definition long_header ::
  "(bytes \<Rightarrow> HeaderMap \<Rightarrow> panic + ParseResult \<times> HeaderMap) \<Rightarrow> (bytes \<Rightarrow> u16 option) \<Rightarrow> bool" where
  "long_header prs status_code =
     (case run_test prs status_code long_header_request []
         \<lparr>xs_open = accepting, xs_body = TestBod_polls [],
          xs_response = [FillData long_header_from_php, FillPending], xs_frames = [FillPending, FillPending]\<rparr> of
        None \<Rightarrow> False
      | Some (res, con) \<Rightarrow> io_tx con = long_header_to_php \<and> rp_status res = 404)"

definition doc_example ::
  "(bytes \<Rightarrow> HeaderMap \<Rightarrow> panic + ParseResult \<times> HeaderMap) \<Rightarrow> (bytes \<Rightarrow> u16 option) \<Rightarrow> bool" where
  "doc_example prs status_code =
     (case run_test prs status_code simple_get_request [SCRIPT_FILENAME]
         \<lparr>xs_open = accepting, xs_body = TestBod_polls [],
          xs_response = [FillData doc_from_php, FillPending], xs_frames = [FillPending, FillPending]\<rparr> of
        None \<Rightarrow> False
      | Some (res, con) \<Rightarrow>
          rp_status res = 404 \<and>
          HeaderMap_get (bstr ''x-powered-by'') (rp_headers res) = Some (bstr ''PHP/7.3.16''))"

section \<open>Running the tests\<close>

text \<open>A test whose answer is complete, as a call on a new connection.\<close>

lemma ample_accepting: "n \<le> 300 \<Longrightarrow> ample n accepting"
  by (auto simp: ample_def accepting_def intro: exI [of _ 4095])

lemma run_complete:
  assumes "list_all kv_ok (request_env OnlyFirst req params)" "body_fits req vs"
    and "length (request_wire OnlyFirst req params 1 vs) \<le> 300"
    and "answers prs 0 RecordReader_new hreads [] rest m hss [] p'"
  shows "\<exists>con. run_test prs status_code req params
      \<lparr>xs_open = accepting, xs_body = body_script accepting vs, xs_response = map FillData hreads @ [FillPending],
       xs_frames = FillPending # replicate (length (rest_frames rest)) FillPending\<rparr> =
      Some (\<lparr>rp_status = response_status status_code m, rp_headers = m, rp_frames = rest_frames rest,
        rp_body = finished_body 0\<rparr>, con) \<and>
    io_tx con = request_wire OnlyFirst req params 1 vs"
proof -
  let ?c = "Connection_new 1"
  let ?cl = "\<lparr>cl_req = req, cl_env = params, cl_pieces = vs, cl_hreads = hreads, cl_breads = [], cl_rest = rest,
    cl_map = m, cl_hss = hss, cl_bss = []\<rparr>"
  have c: "0 < sem ?c" "io_rx ?c = []" "least_vacant (running_requests ?c) = 0" "fcgi_parser ?c = RecordReader_new"
    "io_tx ?c = []" "conn_ok 1 ?c"
    using idle_ok [OF idle_new [of 1]] by (simp_all add: Connection_new_def least_vacant_def)
  have ok: "call_ok prs OnlyFirst Ignore accepting (least_vacant (running_requests ?c)) (fcgi_parser ?c) p' ?cl"
    unfolding c using assms ample_accepting [OF assms(3)]
    by (simp add: call_ok_def call_wire_def refused_def list_all_iff)
  from call_works [OF c(6) _ c(1,2) least_vacant_ok ok, of True "\<lambda>_. 0" status_code 0, unfolded c(3,5)] obtain con where
    x: "call_exchange True (\<lambda>_. 0) least_vacant prs status_code OnlyFirst Ignore 0 accepting ?cl ?c =
        Inr (Some (call_reply status_code 0 ?cl), con)"
      "conn_view con = ([], [] @ call_wire OnlyFirst 0 ?cl, p')" by auto
  have s: "stdout_of k [] = []" for k by (simp add: stdout_of_def)
  have xs: "call_script accepting 0 ?cl = \<lparr>xs_open = accepting, xs_body = body_script accepting vs,
      xs_response = map FillData hreads @ [FillPending],
      xs_frames = FillPending # replicate (length (rest_frames rest)) FillPending\<rparr>"
    by (simp add: call_script_def exchange_polls_def body_schedule_def frame_schedule_def)
  from x show ?thesis
    unfolding call_exchange_def c(3) xs
    by (auto simp: run_test_def Connection_connect_def Connection_connect_with_strategy_def call_reply_def
      call_wire_def conn_view_def s)
qed

lemma answers_one:
  assumes "RecordReader_drain RecordReader_new data = Inr (rs, p', [])" "data \<noteq> []"
    and "stdout_of 0 rs = [s]" "ends 0 rs" "prs s [] = Inr (ParseResult.Ok rest, m)"
  shows "answers prs 0 RecordReader_new [data] [] rest m [rs] [] p'"
  unfolding answers_def using assms
  by (intro exI [of _ "[s]"] exI [of _ p']) (simp add: header_parsed_def)

text \<open>A test whose answer comes in one read.\<close>

lemma run_one:
  assumes "list_all kv_ok (request_env OnlyFirst req params)" "body_fits req vs"
    and "request_wire OnlyFirst req params 1 vs = wire" "length wire \<le> 300"
    and "RecordReader_drain RecordReader_new data = Inr (rs, p', [])" "data \<noteq> []"
    and "stdout_of 0 rs = [s]" "ends 0 rs" "prs s [] = Inr (ParseResult.Ok rest, m)" "rest \<noteq> []"
  shows "\<exists>con. run_test prs status_code req params
      \<lparr>xs_open = accepting, xs_body = body_script accepting vs, xs_response = [FillData data, FillPending],
       xs_frames = [FillPending, FillPending]\<rparr> =
      Some (\<lparr>rp_status = response_status status_code m, rp_headers = m, rp_frames = [rest],
        rp_body = finished_body 0\<rparr>, con) \<and>
    io_tx con = wire"
proof -
  have l: "length (request_wire OnlyFirst req params 1 vs) \<le> 300" using assms(3,4) by simp
  from run_complete [OF assms(1,2) l answers_one [where prs = prs, OF assms(5-9)], of status_code] assms(3,10) show ?thesis
    by (simp add: rest_frames_def)
qed

lemma record_simps:
  "stdout_of 0 [out_record n p s, end_record] = (if s = [] then [] else [s])" "ends 0 [out_record n p s, end_record]"
  "stdout_of 0 [err_record, out_record n p s, end_record] = (if s = [] then [] else [s])"
  "ends 0 [err_record, out_record n p s, end_record]"
  "stdout_of 0 [out_record n p s] = (if s = [] then [] else [s])" "\<not> ends 0 [out_record n p s]"
  by (simp_all add: stdout_of_def ends_def for_request_def out_record_def end_record_def err_record_def)

lemma test_bodies: "body_fits simple_get_request []" "body_fits plain_request []" "body_fits long_header_request []"
  "body_fits simple_post_request [bstr ''test=123'']"
  by (simp_all add: body_fits_def forward_len_def simple_get_request_def plain_request_def long_header_request_def
    simple_post_request_def TestBod_size_hint_def bstr_def)

lemma status_take: "take 3 (bstr ''404 Not Found'') = bstr ''404''" "take 3 (bstr ''200 OK'') = bstr ''200''"
  "take 3 (bstr ''201 Created'') = bstr ''201''" "length (bstr ''404 Not Found'') = 13" "length (bstr ''200 OK'') = 6"
  "length (bstr ''201 Created'') = 11"
  by (simp_all add: bstr_def)

lemma header_names: "bstr ''status'' \<noteq> bstr ''x-powered-by''" "bstr ''status'' \<noteq> bstr ''content-length''"
  "bstr ''status'' \<noteq> bstr ''content-type''" "bstr ''content-type'' \<noteq> bstr ''content-length''"
  "bstr ''x-powered-by'' \<noteq> bstr ''status''" "bstr ''content-length'' \<noteq> bstr ''status''"
  "bstr ''content-type'' \<noteq> bstr ''status''" "bstr ''content-length'' \<noteq> bstr ''content-type''"
  by (simp_all add: bstr_def)

lemmas reply_simps = response_status_def HeaderMap_get_def status_take header_names statuses finished_body_def
  rest_frames_def TestBod_polls_script

lemma answers_nonempty: "simple_get_from_php \<noteq> []" "simple_post_from_php \<noteq> []" "long_header_from_php \<noteq> []"
  "doc_from_php \<noteq> []" "split_from_flup \<noteq> []" "headers_from_flup1 \<noteq> []" "headers_from_flup2 \<noteq> []"
  by (simp_all add: simple_get_from_php_def simple_post_from_php_def long_header_from_php_def doc_from_php_def
    split_from_flup_def headers_from_flup1_def headers_from_flup2_def)

lemma bodies_nonempty: "simple_get_body \<noteq> []" "simple_post_body \<noteq> []" "bstr ''test!'' \<noteq> []" "split_body \<noteq> []"
  by (simp_all add: simple_get_body_def simple_post_body_def split_body_def bstr_def)

lemmas block_simps = record_simps blocks_nonempty
lemmas kv_oks = test_kv_ok [THEN conjunct1] test_kv_ok [THEN conjunct2, THEN conjunct1]
  test_kv_ok [THEN conjunct2, THEN conjunct2, THEN conjunct1] test_kv_ok [THEN conjunct2, THEN conjunct2, THEN conjunct2]

lemma simple_get_passes:
  assumes "cgi_library parse_headers from_bytes status_code"
  shows "simple_get (parse parse_headers from_bytes) status_code"
proof -
  note p = trans [OF parse_library [OF assms, of simple_get_block] simple_get_parse, simplified]
  have "\<exists>con. run_test (parse parse_headers from_bytes) status_code simple_get_request [SCRIPT_FILENAME]
      \<lparr>xs_open = accepting, xs_body = body_script accepting [], xs_response = [FillData simple_get_from_php, FillPending],
       xs_frames = [FillPending, FillPending]\<rparr> =
      Some (\<lparr>rp_status = 404, rp_headers = [(bstr ''status'', bstr ''404 Not Found''), (bstr ''x-powered-by'', bstr ''PHP/7.3.16''),
     (bstr ''x-authenticate'', bstr ''NTLM''), (bstr ''content-type'', bstr ''text/html; charset=UTF-8'')],
       rp_frames = [simple_get_body], rp_body = finished_body 0\<rparr>, con) \<and> io_tx con = simple_get_to_php"
    using run_one [where prs = "parse parse_headers from_bytes", OF kv_oks(1) test_bodies(1) simple_get_wire _ simple_get_drain answers_nonempty(1) _ _ p bodies_nonempty(1),
      of status_code] wire_lengths library_simps [OF assms]
    by (simp add: block_simps reply_simps)
  then show ?thesis by (auto simp: simple_get_def reply_simps)
qed

lemma simple_post_passes:
  assumes "cgi_library parse_headers from_bytes status_code"
  shows "simple_post (parse parse_headers from_bytes) status_code"
proof -
  note p = trans [OF parse_library [OF assms, of simple_post_block] simple_post_parse, simplified]
  have "\<exists>con. run_test (parse parse_headers from_bytes) status_code simple_post_request [SCRIPT_FILENAME]
      \<lparr>xs_open = accepting, xs_body = body_script accepting [bstr ''test=123''], xs_response = [FillData simple_post_from_php, FillPending],
       xs_frames = [FillPending, FillPending]\<rparr> =
      Some (\<lparr>rp_status = 201, rp_headers = [(bstr ''status'', bstr ''201 Created'')],
       rp_frames = [simple_post_body], rp_body = finished_body 0\<rparr>, con) \<and> io_tx con = simple_post_to_php"
    using run_one [where prs = "parse parse_headers from_bytes", OF kv_oks(2) test_bodies(4) simple_post_wire _
      simple_post_drain answers_nonempty(2) _ _ p bodies_nonempty(2), of status_code] wire_lengths library_simps [OF assms]
    by (simp add: block_simps reply_simps)
  then show ?thesis by (auto simp: simple_post_def reply_simps)
qed

lemma long_header_passes:
  assumes "cgi_library parse_headers from_bytes status_code"
  shows "long_header (parse parse_headers from_bytes) status_code"
proof -
  note p = trans [OF parse_library [OF assms, of long_header_block] long_header_parse, simplified]
  have "\<exists>con. run_test (parse parse_headers from_bytes) status_code long_header_request []
      \<lparr>xs_open = accepting, xs_body = body_script accepting [], xs_response = [FillData long_header_from_php, FillPending],
       xs_frames = [FillPending, FillPending]\<rparr> =
      Some (\<lparr>rp_status = 404, rp_headers = [(bstr ''status'', bstr ''404 Not Found'')],
       rp_frames = [[13, 10]], rp_body = finished_body 0\<rparr>, con) \<and> io_tx con = long_header_to_php"
    using run_one [where prs = "parse parse_headers from_bytes", OF kv_oks(3) test_bodies(3) long_header_wire _
      long_header_drain answers_nonempty(3) _ _ p list.distinct(2), of status_code] wire_lengths library_simps [OF assms]
    by (simp add: block_simps reply_simps)
  then show ?thesis by (auto simp: long_header_def reply_simps)
qed

lemma doc_example_passes:
  assumes "cgi_library parse_headers from_bytes status_code"
  shows "doc_example (parse parse_headers from_bytes) status_code"
proof -
  note p = trans [OF parse_library [OF assms, of doc_block] doc_parse, simplified]
  have "\<exists>con. run_test (parse parse_headers from_bytes) status_code simple_get_request [SCRIPT_FILENAME]
      \<lparr>xs_open = accepting, xs_body = body_script accepting [], xs_response = [FillData doc_from_php, FillPending],
       xs_frames = [FillPending, FillPending]\<rparr> =
      Some (\<lparr>rp_status = 404, rp_headers = [(bstr ''status'', bstr ''404 Not Found''), (bstr ''x-powered-by'', bstr ''PHP/7.3.16'')],
       rp_frames = [bstr ''test!''], rp_body = finished_body 0\<rparr>, con) \<and> io_tx con = simple_get_to_php"
    using run_one [where prs = "parse parse_headers from_bytes", OF kv_oks(1) test_bodies(1) simple_get_wire _
      doc_drain answers_nonempty(4) _ _ p bodies_nonempty(3), of status_code] wire_lengths library_simps [OF assms]
    by (simp add: block_simps reply_simps)
  then show ?thesis by (auto simp: doc_example_def reply_simps)
qed

lemma app_http_headers_split_passes:
  assumes "cgi_library parse_headers from_bytes status_code"
  shows "app_http_headers_split (parse parse_headers from_bytes) status_code"
proof -
  let ?prs = "parse parse_headers from_bytes" and ?ss = "[headers_block1, headers_block2]"
  let ?m = "[(bstr ''status'', bstr ''200 OK''), (bstr ''content-type'', bstr ''text/plain''), (bstr ''content-length'', bstr ''13'')]"
  have "?prs headers_block1 [] = Inr (ParseResult.Pending, [])"
    "?prs (headers_block1 @ headers_block2) [] = Inr (ParseResult.Ok [], ?m)"
    using parse_library [OF assms] headers_parse1 headers_parse2 by simp_all
  then have hp: "header_parsed ?prs [] ?ss [] ?m" by (auto simp: header_parsed_def less_Suc_eq)
  have d: "drain_reads RecordReader_new [headers_from_flup1, headers_from_flup2] =
      Some ([[out_record 30 0 headers_block1], [out_record 34 0 headers_block2, end_record]], RecordReader_new)"
    by (simp add: headers_drain1 headers_drain2 answers_nonempty)
  have a: "answers ?prs 0 RecordReader_new [headers_from_flup1, headers_from_flup2] [] [] ?m
      [[out_record 30 0 headers_block1], [out_record 34 0 headers_block2, end_record]] [] RecordReader_new"
    unfolding answers_def using hp d
    by (intro exI [of _ ?ss] exI [of _ RecordReader_new]) (simp add: block_simps)
  from run_complete [OF kv_oks(4) test_bodies(2) plain_wire_length a, of status_code]
  show ?thesis
    using library_simps [OF assms] by (auto simp: app_http_headers_split_def reply_simps)
qed

text \<open>The answer that is not complete: the header and the body in one read, then nothing.\<close>

lemma app_answer_split_mid_record_passes:
  assumes "cgi_library parse_headers from_bytes status_code"
  shows "app_answer_split_mid_record (parse parse_headers from_bytes) status_code"
proof -
  let ?prs = "parse parse_headers from_bytes" and ?start = "Connection_new 1\<lparr>sem := 0\<rparr>"
  let ?m = "[(bstr ''status'', bstr ''200 OK''), (bstr ''content-type'', bstr ''text/plain''), (bstr ''content-length'', bstr ''13'')]"
  let ?c = "opened_connection least_vacant 0 (request_wire OnlyFirst plain_request [] 1 []) ?start"
  let ?rs = "[out_record 64 0 split_block, out_record 13 3 split_body]"
  let ?fb = "\<lparr>fb_rid = 0, fb_done = False, fb_was_returned = False\<rparr>"
  let ?p = "\<lparr>current = Some \<lparr>version = 1, rtype = RecordType.StdOut, request_id = 1, content_length = 0, padding_length = 3\<rparr>\<rparr>"
  have rr: "running_requests ?start = []" "io_rx ?start = []" by (simp_all add: Connection_new_def)
  have k: "least_vacant [] = 0" by (simp add: least_vacant_def)
  have am: "ample (length (request_wire OnlyFirst plain_request [] (of_nat (least_vacant (running_requests ?start) + 1)) [])) accepting"
    unfolding rr k using ample_accepting [OF plain_wire_length] by simp
  have nr: "list_all (\<lambda>h. \<not> refused OnlyFirst Ignore h) (req_headers plain_request)" by (simp add: plain_request_def)
  from exchange_sends [where alloc = least_vacant and con = ?start and dbg = True and uninit = "\<lambda>_. 0" and task = 0,
      OF rr(2) nr kv_oks(4) test_bodies(2) am] obtain len' c1 where
    o: "forward_open True (\<lambda>_. 0) least_vacant OnlyFirst Ignore 0 FillPending (Inr ()) accepting plain_request [] ?start =
        Inr (Inr (1, len'), c1)"
    and s: "send_polls True (\<lambda>_. 0) 1 (body_script accepting []) len' c1 = (Inr None, ?c)"
    unfolding rr k by auto
  have c: "io_rx ?c = []" "fcgi_parser ?c = RecordReader_new" "conn_slot ?c 0 = Some FCGIRequest_new"
    by (simp_all add: opened_connection_def Connection_new_def conn_slot_def slab_simps k)
  from poll_resp_read [OF c(1) answers_nonempty(5) split_drain [folded c(2)], of True 0] obtain c2 where
    r: "InnerConnection_poll_resp True 0 (FillData split_from_flup) ?c = Inr (Ready (Some (Inr ())), c2)"
      "conn_view c2 = ([], io_tx ?c, ?p)" "conn_slot c2 = (\<lambda>k. run_slot k ?rs (conn_slot ?c k))" by blast
  have new: "\<not> rq_aborted FCGIRequest_new" "rq_buf FCGIRequest_new = []" "\<not> rq_ended FCGIRequest_new"
    by (simp_all add: FCGIRequest_new_def BufList_new_def)
  obtain q where q: "conn_slot c2 0 = Some q" "rq_buf q = stdout_of 0 ?rs" "rq_ended q \<longleftrightarrow> ends 0 ?rs"
    by (rule slot_after_read [OF c(3) new r(3)])
  have q': "rq_buf q = [split_block, split_body]" "\<not> rq_ended q"
    using q(2,3) bodies_nonempty(4) blocks_nonempty
    by (simp_all add: stdout_of_def ends_def for_request_def out_record_def)
  have wf: "BufList_wf (rq_buf q)" using bodies_nonempty(4) blocks_nonempty by (simp add: q')
  have s0: "conn_slot c2 (unat (fb_rid ?fb)) = Some q" by (simp add: q(1))
  from poll_frame_ready [OF _ r(1) s0 wf] q' obtain c3 where
    f1: "FCGIBody_poll_frame True True 0 (FillData split_from_flup) ?fb ?c = Inr (Ready (Some split_block), ?fb, c3)"
      "conn_slot c3 0 = Some (q\<lparr>rq_buf := [split_body]\<rparr>)"
    by (auto simp: frame_result_def frame_release_def frame_request_def)
  have rx3: "io_rx c3 = []" using poll_frame_view [OF _ r(1) f1(1)] r(2) by (simp add: conn_view_def)
  let ?fb' = "?fb\<lparr>fb_was_returned := True\<rparr>"
  have "?prs split_block [] = Inr (ParseResult.Ok [], ?m)" using parse_library [OF assms, of split_block] split_parse by simp
  then have p: "response_polls ?prs status_code True 0 [FillData split_from_flup] (create_response_start 1) ?c =
      Inr (Returned ?fb' (response_status status_code ?m) ?m, c3)"
    by (simp add: create_response_start_def create_response_poll_def f1(1))
      (simp add: create_response_fragment_def response_return_def)
  have s3: "conn_slot c3 (unat (fb_rid ?fb')) = Some (q\<lparr>rq_buf := [split_body]\<rparr>)" using f1(2) by simp
  have wf3: "BufList_wf (rq_buf (q\<lparr>rq_buf := [split_body]\<rparr>))" using bodies_nonempty(4) by simp
  from poll_frame_quiet [OF _ rx3 s3 wf3, of True 0] q'(2) obtain b c4 where
    "FCGIBody_poll_frame True True 0 FillPending ?fb' c3 = Inr (Ready (Some split_body), b, c4)"
    by (auto simp: frame_result_def)
  then have f: "frame_polls True 0 [FillPending] ?fb' c3 = Inr ([split_body], b, c4)" by simp
  have acq: "Connection_acquire (Connection_new 1) = Ready ?start" by (simp add: Connection_acquire_def Connection_new_def)
  have "exchange True (\<lambda>_. 0) least_vacant ?prs status_code OnlyFirst Ignore 0 plain_request []
      \<lparr>xs_open = accepting, xs_body = [(Ready None, accepting)], xs_response = [FillData split_from_flup],
       xs_frames = [FillPending]\<rparr> (Connection_new 1) =
      Inr (Some \<lparr>rp_status = response_status status_code ?m, rp_headers = ?m, rp_frames = [split_body], rp_body = b\<rparr>, c4)"
    unfolding exchange_def acq poll.case exchange_script.simps o rbind.simps prod.case sum.case Let_def
      s [unfolded body_script_alt list.map append_Nil] option.case p response.case f ..
  then show ?thesis
    by (simp add: app_answer_split_mid_record_def run_test_def Connection_connect_def Connection_connect_with_strategy_def
      TestBod_polls_script body_script_alt)
qed

end
