(* ===== verification/Tests_Pool.thy ===== *)
theory Tests_Pool
  imports Con_Pool "HOL-Library.Code_Target_Nat"
begin

text \<open>
  The test \<open>no_vals\<close> of \<open>src/client/con_pool.rs\<close>, as a definition over the model, and the proof that
  the model passes it: what the mock application asserts of the query, and what the test asserts of
  the pool when the answer has no values. The test \<open>start_app\<close>, which runs a program of the system,
  is not modelled.
\<close>

text \<open>The mock application reads the query in one read; \<open>None\<close> is a failed assertion or \<open>unwrap\<close>.\<close>

definition no_vals_from_php :: bytes where
  "no_vals_from_php =
     [1, 10, 0, 0, 0, 33, 7, 0, 10, 0] @ bstr ''MPXS_CONNS'' @ [8, 0] @ bstr ''MAX_REQS'' @ [9, 0] @
     bstr ''MAX_CONNS'' @ [0, 0, 0, 0, 0, 0, 0]"

function drain_names :: "bytes \<Rightarrow> panic + NameValuePair list" where
  "drain_names kvs =
     rbind (NVDrain_next kvs) (\<lambda>(kv, kvs).
       case kv of
         None \<Rightarrow> Inr []
       | Some kv \<Rightarrow> rbind (drain_names kvs) (\<lambda>names. Inr (kv # names)))"
  by pat_completeness auto
termination
  by (relation "measure length") (auto simp: NVDrain_next_def rbind_Inr_iff dest: parse_pair_length split: if_splits)

definition mock_app :: "bytes \<Rightarrow> panic + bytes option" where
  "mock_app buf =
     rbind (Record_read buf) (\<lambda>(rec, buf).
     case rec of
       None \<Rightarrow> Inr None
     | Some rec \<Rightarrow>
         (case body rec of
            Body.GetValues v \<Rightarrow>
              rbind (NVBody_drain v) (\<lambda>v.
              rbind (drain_names v) (\<lambda>names.
              rbind (Record_read buf) (\<lambda>(rec2, buf).
                Inr (if Record_get_request_id rec = 0 \<and> length names = 3 \<and> rec2 \<noteq> None \<and> buf = []
                  then Some no_vals_from_php else None))))
          | _ \<Rightarrow> Inr None))"

definition no_vals :: "(nat \<Rightarrow> u8) \<Rightarrow> bool" where
  "no_vals uninit =
     (let stream = \<lparr>sent = [], script = replicate 60 (Inr 4096)\<rparr> in
      case mock_app (sent (snd (ConPool_query uninit stream))) of
        Inr (Some answer) \<Rightarrow>
          (case ConPool_new uninit (Inr stream) [Inr answer] (Inr ()) of
             Inr cp \<Rightarrow> max_cons cp = 1 \<and> max_req_per_con cp = 1
           | Inl _ \<Rightarrow> False)
      | _ \<Rightarrow> False)"

section \<open>The model passes it\<close>

definition no_vals_query :: bytes where
  "no_vals_query = stream_wire RecordType.GetValues 0 (kv_wire [(MAX_CONNS, []), (MAX_REQS, []), (MPXS_CONNS, [])])"

lemma mock_app_answers: "mock_app no_vals_query = Inr (Some no_vals_from_php)"
  by code_simp

lemma no_vals_length: "length no_vals_query \<le> 60"
  by code_simp

lemma no_vals_records: "(case send_and_receive [Inr no_vals_from_php] of
    Inl _ \<Rightarrow> False | Inr recs \<Rightarrow> negotiate_records recs (1, 1) = Inr (1, 1))"
  by code_simp

lemma no_vals_passes: "no_vals uninit"
proof -
  let ?stream = "\<lparr>sent = [], script = replicate 60 (Inr 4096)\<rparr>"
  have a: "ample (length no_vals_query) (replicate 60 (Inr 4096))"
    using no_vals_length by (auto simp: ample_def intro: exI [of _ 4095])
  note q = query_sends [of uninit, folded no_vals_query_def]
  from sends_ample [OF q, of 0 ?stream] a obtain stream' where
    s: "ConPool_query uninit ?stream = (Inr (), stream')" by auto
  then have q: "ConPool_query uninit ?stream = (Inr (), stream')" "sent stream' = no_vals_query"
    using sends_successD [OF q] by fastforce+
  obtain recs where r: "send_and_receive [Inr no_vals_from_php] = Inr recs" "negotiate_records recs (1, 1) = Inr (1, 1)"
    using no_vals_records by (auto split: sum.splits)
  show ?thesis
    by (simp add: no_vals_def q mock_app_answers ConPool_new_def ConPool_new_with_strategy_def r
      Connection_connect_with_strategy_def del: One_nat_def)
qed

end
