(* ===== verification/Repository_Tests.thy ===== *)
theory Repository_Tests
  imports Tests_Fcgi Tests_Connection Tests_Pool
begin

text \<open>
  The repository's tests, together: those of \<open>src/fastcgi.rs\<close>, \<open>src/httpparse.rs\<close>,
  \<open>src/client/connection.rs\<close> (with the example of its documentation) and \<open>src/client/con_pool.rs\<close>.
\<close>

text \<open>
  C13. The model passes the tests that the authors wrote for the code, with the byte strings of the tests: the
  serialiser's three, the header parser's one, the five of the connection and the example of its
  documentation (what is sent, and the status, header and body that come back), and the one of the pool. For
  the crates \<open>httparse\<close> and \<open>http\<close> any parsers will do that read the header blocks, names and
  status codes of the tests as documented.
\<close>

theorem repository_tests_pass:
  assumes "cgi_library parse_headers from_bytes status_code"
  shows "encode_simple_get dbg uninit = Inr True \<and> encode_post dbg uninit = Inr True \<and>
    encode_long_param dbg uninit = Inr True \<and> test_parse parse_headers from_bytes \<and>
    simple_get (parse parse_headers from_bytes) status_code \<and>
    app_answer_split_mid_record (parse parse_headers from_bytes) status_code \<and>
    app_http_headers_split (parse parse_headers from_bytes) status_code \<and>
    simple_post (parse parse_headers from_bytes) status_code \<and>
    long_header (parse parse_headers from_bytes) status_code \<and>
    doc_example (parse parse_headers from_bytes) status_code \<and> no_vals uninit"
  by (intro conjI encode_simple_get_passes encode_post_passes encode_long_param_passes test_parse_passes [OF assms]
    simple_get_passes [OF assms] app_answer_split_mid_record_passes [OF assms] app_http_headers_split_passes [OF assms]
    simple_post_passes [OF assms] long_header_passes [OF assms] doc_example_passes [OF assms] no_vals_passes)

theorem repository_tests_pass_witness:
  "simple_get (parse (\<lambda>n. http_headers n 0) lower_name) three_digits \<and>
    test_parse (\<lambda>n. http_headers n 0) lower_name"
  using repository_tests_pass [OF cgi_library_example, of True "\<lambda>_. 0"] by blast

end
